(* ===== verification/Prelude.thy ===== *)
theory Prelude
  imports Main "HOL-Library.Word" "HOL-Library.Monad_Syntax"
begin

text \<open>
  What the component theories share: the Go types they are written over, Go's slice
  expressions with their run-time panics, the byte orders of \<^verbatim>\<open>encoding/binary\<close>, and the
  generic lemmas on lists and words that carry the component proofs.

  A Go \<^verbatim>\<open>byte\<close> is an \<open>8 word\<close>; a Go \<^verbatim>\<open>[]byte\<close> and a Go \<^verbatim>\<open>string\<close> are both lists of bytes,
  so the conversions between them are the identity. Fixed-width Go integers are words of
  that width, read with \<open>unat\<close> or \<open>sint\<close>; a Go \<^verbatim>\<open>int\<close> is 64 bits wide on every platform the
  program builds for and is an \<open>int\<close> (or a \<open>nat\<close> where it is a length or an index), with the
  wrap-around written out where it can happen. A run-time panic is the value \<open>None\<close> of an
  option type, so that \<open>Option.bind\<close> and its \<open>do\<close> notation propagate it as the Go run time
  does.
\<close>

unbundle bit_operations_syntax

text \<open>Lengths and indices that come from words are read with \<open>unat\<close> throughout.\<close>

declare of_nat_unat [simp del]

type_synonym byte = "8 word"
type_synonym bytes = "byte list"
type_synonym gostring = "byte list"
type_synonym u16 = "16 word"
type_synonym u32 = "32 word"
type_synonym u64 = "64 word"
type_synonym 'a go = "'a option"

subsection \<open>String literals\<close>

definition str :: "string \<Rightarrow> gostring" where
  "str s = map of_char s"

abbreviation (input) CR :: byte where "CR \<equiv> 13"
abbreviation (input) LF :: byte where "LF \<equiv> 10"
abbreviation (input) SPACE :: byte where "SPACE \<equiv> 32"

subsection \<open>Slice expressions\<close>

text \<open>
  \<^verbatim>\<open>x[lo:hi]\<close> panics unless \<^verbatim>\<open>0 <= lo <= hi <= len(x)\<close>. (For slices the upper limit is the
  capacity; every use in the modelled code has \<open>hi\<close> at most the length or else below \<open>lo\<close>,
  where the two rules agree. The few functions that reslice up to the capacity take the
  spare bytes as an argument of their own.)
\<close>

definition slice_range :: "'a list \<Rightarrow> int \<Rightarrow> int \<Rightarrow> 'a list go" where
  "slice_range x lo hi =
     (if 0 \<le> lo \<and> lo \<le> hi \<and> hi \<le> int (length x)
      then Some (take (nat hi - nat lo) (drop (nat lo) x)) else None)"

definition slice_from :: "'a list \<Rightarrow> int \<Rightarrow> 'a list go" where
  "slice_from x lo = slice_range x lo (int (length x))"

definition slice_to :: "'a list \<Rightarrow> int \<Rightarrow> 'a list go" where
  "slice_to x hi = slice_range x 0 hi"

text \<open>Reading one element, \<^verbatim>\<open>x[i]\<close>.\<close>

definition index :: "'a list \<Rightarrow> int \<Rightarrow> 'a go" where
  "index x i = (if 0 \<le> i \<and> i < int (length x) then Some (x ! nat i) else None)"

text \<open>Integer division by zero panics.\<close>

definition u32_div :: "u32 \<Rightarrow> u32 \<Rightarrow> u32 go" where
  "u32_div a b = (if b = 0 then None else Some (a div b))"

text \<open>Assigning to an element, \<^verbatim>\<open>x[i] = v\<close>.\<close>

definition set_index :: "'a list \<Rightarrow> nat \<Rightarrow> 'a \<Rightarrow> 'a list go" where
  "set_index x i v = (if i < length x then Some (x[i := v]) else None)"

text \<open>\<^verbatim>\<open>copy(x[off:], src)\<close>: overwrites as many elements as fit.\<close>

definition copy_at :: "nat \<Rightarrow> 'a list \<Rightarrow> 'a list \<Rightarrow> 'a list" where
  "copy_at off src x =
     take off x @ take (length x - off) src @ drop (off + length src) x"

text \<open>Filling a buffer from offset \<open>off\<close> with one field after the other.\<close>

primrec write_seq :: "nat \<Rightarrow> 'a list list \<Rightarrow> 'a list \<Rightarrow> 'a list" where
  "write_seq off [] out = out"
| "write_seq off (s # ss) out = write_seq (off + length s) ss (copy_at off s out)"

text \<open>\<open>took m d l\<close>: \<open>l\<close> is what is left of \<open>d\<close> after at least \<open>m\<close> elements were taken.\<close>

definition took :: "nat \<Rightarrow> 'a list \<Rightarrow> 'a list \<Rightarrow> bool" where
  "took m d l \<longleftrightarrow> (\<exists>p. d = p @ l \<and> m \<le> length p)"

subsection \<open>Byte orders\<close>

primrec le_bytes :: "nat \<Rightarrow> 'a::len word \<Rightarrow> bytes" where
  "le_bytes 0 w = []"
| "le_bytes (Suc n) w = ucast w # le_bytes n (drop_bit 8 w)"

primrec le_word :: "bytes \<Rightarrow> 'a::len word" where
  "le_word [] = 0"
| "le_word (b # bs) = (ucast b OR push_bit 8 (le_word bs))"

definition be_bytes :: "nat \<Rightarrow> 'a::len word \<Rightarrow> bytes" where
  "be_bytes n w = rev (le_bytes n w)"

definition be_word :: "bytes \<Rightarrow> 'a::len word" where
  "be_word bs = le_word (rev bs)"

text \<open>
  \<^verbatim>\<open>binary.LittleEndian.Uint16(b)\<close> and its companions read the first bytes of \<open>b\<close> and panic
  when there are fewer.
\<close>

definition get_le :: "nat \<Rightarrow> bytes \<Rightarrow> ('a::len word) go" where
  "get_le n b = (if n \<le> length b then Some (le_word (take n b)) else None)"

definition get_be :: "nat \<Rightarrow> bytes \<Rightarrow> ('a::len word) go" where
  "get_be n b = (if n \<le> length b then Some (be_word (take n b)) else None)"

subsection \<open>Lemmas\<close>

lemma le_bytes_numeral:
  "le_bytes (numeral k) w = ucast w # le_bytes (pred_numeral k) (drop_bit 8 w)"
  by (simp add: numeral_eq_Suc)

lemma le_bytes_one: "le_bytes 1 w = [ucast w]"
  by (simp add: One_nat_def)

lemma length_le_bytes [simp]: "length (le_bytes n w) = n"
  by (induction n arbitrary: w) auto

lemma length_be_bytes [simp]: "length (be_bytes n w) = n"
  by (simp add: be_bytes_def)

lemma le_word_le_bytes: "le_word (le_bytes n w) = take_bit (8 * n) w"
  for w :: "'a::len word"
proof (induction n arbitrary: w)
  case 0
  then show ?case by simp
next
  case (Suc n)
  show ?case
    by (rule bit_word_eqI) (auto simp: Suc bit_simps)
qed

text \<open>Writing a word out and reading it back is the identity when every bit is written.\<close>

lemma le_word_le_bytes_id:
  "LENGTH('a) \<le> 8 * n \<Longrightarrow> le_word (le_bytes n w) = w" for w :: "'a::len word"
  by (simp add: le_word_le_bytes take_bit_word_eq_self)

lemma be_word_be_bytes_id:
  "LENGTH('a) \<le> 8 * n \<Longrightarrow> be_word (be_bytes n w) = w" for w :: "'a::len word"
  by (simp add: be_word_def be_bytes_def le_word_le_bytes_id)

lemma get_le_le_bytes [simp]:
  "LENGTH('a) \<le> 8 * n \<Longrightarrow> get_le n (le_bytes n w @ x) = Some w" for w :: "'a::len word"
  by (simp add: get_le_def le_word_le_bytes_id)

lemma get_be_be_bytes [simp]:
  "LENGTH('a) \<le> 8 * n \<Longrightarrow> get_be n (be_bytes n w @ x) = Some w" for w :: "'a::len word"
  by (simp add: get_be_def be_word_be_bytes_id)

text \<open>Readers look at a prefix only.\<close>

lemma get_le_append [simp]: "n \<le> length b \<Longrightarrow> get_le n (b @ x) = get_le n b"
  by (simp add: get_le_def)

lemma get_be_append [simp]: "n \<le> length b \<Longrightarrow> get_be n (b @ x) = get_be n b"
  by (simp add: get_be_def)

lemma get_le_Some: "n \<le> length b \<Longrightarrow> get_le n b = Some (le_word (take n b))"
  by (simp add: get_le_def)

lemma get_be_Some: "n \<le> length b \<Longrightarrow> get_be n b = Some (be_word (take n b))"
  by (simp add: get_be_def)

lemma slice_Some_iff:
  "slice_range x lo hi = Some y \<longleftrightarrow>
     0 \<le> lo \<and> lo \<le> hi \<and> hi \<le> int (length x) \<and> y = take (nat hi - nat lo) (drop (nat lo) x)"
  by (auto simp: slice_range_def)

lemma slice_None_iff:
  "slice_range x lo hi = None \<longleftrightarrow> \<not> (0 \<le> lo \<and> lo \<le> hi \<and> hi \<le> int (length x))"
  by (auto simp: slice_range_def)

lemma slice_from_Some_iff:
  "slice_from x lo = Some y \<longleftrightarrow> 0 \<le> lo \<and> lo \<le> int (length x) \<and> y = drop (nat lo) x"
  by (auto simp: slice_from_def slice_range_def)

lemma slice_nat [simp]:
  "a \<le> b \<Longrightarrow> b \<le> length x \<Longrightarrow> slice_range x (int a) (int b) = Some (take (b - a) (drop a x))"
  by (simp add: slice_range_def)

lemma slice_from_nat [simp]: "a \<le> length x \<Longrightarrow> slice_from x (int a) = Some (drop a x)"
  by (simp add: slice_from_def)

lemma slice_from_numeral [simp]:
  "numeral k \<le> length x \<Longrightarrow> slice_from x (numeral k) = Some (drop (numeral k) x)"
  using slice_from_nat [of "numeral k" x] by simp

lemma slice_append:
  "slice_range x lo hi = Some y \<Longrightarrow> slice_range (x @ z) lo hi = Some y"
  by (auto simp: slice_range_def split: if_splits)

lemma slice_from_append:
  "slice_from x lo = Some y \<Longrightarrow> slice_from (x @ z) lo = Some (y @ z)"
  by (auto simp: slice_from_Some_iff)

lemma slice_from_shorter:
  "slice_from x lo = Some y \<Longrightarrow> length y + nat lo = length x \<and> y = drop (nat lo) x"
  by (auto simp: slice_from_Some_iff)

lemma copy_at_exact:
  "off + length src \<le> length x \<Longrightarrow>
   copy_at off src x = take off x @ src @ drop (off + length src) x"
  by (simp add: copy_at_def)

lemma length_copy_at [simp]:
  "off \<le> length x \<Longrightarrow> length (copy_at off src x) = length x"
  by (simp add: copy_at_def)

text \<open>Sequential writes into a zeroed buffer of exactly the right size build a concatenation.\<close>

lemma copy_at_zeros:
  "copy_at (length p) src (p @ replicate (length src + k) z) = (p @ src) @ replicate k z"
  by (simp add: copy_at_def replicate_add)

lemma write_seq_zeros:
  "write_seq (length p) ss (p @ replicate (length (concat ss)) z) = p @ concat ss"
proof (induction ss arbitrary: p)
  case (Cons s ss)
  from Cons.IH [of "p @ s"] show ?case by (simp add: copy_at_zeros)
qed simp

lemma took_0 [simp]: "took 0 d d"
  by (simp add: took_def)

lemma took_drop: "m \<le> n \<Longrightarrow> n \<le> length d \<Longrightarrow> took m d (drop n d)"
  unfolding took_def by (rule exI [of _ "take n d"]) simp

lemma took_of_drop: "took m (drop n d) l \<Longrightarrow> took m d l"
  unfolding took_def
  by (metis append_assoc append_take_drop_id length_append trans_le_add2)

text \<open>Lengths computed at the width of a length field.\<close>

lemma unat_u16_less: "unat (n :: u16) < 65536"
  using unsigned_less [of n, where ?'a = nat] by simp

lemma unat_u32_less: "unat (n :: u32) < 4294967296"
  using unsigned_less [of n, where ?'a = nat] by simp

lemma unat_2_add_u16:
  "unat (2 + n :: u16) = (if 65534 \<le> unat n then unat n - 65534 else 2 + unat n)"
  using unat_u16_less [of n] by (auto simp: unat_word_ariths mod_if)

lemma unat_6_add_u32:
  "unat (6 + n :: u32) = (if 4294967290 \<le> unat n then unat n - 4294967290 else 6 + unat n)"
  using unat_u32_less [of n] by (auto simp: unat_word_ariths mod_if)

lemma unat_of_nat_u16: "n < 65536 \<Longrightarrow> unat (of_nat n :: u16) = n"
  by (simp add: unat_of_nat take_bit_eq_mod)

lemma unat_of_nat_u32: "n < 4294967296 \<Longrightarrow> unat (of_nat n :: u32) = n"
  by (simp add: unat_of_nat take_bit_eq_mod)

lemma index_nat [simp]: "i < length x \<Longrightarrow> index x (int i) = Some (x ! i)"
  by (simp add: index_def)

end
