(* ===== verification/Load_Balancer.thy ===== *)
theory Load_Balancer
  imports Prelude
begin

text \<open>
  \<^verbatim>\<open>load_balancer.go\<close>: a weighted round robin over the backends of a connection manager. Every
  counter is a \<^verbatim>\<open>uint32\<close> and wraps. The atomic loads and stores are plain ones here: every call
  in the program is made under the lock of the connection manager that owns the balancer.
\<close>

record LoadBalancer =
  lb_weight :: "u32 list"
  lb_minWeight :: "u32 list"
  lb_totalCount :: u32
  lb_nowBase :: u32
  lb_lastCount :: u32
  lb_lastIndex :: u32
  lb_lastBaseCount :: u32

text \<open>The zero value.\<close>

definition new_LoadBalancer :: LoadBalancer where
  "new_LoadBalancer = \<lparr>lb_weight = [], lb_minWeight = [], lb_totalCount = 0, lb_nowBase = 0,
     lb_lastCount = 0, lb_lastIndex = 0, lb_lastBaseCount = 0\<rparr>"

definition lb_Get :: "LoadBalancer \<Rightarrow> (nat \<times> LoadBalancer) go" where
  "lb_Get lb =
     (let totalCount = lb_totalCount lb in
      if totalCount = 0 then Some (unat totalCount, lb)
      else do {
        let newCount = lb_lastCount lb + 1;
        let lb = lb\<lparr>lb_lastCount := newCount\<rparr>;
        share \<leftarrow> index (lb_minWeight lb) (int (unat (lb_lastIndex lb mod totalCount)));
        if newCount - lb_lastBaseCount lb > share
        then do {
          let newIndex = lb_lastIndex lb + 1;
          Some (unat (newIndex mod totalCount),
            lb\<lparr>lb_lastIndex := newIndex, lb_lastBaseCount := newCount\<rparr>)
        }
        else Some (unat (lb_lastIndex lb mod totalCount), lb)
      })"

definition lb_Update :: "u32 \<Rightarrow> u32 \<Rightarrow> LoadBalancer \<Rightarrow> LoadBalancer go" where
  "lb_Update i weight lb =
     (if length (lb_weight lb) \<le> unat i
      then do {
        let lb = lb\<lparr>lb_totalCount := lb_totalCount lb + 1\<rparr>;
        lb \<leftarrow> (if i = 0
          then Some (lb\<lparr>lb_minWeight := lb_minWeight lb @ [weight div 100], lb_nowBase := 100\<rparr>)
          else do {
            share \<leftarrow> u32_div weight (lb_nowBase lb);
            Some (lb\<lparr>lb_minWeight := lb_minWeight lb @ [share]\<rparr>)
          });
        Some (lb\<lparr>lb_weight := lb_weight lb @ [weight]\<rparr>)
      }
      else do {
        weights \<leftarrow> set_index (lb_weight lb) (unat i) weight;
        share \<leftarrow> u32_div weight (lb_nowBase lb);
        shares \<leftarrow> set_index (lb_minWeight lb) (unat i) share;
        Some (lb\<lparr>lb_weight := weights, lb_minWeight := shares\<rparr>)
      })"

text \<open>\<^verbatim>\<open>Delete\<close> cuts \<^verbatim>\<open>minWeight\<close> as \<^verbatim>\<open>append(minWeight[0:index], minWeight[index:]...)\<close>.\<close>

definition lb_Delete :: "u32 \<Rightarrow> LoadBalancer \<Rightarrow> LoadBalancer go" where
  "lb_Delete i lb =
     (if length (lb_weight lb) \<le> unat i then Some lb
      else do {
        front \<leftarrow> slice_range (lb_minWeight lb) 0 (int (unat i));
        back \<leftarrow> slice_from (lb_minWeight lb) (int (unat i));
        wfront \<leftarrow> slice_range (lb_weight lb) 0 (int (unat i));
        wback \<leftarrow> slice_from (lb_weight lb) (int (unat (i + 1)));
        Some (lb\<lparr>lb_minWeight := front @ back, lb_weight := wfront @ wback,
          lb_totalCount := lb_totalCount lb + NOT 0\<rparr>)
      })"

text \<open>A run of calls of \<^verbatim>\<open>Get\<close>, with the indices it returned.\<close>

fun lb_gets :: "nat \<Rightarrow> LoadBalancer \<Rightarrow> (nat list \<times> LoadBalancer) go" where
  "lb_gets 0 lb = Some ([], lb)"
| "lb_gets (Suc n) lb = do {
     (i, lb) \<leftarrow> lb_Get lb;
     (is, lb) \<leftarrow> lb_gets n lb;
     Some (i # is, lb)
   }"

text \<open>
  The invariant: one weight per backend, a share for every one of them, and a base to divide
  by as soon as there is a backend.
\<close>

definition lb_inv :: "LoadBalancer \<Rightarrow> bool" where
  "lb_inv lb \<longleftrightarrow>
     length (lb_weight lb) = unat (lb_totalCount lb) \<and>
     length (lb_weight lb) \<le> length (lb_minWeight lb) \<and>
     (lb_weight lb \<noteq> [] \<longrightarrow> lb_nowBase lb = 100)"

text \<open>The stronger relation that \<^verbatim>\<open>Update\<close> keeps: each backend's share comes from its weight.\<close>

definition lb_shares_ok :: "LoadBalancer \<Rightarrow> bool" where
  "lb_shares_ok lb \<longleftrightarrow> lb_minWeight lb = map (\<lambda>w. w div 100) (lb_weight lb)"

subsection \<open>Lemmas\<close>

lemma new_LoadBalancer_inv: "lb_inv new_LoadBalancer"
  by (simp add: lb_inv_def new_LoadBalancer_def)

lemma unat_mod_less: "b \<noteq> 0 \<Longrightarrow> unat (a mod b :: u32) < unat b"
  by (simp add: unat_mod unat_gt_0)

lemma lb_index_bound:
  "lb_inv lb \<Longrightarrow> lb_totalCount lb \<noteq> 0 \<Longrightarrow>
   unat (lb_lastIndex lb mod lb_totalCount lb) < length (lb_minWeight lb)"
  using unat_mod_less [of "lb_totalCount lb" "lb_lastIndex lb"] by (simp add: lb_inv_def)

text \<open>\<^verbatim>\<open>Get\<close> under the invariant, without the panic.\<close>

lemma lb_Get_eq:
  assumes "lb_inv lb" and "lb_totalCount lb \<noteq> 0"
  shows "lb_Get lb =
    (let share = lb_minWeight lb ! unat (lb_lastIndex lb mod lb_totalCount lb);
         newCount = lb_lastCount lb + 1
     in if newCount - lb_lastBaseCount lb > share
        then Some (unat ((lb_lastIndex lb + 1) mod lb_totalCount lb),
          lb\<lparr>lb_lastCount := newCount, lb_lastIndex := lb_lastIndex lb + 1, lb_lastBaseCount := newCount\<rparr>)
        else Some (unat (lb_lastIndex lb mod lb_totalCount lb), lb\<lparr>lb_lastCount := newCount\<rparr>))"
  using lb_index_bound [OF assms] assms(2)
  by (simp add: lb_Get_def Let_def)

lemma lb_Get_empty: "lb_totalCount lb = 0 \<Longrightarrow> lb_Get lb = Some (0, lb)"
  by (simp add: lb_Get_def)

text \<open>\<^verbatim>\<open>Get\<close> moves the counters only.\<close>

lemma lb_Get_frame:
  assumes "lb_inv lb" and "lb_Get lb = Some (i, lb')"
  shows "lb_weight lb' = lb_weight lb \<and> lb_minWeight lb' = lb_minWeight lb \<and>
    lb_totalCount lb' = lb_totalCount lb \<and> lb_nowBase lb' = lb_nowBase lb"
proof (cases "lb_totalCount lb = 0")
  case True
  with assms(2) show ?thesis by (simp add: lb_Get_empty)
next
  case False
  with assms show ?thesis by (auto simp: lb_Get_eq Let_def split: if_splits)
qed

lemma lb_Get_inv: "lb_inv lb \<Longrightarrow> lb_Get lb = Some (i, lb') \<Longrightarrow> lb_inv lb'"
  by (frule (1) lb_Get_frame) (simp add: lb_inv_def)

lemma lb_Get_total:
  assumes "lb_inv lb"
  shows "\<exists>i lb'. lb_Get lb = Some (i, lb') \<and> lb_inv lb' \<and>
    (if lb_weight lb = [] then i = 0 else i < length (lb_weight lb))"
proof (cases "lb_totalCount lb = 0")
  case True
  with assms show ?thesis by (simp add: lb_Get_empty lb_inv_def)
next
  case False
  with assms have "lb_weight lb \<noteq> []" and len: "length (lb_weight lb) = unat (lb_totalCount lb)"
    by (auto simp: lb_inv_def unat_eq_zero)
  moreover obtain i lb' where g: "lb_Get lb = Some (i, lb')" and "i < unat (lb_totalCount lb)"
    using False unat_mod_less [OF False] unfolding lb_Get_eq [OF assms False] Let_def
    by (metis (no_types, lifting))
  ultimately show ?thesis using lb_Get_inv [OF assms g] by auto
qed

lemma lb_Update_inv:
  assumes "lb_inv lb" and "unat i \<le> length (lb_weight lb)" and "length (lb_weight lb) < 4294967295"
  shows "\<exists>lb'. lb_Update i weight lb = Some lb' \<and> lb_inv lb'"
proof (cases "unat i = length (lb_weight lb)")
  case True
  from assms(1,3) have "unat (lb_totalCount lb + 1) = Suc (unat (lb_totalCount lb))"
    by (simp add: lb_inv_def unat_word_ariths)
  with True assms show ?thesis
    by (cases "i = 0") (auto simp: lb_Update_def lb_inv_def u32_div_def Let_def unat_eq_zero)
next
  case False
  with assms show ?thesis
    by (auto simp: lb_Update_def lb_inv_def u32_div_def set_index_def Let_def)
qed

lemma lb_Delete_eq:
  assumes "lb_inv lb" and "unat i < length (lb_weight lb)"
  shows "lb_Delete i lb = Some (lb\<lparr>lb_weight := take (unat i) (lb_weight lb) @ drop (Suc (unat i)) (lb_weight lb),
    lb_totalCount := lb_totalCount lb - 1\<rparr>)"
proof -
  from assms have "unat i < unat (lb_totalCount lb)" by (simp add: lb_inv_def)
  then have "unat (i + 1) = Suc (unat i)"
    using unat_u32_less [of "lb_totalCount lb"] by (simp add: unat_word_ariths)
  with assms show ?thesis
    by (simp add: lb_Delete_def lb_inv_def slice_range_def slice_from_def nat_add_distrib)
qed

lemma lb_Delete_inv:
  assumes "lb_inv lb"
  shows "\<exists>lb'. lb_Delete i lb = Some lb' \<and> lb_inv lb'"
proof (cases "unat i < length (lb_weight lb)")
  case True
  with assms have "lb_totalCount lb \<noteq> 0" by (auto simp: lb_inv_def)
  then have "unat (lb_totalCount lb - 1) = unat (lb_totalCount lb) - 1"
    by (simp add: unat_minus_one)
  with True assms show ?thesis by (auto simp: lb_Delete_eq lb_inv_def)
next
  case False
  with assms show ?thesis by (simp add: lb_Delete_def)
qed

text \<open>A turn: \<open>k\<close> calls into it the counter is \<open>k\<close> ahead of its base, wrap-around or not.\<close>

lemma lb_Get_within_turn:
  assumes "lb_inv lb" and "lb_totalCount lb \<noteq> 0"
    and "lb_lastCount lb - lb_lastBaseCount lb = of_nat k"
    and "Suc k \<le> unat (lb_minWeight lb ! unat (lb_lastIndex lb mod lb_totalCount lb))"
  shows "lb_Get lb = Some (unat (lb_lastIndex lb mod lb_totalCount lb),
    lb\<lparr>lb_lastCount := lb_lastCount lb + 1\<rparr>)"
proof -
  let ?share = "lb_minWeight lb ! unat (lb_lastIndex lb mod lb_totalCount lb)"
  have "lb_lastCount lb + 1 - lb_lastBaseCount lb = of_nat (Suc k)"
    using assms(3) by (simp add: algebra_simps)
  also have "unat \<dots> = Suc k"
    using assms(4) unat_u32_less [of ?share] by (intro unat_of_nat_u32) simp
  finally have "\<not> lb_lastCount lb + 1 - lb_lastBaseCount lb > ?share"
    using assms(4) by (simp add: word_less_nat_alt)
  with assms(1,2) show ?thesis by (simp add: lb_Get_eq Let_def)
qed

lemma lb_Get_end_of_turn:
  assumes "lb_inv lb" and "lb_totalCount lb \<noteq> 0"
    and "lb_lastCount lb - lb_lastBaseCount lb = of_nat k"
    and "k = unat (lb_minWeight lb ! unat (lb_lastIndex lb mod lb_totalCount lb))"
    and "k < 4294967295"
  shows "lb_Get lb = Some (unat ((lb_lastIndex lb + 1) mod lb_totalCount lb),
    lb\<lparr>lb_lastCount := lb_lastCount lb + 1, lb_lastIndex := lb_lastIndex lb + 1,
      lb_lastBaseCount := lb_lastCount lb + 1\<rparr>)"
proof -
  have "lb_lastCount lb + 1 - lb_lastBaseCount lb = of_nat (Suc k)"
    using assms(3) by (simp add: algebra_simps)
  also have "unat \<dots> = Suc k"
    using assms(5) by (intro unat_of_nat_u32) simp
  finally have "lb_lastCount lb + 1 - lb_lastBaseCount lb >
      lb_minWeight lb ! unat (lb_lastIndex lb mod lb_totalCount lb)"
    using assms(4) by (simp add: word_less_nat_alt)
  with assms(1,2) show ?thesis by (simp add: lb_Get_eq Let_def)
qed

lemma lb_gets_turn:
  assumes "lb_inv lb" and "lb_totalCount lb \<noteq> 0"
    and "lb_lastCount lb - lb_lastBaseCount lb = of_nat k"
    and "m = unat (lb_minWeight lb ! unat (lb_lastIndex lb mod lb_totalCount lb))"
    and "k + n = m" and "m < 4294967295"
  shows "lb_gets (Suc n) lb = Some
    (replicate n (unat (lb_lastIndex lb mod lb_totalCount lb)) @
       [unat ((lb_lastIndex lb + 1) mod lb_totalCount lb)],
     lb\<lparr>lb_lastCount := lb_lastCount lb + of_nat (Suc n), lb_lastIndex := lb_lastIndex lb + 1,
       lb_lastBaseCount := lb_lastCount lb + of_nat (Suc n)\<rparr>)"
  using assms
proof (induction n arbitrary: k lb)
  case 0
  then show ?case using lb_Get_end_of_turn [of lb k] by simp
next
  case (Suc n)
  let ?lb = "lb\<lparr>lb_lastCount := lb_lastCount lb + 1\<rparr>"
  have get: "lb_Get lb = Some (unat (lb_lastIndex lb mod lb_totalCount lb), ?lb)"
    using Suc.prems by (intro lb_Get_within_turn [where k = k]) auto
  have "lb_gets (Suc n) ?lb = Some
    (replicate n (unat (lb_lastIndex lb mod lb_totalCount lb)) @
       [unat ((lb_lastIndex lb + 1) mod lb_totalCount lb)],
     lb\<lparr>lb_lastCount := lb_lastCount ?lb + of_nat (Suc n), lb_lastIndex := lb_lastIndex lb + 1,
       lb_lastBaseCount := lb_lastCount ?lb + of_nat (Suc n)\<rparr>)"
    using Suc.IH [of ?lb "Suc k"] Suc.prems by (simp add: lb_inv_def algebra_simps)
  with get show ?case
    by (subst lb_gets.simps(2)) (simp add: algebra_simps del: lb_gets.simps)
qed

subsection \<open>Properties\<close>




definition lb_ex :: LoadBalancer where
  "lb_ex = \<lparr>lb_weight = [200, 100], lb_minWeight = [2, 1], lb_totalCount = 2, lb_nowBase = 100,
     lb_lastCount = 0, lb_lastIndex = 0, lb_lastBaseCount = 0\<rparr>"


text \<open>
  \<^verbatim>\<open>Delete\<close> forgets to drop the deleted backend's share, so shares and backends drift apart:
  after one deletion and one new backend, the new backend is served by the share of the
  backend that was last before the deletion, whatever its own weight.
\<close>

lemma lb_delete_stale_share:
  assumes "lb_inv lb" and "lb_shares_ok lb" and "unat i < length (lb_weight lb)"
    and "1 < length (lb_weight lb)"
    and "lb_Delete i lb = Some lb1"
    and "lb_Update (of_nat (length (lb_weight lb1))) w lb1 = Some lb2"
  shows "last (lb_weight lb2) = w \<and>
    lb_minWeight lb2 ! (length (lb_weight lb2) - 1) = last (lb_weight lb) div 100"
proof -
  let ?n = "length (lb_weight lb)"
  have n: "?n < 4294967296" using assms(1) unat_u32_less by (simp add: lb_inv_def)
  have lb1: "lb_weight lb1 = take (unat i) (lb_weight lb) @ drop (Suc (unat i)) (lb_weight lb)"
      "lb_minWeight lb1 = lb_minWeight lb" "lb_nowBase lb1 = 100"
    using assms(1,3,5) by (auto simp: lb_Delete_eq lb_inv_def)
  then have len: "length (lb_weight lb1) = ?n - 1" using assms(3) by simp
  then have "unat (of_nat (length (lb_weight lb1)) :: u32) = ?n - 1"
    using n by (simp add: unat_of_nat_u32)
  moreover from this assms(4) have "(of_nat (length (lb_weight lb1)) :: u32) \<noteq> 0" by force
  ultimately have lb2: "lb_weight lb2 = lb_weight lb1 @ [w]"
      "lb_minWeight lb2 = lb_minWeight lb @ [w div 100]"
    using assms(6) len lb1 by (auto simp: lb_Update_def u32_div_def Let_def)
  from assms(4) have "?n - 1 < ?n" by simp
  have "lb_minWeight lb2 ! (?n - 1) = (lb_weight lb ! (?n - 1)) div 100"
    using assms(2) lb2(2) \<open>?n - 1 < ?n\<close> by (simp only: lb_shares_ok_def nth_append length_map nth_map if_True)
  moreover from assms(4) have "lb_weight lb \<noteq> []" by auto
  ultimately show ?thesis using lb2(1) len assms(4) by (simp add: last_conv_nth)
qed

lemma lb_delete_stale_share_witness:
  "\<exists>lb1 lb2. lb_Delete 0 lb_ex = Some lb1 \<and> lb_Update 1 5000 lb1 = Some lb2 \<and>
     last (lb_weight lb2) = 5000 \<and> lb_minWeight lb2 ! 1 = 1"
proof -
  define lb1 where "lb1 = lb_ex\<lparr>lb_weight := [100], lb_totalCount := 1\<rparr>"
  define lb2 where "lb2 = lb1\<lparr>lb_weight := [100, 5000], lb_minWeight := [2, 1, 50], lb_totalCount := 2\<rparr>"
  have "lb_Delete 0 lb_ex = Some lb1"
    by (simp add: lb_Delete_def lb1_def lb_ex_def slice_range_def slice_from_def)
  moreover have "lb_Update (of_nat (length (lb_weight lb1))) 5000 lb1 = Some lb2"
    by (simp add: lb_Update_def lb1_def lb2_def lb_ex_def u32_div_def)
  ultimately show ?thesis
    using lb_delete_stale_share [of lb_ex 0 lb1 5000 lb2]
    by (simp add: lb_ex_def lb_inv_def lb_shares_ok_def lb1_def lb2_def)
qed

end
