(* ===== verification/Connection_Manager.thy ===== *)
theory Connection_Manager
  imports Load_Balancer
begin

text \<open>
  \<^verbatim>\<open>connection_manager.go\<close>: a list of connections with a load balancer over it. Each operation
  runs between \<^verbatim>\<open>lock.Lock()\<close> and \<^verbatim>\<open>lock.Unlock()\<close> on all its paths, so it is one step here
  (the spin lock itself is modelled in \<open>Note_Queue\<close>). Connections are compared by identity.

  The clients (the remote agents, their manager and the dubbo agent) see the interface
  \<open>connection_pool\<close>.
\<close>

record 'a ConnectionManager =
  cm_connList :: "'a list"
  cm_lb :: LoadBalancer

definition new_ConnectionManager :: "'a ConnectionManager" where
  "new_ConnectionManager = \<lparr>cm_connList = [], cm_lb = new_LoadBalancer\<rparr>"

definition AddConnection :: "'a \<Rightarrow> 'a ConnectionManager \<Rightarrow> (nat \<times> 'a ConnectionManager) go" where
  "AddConnection conn cm = do {
     let cm = cm\<lparr>cm_connList := cm_connList cm @ [conn]\<rparr>;
     let connCount = length (cm_connList cm);
     lb \<leftarrow> lb_Update (of_nat (connCount - 1)) 1000 (cm_lb cm);
     Some (connCount, cm\<lparr>cm_lb := lb\<rparr>)
   }"

text \<open>
  \<^verbatim>\<open>DeleteConnection\<close> ranges over the slice as it was on entry while it cuts \<^verbatim>\<open>connList\<close> in place:
  \<open>arr\<close> is the backing array under the ranged slice and \<open>n\<close> the current length of \<^verbatim>\<open>connList\<close>. The
  slice expression \<^verbatim>\<open>connList[index+1:]\<close> panics when \<open>index + 1\<close> exceeds \<open>n\<close>.
\<close>

function delete_loop ::
  "'a \<Rightarrow> nat \<Rightarrow> 'a list \<Rightarrow> nat \<Rightarrow> LoadBalancer \<Rightarrow> ('a list \<times> nat \<times> LoadBalancer) go" where
  "delete_loop conn i arr n lb =
     (if i < length arr then
        if arr ! i = conn then
          if Suc i \<le> n then do {
            let arr = copy_at i (take (n - Suc i) (drop (Suc i) arr)) arr;
            lb \<leftarrow> lb_Delete (of_nat i) lb;
            delete_loop conn (Suc i) arr (n - 1) lb
          }
          else None
        else delete_loop conn (Suc i) arr n lb
      else Some (arr, n, lb))"
  by pat_completeness auto
termination
  by (relation "measure (\<lambda>(conn, i, arr, n, lb). length arr - i)") (auto simp: Let_def)

declare delete_loop.simps [simp del]

definition DeleteConnection :: "'a \<Rightarrow> 'a ConnectionManager \<Rightarrow> (nat \<times> 'a ConnectionManager) go" where
  "DeleteConnection conn cm = do {
     (arr, n, lb) \<leftarrow> delete_loop conn 0 (cm_connList cm) (length (cm_connList cm)) (cm_lb cm);
     Some (n, cm\<lparr>cm_connList := take n arr, cm_lb := lb\<rparr>)
   }"

definition GetConnection :: "'a ConnectionManager \<Rightarrow> ('a option \<times> nat \<times> 'a ConnectionManager) go" where
  "GetConnection cm =
     (let connCount = length (cm_connList cm) in
      if connCount = 0 then Some (None, connCount, cm)
      else do {
        (i, lb) \<leftarrow> lb_Get (cm_lb cm);
        conn \<leftarrow> index (cm_connList cm) (int (i mod connCount));
        Some (Some conn, connCount, cm\<lparr>cm_lb := lb\<rparr>)
      })"

definition GetAllConnections :: "'a ConnectionManager \<Rightarrow> 'a list" where
  "GetAllConnections cm = [] @ cm_connList cm"

definition GetConnectionCount :: "'a ConnectionManager \<Rightarrow> nat" where
  "GetConnectionCount cm = length (cm_connList cm)"

definition UpdateLB :: "u32 \<Rightarrow> u32 \<Rightarrow> 'a ConnectionManager \<Rightarrow> 'a ConnectionManager go" where
  "UpdateLB i weight cm = do {
     lb \<leftarrow> lb_Update i weight (cm_lb cm);
     Some (cm\<lparr>cm_lb := lb\<rparr>)
   }"

text \<open>The invariant: the balancer has one weight per connection, and no connection is listed
  twice.\<close>

definition cm_inv :: "'a ConnectionManager \<Rightarrow> bool" where
  "cm_inv cm \<longleftrightarrow> lb_inv (cm_lb cm) \<and> length (lb_weight (cm_lb cm)) = length (cm_connList cm) \<and>
     distinct (cm_connList cm)"

subsection \<open>Lemmas\<close>

lemma new_ConnectionManager_inv: "cm_inv new_ConnectionManager"
  using new_LoadBalancer_inv
  by (simp add: cm_inv_def new_ConnectionManager_def new_LoadBalancer_def)

lemma lb_Update_length:
  "lb_Update i w lb = Some lb' \<Longrightarrow>
   length (lb_weight lb') = (if unat i < length (lb_weight lb) then length (lb_weight lb) else Suc (length (lb_weight lb)))"
  by (auto simp: lb_Update_def set_index_def u32_div_def Let_def split: if_splits)

lemma AddConnection_inv:
  assumes "cm_inv cm" and "conn \<notin> set (cm_connList cm)" and "length (cm_connList cm) < 4294967295"
  shows "\<exists>cm'. AddConnection conn cm = Some (Suc (length (cm_connList cm)), cm') \<and>
    cm_connList cm' = cm_connList cm @ [conn] \<and> cm_inv cm'"
proof -
  let ?n = "length (cm_connList cm)"
  have n: "unat (of_nat ?n :: u32) = ?n" using assms(3) by (simp add: unat_of_nat_u32)
  from assms lb_Update_inv [of "cm_lb cm" "of_nat ?n" 1000] n obtain lb where
    lb: "lb_Update (of_nat ?n) 1000 (cm_lb cm) = Some lb" "lb_inv lb"
    by (auto simp: cm_inv_def)
  with lb_Update_length [OF lb(1)] assms n show ?thesis
    by (simp add: AddConnection_def cm_inv_def)
qed

lemma delete_loop_absent:
  assumes "conn \<notin> set (drop i arr)"
  shows "delete_loop conn i arr n lb = Some (arr, n, lb)"
  using assms
proof (induction conn i arr n lb rule: delete_loop.induct)
  case (1 conn i arr n lb)
  show ?case
  proof (cases "i < length arr")
    case True
    then have "arr ! i \<in> set (drop i arr)" by (metis Cons_nth_drop_Suc list.set_intros(1))
    with "1.prems" have "arr ! i \<noteq> conn" by blast
    moreover have "conn \<notin> set (drop (Suc i) arr)"
      using "1.prems" by (metis Cons_nth_drop_Suc True list.set_intros(2))
    ultimately show ?thesis
      using "1.IH"(2) True by (simp add: delete_loop.simps [of conn i])
  next
    case False
    then show ?thesis by (simp add: delete_loop.simps [of conn i])
  qed
qed

lemma delete_loop_skip:
  assumes "conn \<notin> set xs" and "i = length ws"
  shows "delete_loop conn i (ws @ xs @ ys) n lb = delete_loop conn (length (ws @ xs)) (ws @ xs @ ys) n lb"
  using assms
proof (induction xs arbitrary: i ws)
  case (Cons x xs)
  have "delete_loop conn i (ws @ (x # xs) @ ys) n lb = delete_loop conn (Suc i) (ws @ (x # xs) @ ys) n lb"
    using Cons.prems by (subst delete_loop.simps) (auto simp: nth_append)
  also have "\<dots> = delete_loop conn (length ((ws @ [x]) @ xs)) ((ws @ [x]) @ xs @ ys) n lb"
    using Cons.IH [of "Suc i" "ws @ [x]"] Cons.prems by simp
  finally show ?case by simp
qed simp

text \<open>A connection that is listed once is cut out; the element that the shift leaves behind in
  the backing array is not mistaken for another occurrence.\<close>

lemma delete_loop_once:
  assumes "conn \<notin> set xs" and "conn \<notin> set ys" and "lb_Delete (of_nat (length xs)) lb = Some lb'"
  shows "\<exists>arr. delete_loop conn 0 (xs @ conn # ys) (length (xs @ conn # ys)) lb =
    Some (arr, length (xs @ ys), lb') \<and> take (length (xs @ ys)) arr = xs @ ys"
proof -
  let ?arr = "xs @ conn # ys"
  define arr where "arr = copy_at (length xs) ys ?arr"
  have arr: "arr = xs @ ys @ drop (length ys) (conn # ys)"
    by (simp add: arr_def copy_at_def)
  have "conn \<notin> set (drop (Suc (length xs)) arr)"
  proof (cases ys)
    case Nil
    then show ?thesis by (simp add: arr)
  next
    case (Cons y ys')
    with assms(2) show ?thesis by (auto simp: arr dest: in_set_dropD)
  qed
  then have "delete_loop conn (Suc (length xs)) arr (length (xs @ ys)) lb' = Some (arr, length (xs @ ys), lb')"
    by (rule delete_loop_absent)
  moreover have "delete_loop conn 0 ?arr (length ?arr) lb = delete_loop conn (length xs) ?arr (length ?arr) lb"
    using delete_loop_skip [of conn xs 0 "[]"] assms(1) by simp
  ultimately have "delete_loop conn 0 ?arr (length ?arr) lb = Some (arr, length (xs @ ys), lb')"
    using assms(3) by (simp add: delete_loop.simps [of conn "length xs"] arr_def)
  then show ?thesis by (simp add: arr)
qed

lemma lb_Delete_length:
  "lb_inv lb \<Longrightarrow> unat i < length (lb_weight lb) \<Longrightarrow> lb_Delete i lb = Some lb' \<Longrightarrow>
   Suc (length (lb_weight lb')) = length (lb_weight lb)"
  by (auto simp: lb_Delete_eq)

lemma cm_inv_bound: "cm_inv cm \<Longrightarrow> length (cm_connList cm) < 4294967296"
  using unat_u32_less [of "lb_totalCount (cm_lb cm)"] by (simp add: cm_inv_def lb_inv_def)

lemma DeleteConnection_inv:
  assumes "cm_inv cm"
  shows "\<exists>cm'. DeleteConnection conn cm = Some (length (cm_connList cm'), cm') \<and>
    cm_connList cm' = remove1 conn (cm_connList cm) \<and> cm_inv cm'"
proof (cases "conn \<in> set (cm_connList cm)")
  case False
  then have "delete_loop conn 0 (cm_connList cm) (length (cm_connList cm)) (cm_lb cm) =
      Some (cm_connList cm, length (cm_connList cm), cm_lb cm)"
    by (intro delete_loop_absent) simp
  with False assms show ?thesis by (simp add: DeleteConnection_def remove1_idem)
next
  case True
  then obtain xs ys where l: "cm_connList cm = xs @ conn # ys" and x: "conn \<notin> set xs"
    by (auto dest: split_list_first)
  with assms have y: "conn \<notin> set ys" and d: "distinct (xs @ ys)" by (auto simp: cm_inv_def)
  have n: "unat (of_nat (length xs) :: u32) = length xs"
    using cm_inv_bound [OF assms] l by (simp add: unat_of_nat_u32)
  from assms obtain lb where lb: "lb_Delete (of_nat (length xs)) (cm_lb cm) = Some lb" "lb_inv lb"
    using lb_Delete_inv unfolding cm_inv_def by blast
  have "Suc (length (lb_weight lb)) = length (lb_weight (cm_lb cm))"
    using assms l n by (intro lb_Delete_length [OF _ _ lb(1)]) (auto simp: cm_inv_def)
  with delete_loop_once [OF x y lb(1)] assms l lb d show ?thesis
    by (auto simp: DeleteConnection_def cm_inv_def remove1_append x)
qed

lemma GetConnection_inv:
  assumes "cm_inv cm"
  shows "\<exists>r cm'. GetConnection cm = Some (r, length (cm_connList cm), cm') \<and>
    cm_connList cm' = cm_connList cm \<and> cm_inv cm' \<and>
    (case r of None \<Rightarrow> cm_connList cm = [] | Some c \<Rightarrow> c \<in> set (cm_connList cm))"
proof (cases "cm_connList cm = []")
  case True
  with assms show ?thesis by (simp add: GetConnection_def)
next
  case False
  from assms lb_Get_total obtain i lb where g: "lb_Get (cm_lb cm) = Some (i, lb)" "lb_inv lb"
    unfolding cm_inv_def by blast
  with assms lb_Get_frame [of "cm_lb cm" i lb] have "length (lb_weight lb) = length (cm_connList cm)"
    by (simp add: cm_inv_def)
  with False g assms show ?thesis
    by (simp add: GetConnection_def cm_inv_def Let_def)
qed

lemma UpdateLB_inv:
  assumes "cm_inv cm" and "unat i < length (cm_connList cm)" and "length (cm_connList cm) < 4294967295"
  shows "\<exists>cm'. UpdateLB i w cm = Some cm' \<and> cm_connList cm' = cm_connList cm \<and> cm_inv cm'"
proof -
  from assms lb_Update_inv [of "cm_lb cm" i w] obtain lb where lb: "lb_Update i w (cm_lb cm) = Some lb" "lb_inv lb"
    by (auto simp: cm_inv_def)
  with lb_Update_length [OF lb(1)] assms show ?thesis by (simp add: UpdateLB_def cm_inv_def)
qed

subsection \<open>The interface\<close>

text \<open>
  What the clients rely on: an added connection is listed last, a deleted one is not listed
  any more and the others keep their order, and a pick is one of the listed connections,
  with \<open>None\<close> only when there is none. No operation panics.
\<close>

locale connection_pool =
  fixes conns :: "'s \<Rightarrow> 'a list"
    and inv :: "'s \<Rightarrow> bool"
    and add del :: "'a \<Rightarrow> 's \<Rightarrow> (nat \<times> 's) go"
    and pick :: "'s \<Rightarrow> ('a option \<times> nat \<times> 's) go"
    and room :: nat
  assumes inv_distinct: "inv s \<Longrightarrow> distinct (conns s)"
    and add_law: "inv s \<Longrightarrow> c \<notin> set (conns s) \<Longrightarrow> length (conns s) < room \<Longrightarrow>
      \<exists>s'. add c s = Some (length (conns s'), s') \<and> conns s' = conns s @ [c] \<and> inv s'"
    and del_law: "inv s \<Longrightarrow>
      \<exists>s'. del c s = Some (length (conns s'), s') \<and> conns s' = remove1 c (conns s) \<and> inv s'"
    and pick_law: "inv s \<Longrightarrow>
      \<exists>r s'. pick s = Some (r, length (conns s), s') \<and> conns s' = conns s \<and> inv s' \<and>
        (case r of None \<Rightarrow> conns s = [] | Some c \<Rightarrow> c \<in> set (conns s))"

text \<open>A client's sequence of calls, with the connections its picks returned.\<close>

datatype 'a pool_op = PoolAdd 'a | PoolDelete 'a | PoolPick

fun pool_run ::
  "('a \<Rightarrow> 's \<Rightarrow> (nat \<times> 's) go) \<Rightarrow> ('a \<Rightarrow> 's \<Rightarrow> (nat \<times> 's) go) \<Rightarrow>
   ('s \<Rightarrow> ('a option \<times> nat \<times> 's) go) \<Rightarrow> 'a pool_op list \<Rightarrow> 's \<Rightarrow> ('a option list \<times> 's) go" where
  "pool_run add del pick [] s = Some ([], s)"
| "pool_run add del pick (PoolAdd c # ops) s = do {
     (n, s) \<leftarrow> add c s;
     pool_run add del pick ops s
   }"
| "pool_run add del pick (PoolDelete c # ops) s = do {
     (n, s) \<leftarrow> del c s;
     pool_run add del pick ops s
   }"
| "pool_run add del pick (PoolPick # ops) s = do {
     (r, n, s) \<leftarrow> pick s;
     (rs, s) \<leftarrow> pool_run add del pick ops s;
     Some (r # rs, s)
   }"

text \<open>The abstract pool: the list of connections, and for every pick the list it was made from.\<close>

fun pool_spec :: "'a pool_op list \<Rightarrow> 'a list \<Rightarrow> 'a list list \<times> 'a list" where
  "pool_spec [] cs = ([], cs)"
| "pool_spec (PoolAdd c # ops) cs = pool_spec ops (cs @ [c])"
| "pool_spec (PoolDelete c # ops) cs = pool_spec ops (remove1 c cs)"
| "pool_spec (PoolPick # ops) cs = (let (ps, cs') = pool_spec ops cs in (cs # ps, cs'))"

text \<open>A client adds a connection only once while it is listed, and not more than \<open>room\<close>.\<close>

fun pool_ok :: "nat \<Rightarrow> 'a pool_op list \<Rightarrow> 'a list \<Rightarrow> bool" where
  "pool_ok room [] cs = True"
| "pool_ok room (PoolAdd c # ops) cs \<longleftrightarrow> c \<notin> set cs \<and> length cs < room \<and> pool_ok room ops (cs @ [c])"
| "pool_ok room (PoolDelete c # ops) cs \<longleftrightarrow> pool_ok room ops (remove1 c cs)"
| "pool_ok room (PoolPick # ops) cs \<longleftrightarrow> pool_ok room ops cs"

definition pool_picked :: "'a list \<Rightarrow> 'a option \<Rightarrow> bool" where
  "pool_picked cs r = (case r of None \<Rightarrow> cs = [] | Some c \<Rightarrow> c \<in> set cs)"

context connection_pool
begin

lemma run_refines:
  assumes "inv s" and "pool_ok room ops (conns s)"
  shows "\<exists>rs s'. pool_run add del pick ops s = Some (rs, s') \<and> inv s' \<and>
    conns s' = snd (pool_spec ops (conns s)) \<and>
    list_all2 pool_picked (fst (pool_spec ops (conns s))) rs"
  using assms
proof (induction ops arbitrary: s)
  case (Cons op ops)
  show ?case
  proof (cases op)
    case (PoolAdd c)
    with Cons.prems add_law [of s c] obtain s1 where
      "add c s = Some (length (conns s1), s1)" "conns s1 = conns s @ [c]" "inv s1" by auto
    with Cons.IH [of s1] Cons.prems PoolAdd show ?thesis by auto
  next
    case (PoolDelete c)
    with Cons.prems del_law [of s c] obtain s1 where
      "del c s = Some (length (conns s1), s1)" "conns s1 = remove1 c (conns s)" "inv s1" by auto
    with Cons.IH [of s1] Cons.prems PoolDelete show ?thesis by auto
  next
    case PoolPick
    with Cons.prems pick_law [of s] obtain r s1 where s1:
      "pick s = Some (r, length (conns s), s1)" "conns s1 = conns s" "inv s1" "pool_picked (conns s) r"
      by (auto simp: pool_picked_def)
    with Cons.IH [of s1] Cons.prems PoolPick obtain rs s2 where
      "pool_run add del pick ops s1 = Some (rs, s2)" "inv s2" "conns s2 = snd (pool_spec ops (conns s))"
      "list_all2 pool_picked (fst (pool_spec ops (conns s))) rs" by auto
    with s1 PoolPick show ?thesis by (auto simp: split: prod.splits)
  qed
qed simp

end

interpretation cm_pool: connection_pool cm_connList cm_inv AddConnection DeleteConnection GetConnection 4294967295
proof unfold_locales
  show "distinct (cm_connList s)" if "cm_inv s" for s :: "'a ConnectionManager"
    using that by (simp add: cm_inv_def)
  show "\<exists>s'. AddConnection c s = Some (length (cm_connList s'), s') \<and> cm_connList s' = cm_connList s @ [c] \<and> cm_inv s'"
    if "cm_inv s" "c \<notin> set (cm_connList s)" "length (cm_connList s) < 4294967295" for s and c :: 'a
    using AddConnection_inv [OF that] by auto
qed (fact DeleteConnection_inv GetConnection_inv)+


definition pool_ex :: "nat pool_op list" where
  "pool_ex = [PoolPick, PoolAdd 7, PoolAdd 8, PoolPick, PoolDelete 7, PoolPick]"


text \<open>
  Adding the same connection twice and then deleting it panics when the two entries are
  adjacent at the end of the list: the second hit slices past the shortened list.
\<close>

lemma cm_delete_duplicate_panics:
  assumes "c \<notin> set cs" and "lb_inv lb" and "length (lb_weight lb) = length cs + 2"
  shows "DeleteConnection c \<lparr>cm_connList = cs @ [c, c], cm_lb = lb\<rparr> = None"
proof -
  let ?arr = "cs @ [c, c]"
  have n: "unat (of_nat (length cs) :: u32) = length cs"
    using unat_u32_less [of "lb_totalCount lb"] assms(2,3) by (simp add: unat_of_nat_u32 lb_inv_def)
  obtain lb' where lb': "lb_Delete (of_nat (length cs)) lb = Some lb'" "lb_inv lb'"
    using lb_Delete_inv [OF assms(2)] by blast
  have "delete_loop c 0 ?arr (length ?arr) lb = delete_loop c (length cs) ?arr (length ?arr) lb"
    using delete_loop_skip [of c cs 0 "[]" "[c, c]"] assms(1) by simp
  also have "\<dots> = delete_loop c (Suc (length cs)) ?arr (Suc (length cs)) lb'"
    using lb' by (simp add: delete_loop.simps [of c "length cs"] copy_at_def)
  also have "\<dots> = None"
    using nth_append_length [of "cs @ [c]" c "[]"] by (subst delete_loop.simps) simp
  finally show ?thesis by (simp add: DeleteConnection_def)
qed

definition cm_dup_lb :: LoadBalancer where
  "cm_dup_lb = \<lparr>lb_weight = [1000, 1000], lb_minWeight = [10, 10], lb_totalCount = 2, lb_nowBase = 100,
     lb_lastCount = 0, lb_lastIndex = 0, lb_lastBaseCount = 0\<rparr>"

lemma cm_delete_duplicate_panics_witness:
  "DeleteConnection (1::nat) \<lparr>cm_connList = [1, 1], cm_lb = cm_dup_lb\<rparr> = None"
  using cm_delete_duplicate_panics [of "1::nat" "[]" cm_dup_lb]
  by (simp add: lb_inv_def cm_dup_lb_def)

end
