(* ===== verification/Go_Strings.thy ===== *)
theory Go_Strings
  imports Prelude
begin

text \<open>
  The functions of the Go packages \<^verbatim>\<open>strings\<close> and \<^verbatim>\<open>strconv\<close> that the program calls, on byte
  sequences: searching and splitting for the address, form and key parsers, decimal numbers for
  the \<^verbatim>\<open>Content-Length\<close> header and the registry keys.
\<close>

subsection \<open>strings\<close>

definition HasPrefix :: "gostring \<Rightarrow> gostring \<Rightarrow> bool" where
  "HasPrefix s pre \<longleftrightarrow> take (length pre) s = pre"

definition HasSuffix :: "gostring \<Rightarrow> gostring \<Rightarrow> bool" where
  "HasSuffix s suf \<longleftrightarrow> length suf \<le> length s \<and> drop (length s - length suf) s = suf"

fun Index :: "gostring \<Rightarrow> gostring \<Rightarrow> int" where
  "Index [] sub = (if sub = [] then 0 else -1)"
| "Index (c # s) sub =
     (if HasPrefix (c # s) sub then 0
      else let i = Index s sub in if i < 0 then -1 else i + 1)"

definition Contains :: "gostring \<Rightarrow> gostring \<Rightarrow> bool" where
  "Contains s sub \<longleftrightarrow> Index s sub \<ge> 0"

fun IndexByte :: "gostring \<Rightarrow> byte \<Rightarrow> int" where
  "IndexByte [] b = -1"
| "IndexByte (c # s) b =
     (if c = b then 0 else let i = IndexByte s b in if i < 0 then -1 else i + 1)"

fun LastIndexByte :: "gostring \<Rightarrow> byte \<Rightarrow> int" where
  "LastIndexByte [] b = -1"
| "LastIndexByte (c # s) b =
     (let i = LastIndexByte s b in if i \<ge> 0 then i + 1 else if c = b then 0 else -1)"

lemma Index_bound: "Index s sub \<ge> 0 \<Longrightarrow> Index s sub + int (length sub) \<le> int (length s)"
proof (induction s sub rule: Index.induct)
  case (2 c s sub)
  have "HasPrefix (c # s) sub \<Longrightarrow> length sub \<le> length (c # s)"
    by (metis HasPrefix_def length_take min.absorb_iff2 min.commute)
  with 2 show ?case by (auto simp: Let_def split: if_splits)
qed (auto split: if_splits)

text \<open>
  \<^verbatim>\<open>Split\<close> cuts at the leftmost occurrence of the separator as long as there is one. No caller
  passes an empty separator (Go would then cut after every character).
\<close>

function Split :: "gostring \<Rightarrow> gostring \<Rightarrow> gostring list" where
  "Split s sep =
     (let m = Index s sep in
      if sep = [] then map (\<lambda>c. [c]) s
      else if m < 0 then [s]
      else take (nat m) s # Split (drop (nat m + length sep) s) sep)"
  by pat_completeness auto
termination
proof (relation "measure (\<lambda>(s, sep). length s)")
  fix s sep :: gostring and m
  assume "m = Index s sep" "sep \<noteq> []" "\<not> m < 0"
  with Index_bound [of s sep] show "((drop (nat m + length sep) s, sep), s, sep) \<in> measure (\<lambda>(s, sep). length s)"
    by (cases sep) auto
qed simp

declare Split.simps [simp del]

subsubsection \<open>Lemmas\<close>

lemma IndexByte_absent [simp]: "c \<notin> set p \<Longrightarrow> IndexByte p c = -1"
  by (induction p) auto

lemma IndexByte_first [simp]: "c \<notin> set p \<Longrightarrow> IndexByte (p @ c # s) c = int (length p)"
  by (induction p) auto

lemma IndexByte_bound: "-1 \<le> IndexByte s c \<and> IndexByte s c < int (length s)"
  by (induction s) (auto simp: Let_def)

lemma LastIndexByte_absent [simp]: "c \<notin> set p \<Longrightarrow> LastIndexByte p c = -1"
  by (induction p) auto

lemma LastIndexByte_last [simp]: "c \<notin> set s \<Longrightarrow> LastIndexByte (p @ c # s) c = int (length p)"
  by (induction p) (auto simp: Let_def)

lemma LastIndexByte_bound: "-1 \<le> LastIndexByte s c \<and> LastIndexByte s c < int (length s)"
  by (induction s) (auto simp: Let_def)

lemma HasPrefix_single: "HasPrefix s [c] \<longleftrightarrow> (\<exists>t. s = c # t)"
  by (cases s) (auto simp: HasPrefix_def)

lemma Index_single: "Index s [c] = IndexByte s c"
  by (induction s) (auto simp: HasPrefix_single Let_def)

lemma Split_last: "c \<notin> set p \<Longrightarrow> Split p [c] = [p]"
  by (subst Split.simps) (simp add: Index_single)

lemma Split_cut: "c \<notin> set p \<Longrightarrow> Split (p @ c # s) [c] = p # Split s [c]"
  by (subst Split.simps) (simp add: Index_single)

lemma Split_not_Nil: "sep \<noteq> [] \<Longrightarrow> Split s sep \<noteq> []"
  by (subst Split.simps) (simp add: Let_def)

subsection \<open>strconv\<close>

datatype num_error = ErrSyntax | ErrRange

text \<open>The loop of \<^verbatim>\<open>ParseUint\<close> with base 10 and 64 bits; \<open>n\<close> is the value so far.\<close>

definition is_digit :: "byte \<Rightarrow> bool" where
  "is_digit c \<longleftrightarrow> 48 \<le> unat c \<and> unat c \<le> 57"

definition maxUint64 :: nat where
  "maxUint64 = 18446744073709551615"

fun ParseUint_loop :: "nat \<Rightarrow> gostring \<Rightarrow> nat \<times> num_error option" where
  "ParseUint_loop n [] = (n, None)"
| "ParseUint_loop n (c # s) =
     (if \<not> is_digit c then (0, Some ErrSyntax)
      else if n \<ge> maxUint64 div 10 + 1 then (maxUint64, Some ErrRange)
      else
        let n1 = n * 10 + (unat c - 48) in
        if n1 > maxUint64 then (maxUint64, Some ErrRange) else ParseUint_loop n1 s)"

definition ParseUint :: "gostring \<Rightarrow> nat \<times> num_error option" where
  "ParseUint s = (if s = [] then (0, Some ErrSyntax) else ParseUint_loop 0 s)"

definition Atoi :: "gostring \<Rightarrow> int \<times> num_error option" where
  "Atoi s =
     (let neg = (case s of c # _ \<Rightarrow> c = 45 | [] \<Rightarrow> False);
          t = (case s of c # t \<Rightarrow> if c = 43 \<or> c = 45 then t else s | [] \<Rightarrow> s);
          (un, err) = ParseUint t
      in if err = Some ErrSyntax then (0, Some ErrSyntax)
         else if \<not> neg \<and> un \<ge> 2 ^ 63 then (2 ^ 63 - 1, Some ErrRange)
         else if neg \<and> un > 2 ^ 63 then (- (2 ^ 63), Some ErrRange)
         else (if neg then - int un else int un, None))"

text \<open>Decimal digits, as \<^verbatim>\<open>AppendInt\<close> and \<^verbatim>\<open>Itoa\<close> print them.\<close>

fun digits :: "nat \<Rightarrow> gostring" where
  "digits n = (if n < 10 then [of_nat (48 + n)] else digits (n div 10) @ [of_nat (48 + n mod 10)])"

declare digits.simps [simp del]

definition Itoa :: "int \<Rightarrow> gostring" where
  "Itoa i = (if i < 0 then 45 # digits (nat (- i)) else digits (nat i))"

subsubsection \<open>Lemmas\<close>

lemma digit_byte:
  assumes "d < 10"
  shows "is_digit (of_nat (48 + d))" and "unat (of_nat (48 + d) :: byte) = 48 + d"
proof -
  from assms show *: "unat (of_nat (48 + d) :: byte) = 48 + d"
    by (simp add: unsigned_of_nat take_bit_nat_eq_self_iff del: of_nat_add of_nat_numeral)
  from assms show "is_digit (of_nat (48 + d))"
    unfolding is_digit_def * by simp
qed

lemma ParseUint_loop_append:
  "snd (ParseUint_loop n s) = None \<Longrightarrow>
   ParseUint_loop n (s @ t) = ParseUint_loop (fst (ParseUint_loop n s)) t"
  by (induction n s rule: ParseUint_loop.induct) (auto simp: Let_def split: if_splits)

lemma ParseUint_loop_digits:
  "n \<le> maxUint64 \<Longrightarrow> ParseUint_loop 0 (digits n) = (n, None)"
proof (induction n rule: digits.induct)
  case (1 n)
  show ?case
  proof (cases "n < 10")
    case True
    then show ?thesis
      using digit_byte [of n] by (subst digits.simps) (simp add: maxUint64_def del: of_nat_add of_nat_numeral)
  next
    case False
    with 1 have IH: "ParseUint_loop 0 (digits (n div 10)) = (n div 10, None)"
      by simp
    have "n div 10 \<le> maxUint64 div 10" using 1(2) by (rule div_le_mono)
    with False IH 1(2) digit_byte [of "n mod 10"] show ?thesis
      by (subst digits.simps)
        (simp add: ParseUint_loop_append Let_def del: of_nat_add of_nat_numeral)
  qed
qed

lemma digits_not_Nil: "digits n \<noteq> []"
  by (subst digits.simps) simp

lemma digits_all: "c \<in> set (digits n) \<Longrightarrow> is_digit c"
proof (induction n rule: digits.induct)
  case (1 n)
  from 1(2) show ?case
    using digit_byte(1) [of n] digit_byte(1) [of "n mod 10"] 1(1)
    by (subst (asm) digits.simps) (auto simp del: of_nat_add of_nat_numeral split: if_splits)
qed

lemma not_digit [simp]:
  "\<not> is_digit 45" "\<not> is_digit 43" "\<not> is_digit 32" "\<not> is_digit 13" "\<not> is_digit 10" "\<not> is_digit 58" "\<not> is_digit 47"
  by (simp_all add: is_digit_def)

lemma Atoi_digits:
  assumes "n < 2 ^ 63"
  shows "Atoi (digits n) = (int n, None)"
proof -
  obtain c t where d: "digits n = c # t" using digits_not_Nil by (metis list.exhaust)
  with digits_all [of c n] have "c \<noteq> 43" "c \<noteq> 45" by auto
  with assms ParseUint_loop_digits [of n] d show ?thesis
    by (simp add: Atoi_def ParseUint_def maxUint64_def)
qed

text \<open>Printing and reading a Go \<^verbatim>\<open>int\<close>.\<close>

lemma Atoi_Itoa:
  assumes "- (2 ^ 63) \<le> i" and "i < 2 ^ 63"
  shows "Atoi (Itoa i) = (i, None)"
proof (cases "i < 0")
  case True
  with assms have "nat (- i) \<le> maxUint64" by (simp add: maxUint64_def)
  with True assms ParseUint_loop_digits digits_not_Nil show ?thesis
    by (simp add: Itoa_def Atoi_def ParseUint_def)
next
  case False
  with assms have "nat i < 2 ^ 63" by simp
  with False Atoi_digits show ?thesis by (simp add: Itoa_def)
qed

lemma Itoa_chars: "c \<in> set (Itoa i) \<Longrightarrow> is_digit c \<or> c = 45"
  by (auto simp: Itoa_def dest: digits_all split: if_splits)

end
