(* ===== verification/Evio_Types.thy ===== *)
theory Evio_Types
  imports Prelude
begin

text \<open>
  The enumerations and option structs of \<^verbatim>\<open>evio.go\<close> that the event loop and every set of event
  handlers exchange.
\<close>

text \<open>\<^verbatim>\<open>Action\<close>: what the loop does after an event. \<open>NoAction\<close> is the source's \<^verbatim>\<open>None\<close>.\<close>

datatype Action = NoAction | Detach | Close | Shutdown

text \<open>\<^verbatim>\<open>Options\<close>: set by the \<^verbatim>\<open>Opened\<close> event; the keep-alive period is in nanoseconds.\<close>

record Options =
  TCPKeepAlive :: int
  ReuseInputBuffer :: bool

text \<open>\<^verbatim>\<open>LoadBalance\<close>: how accepted and outgoing connections are spread over the loops.\<close>

datatype LoadBalance = Random | RoundRobin | LeastConnections

end
