(* ===== verification/Input_Stream.thy ===== *)
theory Input_Stream
  imports Prelude
begin

text \<open>
  The \<^verbatim>\<open>InputStream\<close> helper of \<^verbatim>\<open>evio.go\<close>, which every \<^verbatim>\<open>Data\<close> event handler of the program uses
  to carry the unparsed tail of a connection's input from one packet to the next, and the
  interface between such a handler and the request parser it drives.

  The locale \<open>frame_parser\<close> states what a handler needs from a parser; \<open>stream_handler\<close> adds
  the contract of the handler itself. They are interpreted for the agent protocol, the HTTP
  front end and the dubbo responses in the theories of those components. Their lemmas say
  that the requests a handler delivers do not depend on how TCP cut the byte stream, as long
  as the cut falls where the handler keeps what it could not parse. \<open>packet_stream\<close> adds a sender.
\<close>

subsection \<open>InputStream\<close>

record InputStream =
  is_b :: bytes

text \<open>\<^verbatim>\<open>Begin\<close> returns the working sequence; \<^verbatim>\<open>End\<close> stores the unprocessed rest.\<close>

definition Begin :: "InputStream \<Rightarrow> bytes \<Rightarrow> InputStream \<times> bytes" where
  "Begin is packet =
     (let data = packet in
      if length (is_b is) > 0
      then (let b = is_b is @ data in (is\<lparr>is_b := b\<rparr>, b))
      else (is, data))"

definition End :: "InputStream \<Rightarrow> bytes \<Rightarrow> InputStream" where
  "End is data =
     (if length data > 0
      then if length data \<noteq> length (is_b is) then is\<lparr>is_b := take 0 (is_b is) @ data\<rparr> else is
      else if length (is_b is) > 0 then is\<lparr>is_b := take 0 (is_b is)\<rparr> else is)"

text \<open>What a parser makes of the front of the stream: it wants more input (and hands back what
  the caller should keep), it found garbage, or it found a request and the input after it.\<close>

datatype 'r frame = Incomplete bytes | Malformed | Parsed bytes 'r

text \<open>
  The reference reading of a stream: \<open>frames parse d rs e\<close> holds when \<open>d\<close> is a sequence of
  requests \<open>rs\<close> followed by \<open>e\<close>, of which the parser can make nothing yet.
\<close>

inductive frames :: "(bytes \<Rightarrow> 'r frame go) \<Rightarrow> bytes \<Rightarrow> 'r list \<Rightarrow> bytes \<Rightarrow> bool"
  for parse where
  frames_rest: "parse d = Some (Incomplete l) \<Longrightarrow> frames parse d [] d"
| frames_next: "parse d = Some (Parsed l r) \<Longrightarrow> frames parse l rs e \<Longrightarrow> frames parse d (r # rs) e"

text \<open>
  Reading a stream that arrives in segments: before each segment the previous rest is \<open>b\<close>,
  and every rest on the way satisfies \<open>kept\<close>.
\<close>

inductive framed_run ::
  "(bytes \<Rightarrow> 'r frame go) \<Rightarrow> (bytes \<Rightarrow> bool) \<Rightarrow> bytes \<Rightarrow> bytes list \<Rightarrow> 'r list \<Rightarrow> bytes \<Rightarrow> bool"
  for parse kept where
  run_done: "framed_run parse kept b [] [] b"
| run_segment: "frames parse (b @ c) rs e \<Longrightarrow> kept e \<Longrightarrow> framed_run parse kept e cs rs' e' \<Longrightarrow>
    framed_run parse kept b (c # cs) (rs @ rs') e'"

inductive_cases frames_Nil_elim: "frames parse d [] e"
inductive_cases frames_Cons_elim: "frames parse d (r # rs) e"
inductive_cases framed_run_Nil_elim: "framed_run parse kept b [] rs e"

text \<open>Handing the segments of a stream to a handler one after the other.\<close>

fun feed_all :: "('s \<Rightarrow> bytes \<Rightarrow> ('s \<times> 'r list) go) \<Rightarrow> 's \<Rightarrow> bytes list \<Rightarrow> ('s \<times> 'r list) go" where
  "feed_all feed s [] = Some (s, [])"
| "feed_all feed s (c # cs) = do {
     (s', rs) \<leftarrow> feed s c;
     (s'', rs') \<leftarrow> feed_all feed s' cs;
     Some (s'', rs @ rs')
   }"

subsection \<open>Properties of the stream helper\<close>

lemma Begin_data: "snd (Begin is packet) = is_b is @ packet"
  by (simp add: Begin_def Let_def)

lemma Begin_stream: "is_b is \<noteq> [] \<Longrightarrow> is_b (fst (Begin is packet)) = is_b is @ packet"
  by (simp add: Begin_def Let_def)

lemma Begin_stream_empty: "is_b is = [] \<Longrightarrow> fst (Begin is packet) = is"
  by (simp add: Begin_def Let_def)

lemma End_empty: "is_b (End is []) = []"
  by (simp add: End_def)

text \<open>
  \<^verbatim>\<open>End\<close> skips the copy when the lengths agree. That is right for the rest of a sequence that
  \<^verbatim>\<open>Begin\<close> returned: the only suffix as long as the stream is the stream itself.
\<close>

lemma End_stores:
  assumes "Begin is packet = (is', d)" and "d = p @ data"
  shows "is_b (End is' data) = data"
  using assms by (auto simp: Begin_def End_def Let_def split: if_splits)

lemma End_after_reset: "is_b (End (is\<lparr>is_b := []\<rparr>) data) = data"
  by (simp add: End_def)

subsection \<open>The interface of a parser\<close>

text \<open>
  What a handler relies on: the parser asks for more on no input, a request it returns took
  some input, and once it has decided (a request, garbage or a panic) further input does not
  change the decision. \<open>fits\<close> bounds the input for which the parser's own arithmetic on
  lengths is exact.
\<close>

locale frame_parser =
  fixes parse :: "bytes \<Rightarrow> 'r frame go"
    and fits :: "bytes \<Rightarrow> bool"
  assumes parse_empty: "parse [] = Some (Incomplete [])"
    and parsed_consumes: "parse d = Some (Parsed l r) \<Longrightarrow> \<exists>p. p \<noteq> [] \<and> d = p @ l"
    and parsed_stable: "fits (d @ x) \<Longrightarrow> parse d = Some (Parsed l r) \<Longrightarrow>
      parse (d @ x) = Some (Parsed (l @ x) r)"
    and malformed_stable: "fits (d @ x) \<Longrightarrow> parse d = Some Malformed \<Longrightarrow>
      parse (d @ x) = Some Malformed"
    and panic_stable: "fits (d @ x) \<Longrightarrow> parse d = None \<Longrightarrow> parse (d @ x) = None"
    and fits_suffix: "fits (p @ l) \<Longrightarrow> fits l"
    and fits_prefix: "fits (p @ l) \<Longrightarrow> fits p"
begin

lemma parsed_prefix:
  assumes "fits (d @ x)" and "parse (d @ x) = Some (Parsed l r)"
  shows "(\<exists>l'. parse d = Some (Incomplete l')) \<or> (\<exists>l'. parse d = Some (Parsed l' r) \<and> l = l' @ x)"
proof (cases "parse d")
  case None
  with assms panic_stable show ?thesis by fastforce
next
  case (Some f)
  with assms show ?thesis
    by (cases f) (auto dest: parsed_stable malformed_stable)
qed

lemma incomplete_prefix:
  assumes "fits (d @ x)" and "parse (d @ x) = Some (Incomplete l)"
  shows "\<exists>l'. parse d = Some (Incomplete l')"
proof (cases "parse d")
  case None
  with assms panic_stable show ?thesis by fastforce
next
  case (Some f)
  with assms show ?thesis
    by (cases f) (auto dest: parsed_stable malformed_stable)
qed

lemma frames_nil: "frames parse [] [] []"
  by (rule frames_rest) (rule parse_empty)

lemma frames_nil_iff: "frames parse [] rs e \<longleftrightarrow> rs = [] \<and> e = []"
  by (auto elim: frames.cases simp: parse_empty intro: frames_nil)

lemma frames_deterministic:
  "frames parse d rs e \<Longrightarrow> frames parse d rs' e' \<Longrightarrow> rs = rs' \<and> e = e'"
proof (induction arbitrary: rs' e' rule: frames.induct)
  case (frames_rest d l)
  from frames_rest(2,1) show ?case by (cases rule: frames.cases) auto
next
  case (frames_next d l r rs e)
  from frames_next.prems frames_next.hyps(1) show ?case
    by (cases rule: frames.cases) (auto dest: frames_next.IH)
qed

lemma parsed_fits:
  assumes "fits (d @ x)" and "parse d = Some (Parsed l r)"
  shows "fits (l @ x)"
proof -
  from assms(2) obtain p where "d = p @ l" by (auto dest: parsed_consumes)
  with assms(1) show ?thesis using fits_suffix [of p "l @ x"] by simp
qed

lemma frames_append:
  "frames parse d rs e \<Longrightarrow> frames parse (e @ x) rs' e' \<Longrightarrow> fits (d @ x) \<Longrightarrow>
   frames parse (d @ x) (rs @ rs') e'"
proof (induction rule: frames.induct)
  case (frames_next d l r rs e)
  from frames_next.prems(2) frames_next.hyps(1)
  have "parse (d @ x) = Some (Parsed (l @ x) r)" and "fits (l @ x)"
    by (rule parsed_stable, rule parsed_fits)
  with frames_next.IH frames_next.prems(1) show ?case
    by (auto intro: frames.frames_next)
qed simp

lemma frames_suffix: "frames parse d rs e \<Longrightarrow> \<exists>p. d = p @ e"
  by (induction rule: frames.induct) (auto dest!: parsed_consumes)

text \<open>Cutting a readable stream anywhere leaves a readable front whose rest, with what comes
  after the cut, reads as what was missing.\<close>

lemma frames_split:
  "frames parse (d @ x) rs e \<Longrightarrow> fits (d @ x) \<Longrightarrow>
   \<exists>rs1 rs2 m. frames parse d rs1 m \<and> frames parse (m @ x) rs2 e \<and> rs = rs1 @ rs2"
proof (induction "d @ x" rs e arbitrary: d rule: frames.induct)
  case (frames_rest l)
  then obtain l' where "parse d = Some (Incomplete l')"
    using incomplete_prefix by blast
  then have "frames parse d [] d" by (rule frames.frames_rest)
  moreover have "frames parse (d @ x) [] (d @ x)"
    using frames_rest(1) by (rule frames.frames_rest)
  ultimately show ?case by fastforce
next
  case (frames_next l r rs e)
  from parsed_prefix [OF frames_next.prems frames_next.hyps(1)] show ?case
  proof (elim disjE exE conjE)
    fix l' assume "parse d = Some (Incomplete l')"
    then have "frames parse d [] d" by (rule frames.frames_rest)
    moreover have "frames parse (d @ x) (r # rs) e"
      using frames_next.hyps(1,2) by (rule frames.frames_next)
    ultimately show ?case by fastforce
  next
    fix l' assume d: "parse d = Some (Parsed l' r)" and l: "l = l' @ x"
    from frames_next.prems d have "fits (l' @ x)" by (rule parsed_fits)
    with frames_next.hyps(3) [OF l] l obtain rs1 rs2 m where
      *: "frames parse l' rs1 m" "frames parse (m @ x) rs2 e" "rs = rs1 @ rs2" by blast
    from d *(1) have "frames parse d (r # rs1) m" by (rule frames.frames_next)
    with *(2,3) show ?case by fastforce
  qed
qed

text \<open>A segmented reading is a reading of the concatenation.\<close>

lemma framed_run_frames:
  assumes "framed_run parse kept b cs rs e" and "cs \<noteq> []" and "fits (b @ concat cs)"
  shows "frames parse (b @ concat cs) rs e"
  using assms
proof (induction rule: framed_run.induct)
  case (run_segment b c rs e cs rs' e')
  show ?case
  proof (cases "cs = []")
    case True
    with run_segment.hyps show ?thesis by (auto elim: framed_run_Nil_elim)
  next
    case False
    from frames_suffix [OF run_segment.hyps(1)] obtain p where "b @ c = p @ e" by blast
    then have "b @ concat (c # cs) = p @ e @ concat cs" by (metis append_assoc concat.simps(2))
    with run_segment.prems(2) fits_suffix have "fits (e @ concat cs)" by metis
    with False run_segment.IH have "frames parse (e @ concat cs) rs' e'" by blast
    with run_segment.hyps(1) run_segment.prems(2) show ?thesis
      using frames_append [of "b @ c"] by simp
  qed
qed simp

text \<open>Conversely every segmentation of a readable stream has a segmented reading, provided the
  rests at its cuts are kept.\<close>

lemma framed_run_exists:
  assumes "frames parse (b @ concat cs) rs e" and "fits (b @ concat cs)" and "cs \<noteq> []"
    and "\<And>pre suf rs1 m. cs = pre @ suf \<Longrightarrow> pre \<noteq> [] \<Longrightarrow>
      frames parse (b @ concat pre) rs1 m \<Longrightarrow> kept m"
  shows "framed_run parse kept b cs rs e"
  using assms
proof (induction cs arbitrary: b rs)
  case (Cons c cs)
  show ?case
  proof (cases "cs = []")
    case True
    with Cons.prems(1) have "frames parse (b @ c) rs e" by simp
    moreover from this True Cons.prems(4) [of "[c]" "[]"] have "kept e" by simp
    ultimately have "framed_run parse kept b (c # cs) (rs @ []) e"
      unfolding True by (rule run_segment) (rule run_done)
    then show ?thesis by simp
  next
    case False
    from Cons.prems have "frames parse ((b @ c) @ concat cs) rs e" and
      fits: "fits ((b @ c) @ concat cs)" by simp_all
    from frames_split [OF this] obtain rs1 rs2 m where
      *: "frames parse (b @ c) rs1 m" "frames parse (m @ concat cs) rs2 e" "rs = rs1 @ rs2"
      by blast
    from frames_suffix [OF *(1)] obtain p where p: "b @ c = p @ m" by blast
    with fits fits_suffix [of p "m @ concat cs"] have fits': "fits (m @ concat cs)" by simp
    from *(1) Cons.prems(4) [of "[c]" cs] have "kept m" by simp
    moreover have "framed_run parse kept m cs rs2 e"
    proof (rule Cons.IH [OF *(2) fits' False])
      fix pre suf rs3 m' assume cs: "cs = pre @ suf" "pre \<noteq> []" "frames parse (m @ concat pre) rs3 m'"
      from cs(1) fits have "fits ((b @ c) @ concat pre)" using fits_prefix by simp
      with *(1) cs(3) have "frames parse ((b @ c) @ concat pre) (rs1 @ rs3) m'"
        by (rule frames_append)
      with Cons.prems(4) [of "c # pre" suf] cs(1) show "kept m'" by simp
    qed
    ultimately show ?thesis using *(1,3) by (auto intro: run_segment)
  qed
qed simp

end

subsection \<open>The interface of a data handler\<close>

text \<open>
  \<open>feed\<close> handles one packet: it returns the new connection context and the requests it put on
  the worker queue. \<open>buf\<close> is the input the context carries over. The handler promises to read
  what is readable and, when the rest is one that it keeps, to carry exactly that rest over.
\<close>

locale stream_handler = frame_parser parse fits
  for parse :: "bytes \<Rightarrow> 'r frame go" and fits :: "bytes \<Rightarrow> bool" +
  fixes feed :: "'s \<Rightarrow> bytes \<Rightarrow> ('s \<times> 'r list) go"
    and buf :: "'s \<Rightarrow> bytes"
    and kept :: "bytes \<Rightarrow> bool"
  assumes feed_frames: "frames parse (buf s @ c) rs e \<Longrightarrow> kept e \<Longrightarrow>
    \<exists>s'. feed s c = Some (s', rs) \<and> buf s' = e"
begin

lemma feed_all_run:
  assumes "framed_run parse kept b cs rs e" and "buf s = b"
  shows "\<exists>s'. feed_all feed s cs = Some (s', rs) \<and> buf s' = e"
  using assms
proof (induction arbitrary: s rule: framed_run.induct)
  case (run_segment b c rs e cs rs' e')
  from run_segment.hyps(1,2) run_segment.prems obtain s1 where
    1: "feed s c = Some (s1, rs)" "buf s1 = e"
    using feed_frames by blast
  from run_segment.IH [OF 1(2)] obtain s2 where
    "feed_all feed s1 cs = Some (s2, rs')" "buf s2 = e'" by blast
  with 1 show ?case by simp
qed simp

text \<open>So the segments of a readable stream are handled like the whole, provided the rests at
  the cuts are kept.\<close>

lemma feed_all_segmentation:
  assumes "frames parse (buf s @ concat cs) rs e" and "fits (buf s @ concat cs)" and "cs \<noteq> []"
    and "\<And>pre suf rs1 m. cs = pre @ suf \<Longrightarrow> pre \<noteq> [] \<Longrightarrow>
      frames parse (buf s @ concat pre) rs1 m \<Longrightarrow> kept m"
  shows "\<exists>s'. feed_all feed s cs = Some (s', rs) \<and> buf s' = e"
proof -
  from assms have "framed_run parse kept (buf s) cs rs e"
    by (rule framed_run_exists)
  then show ?thesis by (rule feed_all_run) simp
qed

end

subsection \<open>Streams of packets\<close>

text \<open>
  A cut of the stream that leaves behind it a part of a packet which the handler keeps, and a
  segmentation all of whose cuts are of that kind, the last one included.
\<close>

definition cut_ok :: "(bytes \<Rightarrow> bool) \<Rightarrow> bytes list \<Rightarrow> bytes \<Rightarrow> bool" where
  "cut_ok kept ps d =
     list_ex (\<lambda>k. let p = concat (take k ps) in take (length p) d = p \<and> kept (drop (length p) d))
       [0..<Suc (length ps)]"

definition cuts_ok :: "(bytes \<Rightarrow> bool) \<Rightarrow> bytes list \<Rightarrow> bytes list \<Rightarrow> bool" where
  "cuts_ok kept ps cs = list_all (\<lambda>n. cut_ok kept ps (concat (take n cs))) [0..<Suc (length cs)]"

text \<open>
  A sender adds the packets it writes. The parser reads each of them back, and what the handler
  keeps is not yet a request.
\<close>

locale packet_stream = stream_handler parse fits feed buf kept
  for parse :: "bytes \<Rightarrow> 'r frame go" and fits :: "bytes \<Rightarrow> bool"
    and feed :: "'s \<Rightarrow> bytes \<Rightarrow> ('s \<times> 'r list) go" and buf :: "'s \<Rightarrow> bytes" and kept :: "bytes \<Rightarrow> bool" +
  fixes packet :: "'m \<Rightarrow> bytes"
    and received :: "'m \<Rightarrow> 'r"
    and ok :: "'m \<Rightarrow> bool"
  assumes parse_packet: "ok m \<Longrightarrow> fits (packet m @ x) \<Longrightarrow> parse (packet m @ x) = Some (Parsed x (received m))"
    and kept_incomplete: "kept h \<Longrightarrow> \<exists>l. parse h = Some (Incomplete l)"
begin

lemma frames_packets:
  "list_all ok ms \<Longrightarrow> kept h \<Longrightarrow> fits (concat (map packet ms) @ h) \<Longrightarrow>
   frames parse (concat (map packet ms) @ h) (map received ms) h"
proof (induction ms)
  case Nil
  then show ?case using kept_incomplete by (auto intro: frames_rest)
next
  case (Cons m ms)
  from Cons.prems(3) fits_suffix [of "packet m"] have "fits (concat (map packet ms) @ h)" by simp
  with Cons show ?case by (auto intro!: frames_next parse_packet)
qed

lemma cut_rest:
  assumes "list_all ok ms" "cut_ok kept (map packet ms) d" "fits d" "frames parse d rs m"
  shows "kept m"
proof -
  from assms(2) obtain k where
    *: "take (length (concat (map packet (take k ms)))) d = concat (map packet (take k ms))"
      "kept (drop (length (concat (map packet (take k ms)))) d)"
    unfolding cut_ok_def list_ex_iff Let_def take_map by blast
  define h where "h = drop (length (concat (map packet (take k ms)))) d"
  have d: "d = concat (map packet (take k ms)) @ h"
    unfolding h_def by (metis *(1) append_take_drop_id)
  have "list_all ok (take k ms)"
    using assms(1) by (auto simp: list_all_iff dest: in_set_takeD)
  moreover have "kept h" using *(2) by (simp add: h_def)
  ultimately have "frames parse d (map received (take k ms)) h"
    using frames_packets assms(3) unfolding d by blast
  with assms(4) have "m = h" by (blast dest: frames_deterministic)
  with \<open>kept h\<close> show ?thesis by simp
qed

text \<open>Packets sent back to back arrive complete and in order under every such segmentation.\<close>

lemma delivery:
  assumes "list_all ok ms" and "buf s = []" and "cs \<noteq> []" and "concat cs = concat (map packet ms)"
    and "fits (concat cs)" and "cuts_ok kept (map packet ms) cs" and "kept []"
  shows "\<exists>s'. feed_all feed s cs = Some (s', map received ms) \<and> buf s' = []"
proof (rule feed_all_segmentation)
  show "frames parse (buf s @ concat cs) (map received ms) []"
    using frames_packets [OF assms(1,7)] assms(2,4,5) by simp
  fix pre suf rs1 m assume *: "cs = pre @ suf" "frames parse (buf s @ concat pre) rs1 m"
  from *(1) assms(6) have "cut_ok kept (map packet ms) (concat pre)"
    by (auto simp: cuts_ok_def list_all_iff simp del: upt_Suc dest: bspec [of _ _ "length pre"])
  moreover from *(1) assms(5) have "fits (concat pre)" using fits_prefix by simp
  ultimately show "kept m" using *(2) assms(1,2) cut_rest by fastforce
qed (use assms in auto)

end

end
