(* ===== verification/Agent_Server.thy ===== *)
theory Agent_Server
  imports Evio_Types Input_Stream
begin

text \<open>
  \<^verbatim>\<open>agent_server.go\<close>: the binary protocol that the consumer-side and the provider-side agent
  speak with each other. \<open>agent_out\<close> is the packet that \<^verbatim>\<open>SendAgentRequest\<close> builds, \<open>parseAgentReq\<close>
  the incremental parser and \<open>agent_Data\<close> the \<^verbatim>\<open>Data\<close> event that drives it over a connection's
  \<^verbatim>\<open>InputStream\<close> and puts finished requests on the worker queue.

  The time stamps that only feed the profile log are left out. A value \<open>None\<close> of the parser
  or the handler is a run-time panic; at the one place marked so it is a loop that never ends.
\<close>

subsection \<open>Constants and data\<close>

abbreviation (input) agentPhase_Header :: nat where "agentPhase_Header \<equiv> 0"
abbreviation (input) agentPhase_Interface :: nat where "agentPhase_Interface \<equiv> 1"
abbreviation (input) agentPhase_Method :: nat where "agentPhase_Method \<equiv> 2"
abbreviation (input) agentPhase_ParamType :: nat where "agentPhase_ParamType \<equiv> 3"
abbreviation (input) agentPhase_Param :: nat where "agentPhase_Param \<equiv> 4"

definition agentPacketMagic :: u32 where "agentPacketMagic = 0x1F254798"

datatype agent_error = agentPacketParseError

type_synonym ParamType = int

abbreviation (input) ParamType_None :: ParamType where "ParamType_None \<equiv> 0"
abbreviation (input) ParamType_Int8 :: ParamType where "ParamType_Int8 \<equiv> 1"
abbreviation (input) ParamType_Int16 :: ParamType where "ParamType_Int16 \<equiv> 2"
abbreviation (input) ParamType_Int32 :: ParamType where "ParamType_Int32 \<equiv> 3"
abbreviation (input) ParamType_Uint8 :: ParamType where "ParamType_Uint8 \<equiv> 4"
abbreviation (input) ParamType_Uint16 :: ParamType where "ParamType_Uint16 \<equiv> 5"
abbreviation (input) ParamType_Uint32 :: ParamType where "ParamType_Uint32 \<equiv> 6"
abbreviation (input) ParamType_String :: ParamType where "ParamType_String \<equiv> 7"
abbreviation (input) ParamType_Obj :: ParamType where "ParamType_Obj \<equiv> 8"
abbreviation (input) ParamType_Result :: ParamType where "ParamType_Result \<equiv> 9"

text \<open>The method \<^verbatim>\<open>ParamType.String\<close>: the cases of a Go \<^verbatim>\<open>switch\<close> do not fall through.\<close>

definition ParamType_to_String :: "ParamType \<Rightarrow> gostring" where
  "ParamType_to_String t =
     (if t = ParamType_String then str ''Ljava/lang/String;'' else str ''int'')"

record 'c AgentRequest =
  ar_conn :: "'c option"
  ar_paramLen :: int
  ar_phase :: nat
  ar_RequestID :: u64
  ar_Result :: u32
  ar_RemoteAddr :: gostring
  ar_Interf :: gostring
  ar_Method :: gostring
  ar_ParamType :: ParamType
  ar_Param :: bytes

text \<open>The zero value \<^verbatim>\<open>AgentRequest{}\<close>.\<close>

definition new_AgentRequest :: "'c AgentRequest" where
  "new_AgentRequest =
     \<lparr>ar_conn = None, ar_paramLen = 0, ar_phase = 0, ar_RequestID = 0, ar_Result = 0,
      ar_RemoteAddr = [], ar_Interf = [], ar_Method = [], ar_ParamType = 0, ar_Param = []\<rparr>"

record ('c, 'ra) AgentContext =
  ac_ra :: "'ra option"
  ac_is :: InputStream
  ac_req :: "'c AgentRequest option"

subsection \<open>SendAgentRequest\<close>

text \<open>The output buffer: allocated at its final size and filled from the front.\<close>

definition agent_out ::
  "u32 \<Rightarrow> u64 \<Rightarrow> gostring \<Rightarrow> gostring \<Rightarrow> ParamType \<Rightarrow> bytes \<Rightarrow> bytes" where
  "agent_out result reqID interf meth paramType param =
     (let n = 26 + length interf + length meth + length param;
          out = replicate n 0;
          out = copy_at 0 (le_bytes 4 agentPacketMagic) out;
          buf = 4;
          out = copy_at buf (le_bytes 4 result) out;
          buf = buf + 4;
          out = copy_at buf (le_bytes 8 reqID) out;
          buf = buf + 8;
          out = copy_at buf (le_bytes 2 (of_nat (length interf) :: u16)) out;
          buf = buf + 2;
          out = copy_at buf interf out;
          buf = buf + length interf;
          out = copy_at buf (le_bytes 2 (of_nat (length meth) :: u16)) out;
          buf = buf + 2;
          out = copy_at buf meth out;
          buf = buf + length meth;
          out = copy_at buf (le_bytes 2 (of_int paramType :: u16)) out;
          buf = buf + 2;
          out = copy_at buf (le_bytes 4 (of_nat (length param) :: u32)) out;
          buf = buf + 4;
          out = copy_at buf param out
      in out)"

text \<open>The sizes that survive the 16-bit and 32-bit length fields and the parser's bounds.\<close>

definition agent_sendable :: "gostring \<Rightarrow> gostring \<Rightarrow> bytes \<Rightarrow> bool" where
  "agent_sendable interf meth param \<longleftrightarrow>
     length interf < 65534 \<and> length meth < 65534 \<and> length param < 4294967290"

subsection \<open>parseAgentReq\<close>

text \<open>
  The parser's loop; each round handles one phase and either returns or moves the request to
  a later phase. The lengths in the slice bounds \<^verbatim>\<open>2 + interfaceLen\<close>, \<^verbatim>\<open>2 + methodLen\<close> and
  \<^verbatim>\<open>6 + paramLen\<close> are computed at the width of the length field, where they can wrap.
\<close>

function parseAgentReq ::
  "bytes \<Rightarrow> 'c AgentRequest \<Rightarrow> (bytes \<times> agent_error option \<times> bool \<times> 'c AgentRequest) go" where
  "parseAgentReq body req =
     (if ar_phase req = agentPhase_Header then
        if length body < 16 then Some (body, None, False, req)
        else do {
          magic \<leftarrow> get_le 4 body;
          if magic \<noteq> agentPacketMagic
          then Some (body, Some agentPacketParseError, False, req)
          else do {
            body4 \<leftarrow> slice_from body 4;
            result \<leftarrow> get_le 4 body4;
            body8 \<leftarrow> slice_from body 8;
            reqID \<leftarrow> get_le 8 body8;
            body' \<leftarrow> slice_from body 16;
            parseAgentReq body'
              (req\<lparr>ar_Result := result, ar_RequestID := reqID, ar_phase := agentPhase_Interface\<rparr>)
          }
        }
      else if ar_phase req = agentPhase_Interface then
        if length body < 2 then Some (body, None, False, req)
        else do {
          interfaceLen \<leftarrow> get_le 2 body;
          if int (length body) - 2 < int (unat (interfaceLen :: u16))
          then Some (body, None, False, req)
          else do {
            interf \<leftarrow> slice_range body 2 (int (unat (2 + interfaceLen)));
            body' \<leftarrow> slice_from body (int (unat (2 + interfaceLen)));
            parseAgentReq body' (req\<lparr>ar_Interf := interf, ar_phase := agentPhase_Method\<rparr>)
          }
        }
      else if ar_phase req = agentPhase_Method then
        if length body < 2 then Some (body, None, False, req)
        else do {
          methodLen \<leftarrow> get_le 2 body;
          if int (length body) - 2 < int (unat (methodLen :: u16))
          then Some (body, None, False, req)
          else do {
            meth \<leftarrow> slice_range body 2 (int (unat (2 + methodLen)));
            body' \<leftarrow> slice_from body (int (unat (2 + methodLen)));
            parseAgentReq body' (req\<lparr>ar_Method := meth, ar_phase := agentPhase_Param\<rparr>)
          }
        }
      else if ar_phase req = agentPhase_Param then
        if length body < 6 then Some (body, None, False, req)
        else do {
          paramType \<leftarrow> get_le 2 body;
          body2 \<leftarrow> slice_from body 2;
          paramLen \<leftarrow> get_le 4 body2;
          let req = req\<lparr>ar_ParamType := int (unat (paramType :: u16))\<rparr>;
          if int (length body) - 6 < int (unat (paramLen :: u32))
          then Some (body, None, False, req)
          else do {
            param \<leftarrow> slice_range body 6 (int (unat (6 + paramLen)));
            body' \<leftarrow> slice_from body (int (unat (6 + paramLen)));
            Some (body', None, True, req\<lparr>ar_Param := param\<rparr>)
          }
        }
      else None \<comment> \<open>no case of the switch: the loop spins\<close>)"
  by pat_completeness auto
termination
  by (relation "measure (\<lambda>(body, req). 5 - ar_phase req)") auto

declare parseAgentReq.simps [simp del]

subsection \<open>The parser, phase by phase\<close>

lemma parse_Header:
  assumes "ar_phase req = 0" "16 \<le> length body"
  shows "parseAgentReq body req =
    (if le_word (take 4 body) \<noteq> agentPacketMagic
     then Some (body, Some agentPacketParseError, False, req)
     else parseAgentReq (drop 16 body)
       (req\<lparr>ar_Result := le_word (take 4 (drop 4 body)),
            ar_RequestID := le_word (take 8 (drop 8 body)), ar_phase := 1\<rparr>))"
  using assms by (subst parseAgentReq.simps) (simp add: get_le_Some)

lemma parse_Interface:
  assumes "ar_phase req = 1" "2 \<le> length body"
    and "n = (le_word (take 2 body) :: u16)"
  shows "parseAgentReq body req =
    (if length body < 2 + unat n then Some (body, None, False, req)
     else if 65534 \<le> unat n then None
     else parseAgentReq (drop (2 + unat n) body)
       (req\<lparr>ar_Interf := take (unat n) (drop 2 body), ar_phase := 2\<rparr>))"
  using assms unat_u16_less [of n]
  by (subst parseAgentReq.simps)
    (auto simp: get_le_Some slice_range_def slice_from_def nat_add_distrib unat_2_add_u16)

lemma parse_Method:
  assumes "ar_phase req = 2" "2 \<le> length body"
    and "n = (le_word (take 2 body) :: u16)"
  shows "parseAgentReq body req =
    (if length body < 2 + unat n then Some (body, None, False, req)
     else if 65534 \<le> unat n then None
     else parseAgentReq (drop (2 + unat n) body)
       (req\<lparr>ar_Method := take (unat n) (drop 2 body), ar_phase := 4\<rparr>))"
  using assms unat_u16_less [of n]
  by (subst parseAgentReq.simps)
    (auto simp: get_le_Some slice_range_def slice_from_def nat_add_distrib unat_2_add_u16)

lemma parse_Param:
  assumes "ar_phase req = 4" "6 \<le> length body"
    and "n = (le_word (take 4 (drop 2 body)) :: u32)"
    and "req' = req\<lparr>ar_ParamType := int (unat (le_word (take 2 body) :: u16))\<rparr>"
  shows "parseAgentReq body req =
    (if length body < 6 + unat n then Some (body, None, False, req')
     else if 4294967290 \<le> unat n then None
     else Some (drop (6 + unat n) body, None, True, req'\<lparr>ar_Param := take (unat n) (drop 6 body)\<rparr>))"
  using assms unat_u32_less [of n]
  by (subst parseAgentReq.simps)
    (auto simp: get_le_Some slice_range_def slice_from_def nat_add_distrib unat_6_add_u32 Let_def)

lemma parse_short:
  "ar_phase req = 0 \<Longrightarrow> length body < 16 \<Longrightarrow> parseAgentReq body req = Some (body, None, False, req)"
  "ar_phase req = 1 \<Longrightarrow> length body < 2 \<Longrightarrow> parseAgentReq body req = Some (body, None, False, req)"
  "ar_phase req = 2 \<Longrightarrow> length body < 2 \<Longrightarrow> parseAgentReq body req = Some (body, None, False, req)"
  "ar_phase req = 4 \<Longrightarrow> length body < 6 \<Longrightarrow> parseAgentReq body req = Some (body, None, False, req)"
  by (subst parseAgentReq.simps; simp)+

text \<open>The parser has not decided: it waits for more input.\<close>

abbreviation (input) pending :: "(bytes \<times> agent_error option \<times> bool \<times> 'c AgentRequest) go \<Rightarrow> bool" where
  "pending res \<equiv> (\<exists>l r. res = Some (l, None, False, r))"

lemma parse_Param_stable:
  assumes "ar_phase req = 4" "\<not> pending (parseAgentReq d req)"
  shows "parseAgentReq (d @ x) req =
    map_option (\<lambda>(l, e, b, r). (l @ x, e, b, r)) (parseAgentReq d req)"
proof -
  from assms have "6 \<le> length d" by (metis parse_short(4) not_le)
  with assms show ?thesis
    by (auto simp: parse_Param [where body = d, OF _ _ refl refl] 
      parse_Param [where body = "d @ x", OF _ _ refl refl] split: if_splits)
qed

lemma parse_Method_stable:
  assumes "ar_phase req = 2" "\<not> pending (parseAgentReq d req)"
  shows "parseAgentReq (d @ x) req =
    map_option (\<lambda>(l, e, b, r). (l @ x, e, b, r)) (parseAgentReq d req)"
proof -
  from assms have "2 \<le> length d" by (metis parse_short(3) not_le)
  with assms show ?thesis
    by (auto simp: parse_Method [where body = d, OF _ _ refl] parse_Method [where body = "d @ x", OF _ _ refl]
      parse_Param_stable split: if_splits)
qed

lemma parse_Interface_stable:
  assumes "ar_phase req = 1" "\<not> pending (parseAgentReq d req)"
  shows "parseAgentReq (d @ x) req =
    map_option (\<lambda>(l, e, b, r). (l @ x, e, b, r)) (parseAgentReq d req)"
proof -
  from assms have "2 \<le> length d" by (metis parse_short(2) not_le)
  with assms show ?thesis
    by (auto simp: parse_Interface [where body = d, OF _ _ refl] parse_Interface [where body = "d @ x", OF _ _ refl]
      parse_Method_stable split: if_splits)
qed

lemma parse_Header_stable:
  assumes "ar_phase req = 0" "\<not> pending (parseAgentReq d req)"
  shows "parseAgentReq (d @ x) req =
    map_option (\<lambda>(l, e, b, r). (l @ x, e, b, r)) (parseAgentReq d req)"
proof -
  from assms have "16 \<le> length d" by (metis parse_short(1) not_le)
  with assms show ?thesis
    by (auto simp: parse_Header [where body = d] parse_Header [where body = "d @ x"]
      parse_Interface_stable split: if_splits)
qed

text \<open>Whatever the parser hands back is a suffix of its input, a proper one for a request.\<close>

lemma parse_Param_took:
  assumes "ar_phase req = 4" "parseAgentReq d req = Some (l, e, b, r)"
  shows "took (if b then 6 else 0) d l"
proof (cases "length d < 6")
  case True
  with assms show ?thesis by (auto simp: parse_short)
next
  case False
  with assms show ?thesis
    by (auto simp: parse_Param [where body = d, OF _ _ refl refl] split: if_splits
      intro: took_drop)
qed

lemma parse_Method_took:
  assumes "ar_phase req = 2" "parseAgentReq d req = Some (l, e, b, r)"
  shows "took (if b then 6 else 0) d l"
proof (cases "length d < 2")
  case True
  with assms show ?thesis by (auto simp: parse_short)
next
  case False
  with assms show ?thesis
    by (auto simp: parse_Method [where body = d, OF _ _ refl] split: if_splits
      dest!: parse_Param_took [rotated] dest: took_of_drop)
qed

lemma parse_Interface_took:
  assumes "ar_phase req = 1" "parseAgentReq d req = Some (l, e, b, r)"
  shows "took (if b then 6 else 0) d l"
proof (cases "length d < 2")
  case True
  with assms show ?thesis by (auto simp: parse_short)
next
  case False
  with assms show ?thesis
    by (auto simp: parse_Interface [where body = d, OF _ _ refl] split: if_splits
      dest!: parse_Method_took [rotated] dest: took_of_drop)
qed

lemma parse_Header_took:
  assumes "ar_phase req = 0" "parseAgentReq d req = Some (l, e, b, r)"
  shows "took (if b then 6 else 0) d l"
proof (cases "length d < 16")
  case True
  with assms show ?thesis by (auto simp: parse_short)
next
  case False
  with assms show ?thesis
    by (auto simp: parse_Header [where body = d] split: if_splits
      dest!: parse_Interface_took [rotated] dest: took_of_drop)
qed

subsection \<open>The packet\<close>

lemma agent_out_eq:
  "agent_out result reqID interf meth paramType param =
     le_bytes 4 agentPacketMagic @ le_bytes 4 result @ le_bytes 8 reqID @
     le_bytes 2 (of_nat (length interf) :: u16) @ interf @
     le_bytes 2 (of_nat (length meth) :: u16) @ meth @
     le_bytes 2 (of_int paramType :: u16) @
     le_bytes 4 (of_nat (length param) :: u32) @ param"
proof -
  let ?fields = "[le_bytes 4 agentPacketMagic, le_bytes 4 result, le_bytes 8 reqID,
    le_bytes 2 (of_nat (length interf) :: u16), interf,
    le_bytes 2 (of_nat (length meth) :: u16), meth, le_bytes 2 (of_int paramType :: u16),
    le_bytes 4 (of_nat (length param) :: u32), param]"
  have "agent_out result reqID interf meth paramType param =
      write_seq 0 ?fields (replicate (length (concat ?fields)) 0)"
    by (simp add: agent_out_def Let_def ac_simps)
  also have "\<dots> = concat ?fields"
    using write_seq_zeros [of "[]" ?fields "0"] by (simp del: write_seq.simps concat.simps)
  finally show ?thesis by simp
qed

lemma parse_fields:
  fixes paramType :: ParamType
  assumes "length param < 4294967290" and "ar_phase req = 4"
  shows "parseAgentReq (le_bytes 2 (of_int paramType :: u16) @
      le_bytes 4 (of_nat (length param) :: u32) @ param @ rest) req =
    Some (rest, None, True, req\<lparr>ar_ParamType := paramType mod 65536, ar_Param := param\<rparr>)"
  using assms
  by (subst parse_Param [OF _ _ refl refl])
    (simp_all add: le_word_le_bytes_id unat_of_nat_u32 take_bit_eq_mod unsigned_of_int)

lemma parse_method_field:
  assumes "length meth < 65534" and "ar_phase req = 2"
  shows "parseAgentReq (le_bytes 2 (of_nat (length meth) :: u16) @ meth @ rest) req =
    parseAgentReq rest (req\<lparr>ar_Method := meth, ar_phase := 4\<rparr>)"
  using assms
  by (subst parse_Method [OF _ _ refl])
    (simp_all add: le_word_le_bytes_id unat_of_nat_u16)

lemma parse_interface_field:
  assumes "length interf < 65534" and "ar_phase req = 1"
  shows "parseAgentReq (le_bytes 2 (of_nat (length interf) :: u16) @ interf @ rest) req =
    parseAgentReq rest (req\<lparr>ar_Interf := interf, ar_phase := 2\<rparr>)"
  using assms
  by (subst parse_Interface [OF _ _ refl])
    (simp_all add: le_word_le_bytes_id unat_of_nat_u16)

lemma parse_header_fields:
  assumes "ar_phase req = 0"
  shows "parseAgentReq (le_bytes 4 agentPacketMagic @ le_bytes 4 result @ le_bytes 8 reqID @ rest) req =
    parseAgentReq rest (req\<lparr>ar_Result := result, ar_RequestID := reqID, ar_phase := 1\<rparr>)"
  using assms
  by (subst parse_Header)
    (simp_all add: le_word_le_bytes_id)

lemma parse_agent_out:
  assumes "agent_sendable interf meth param" and "ar_phase req = 0"
  shows "parseAgentReq (agent_out result reqID interf meth paramType param @ rest) req =
    Some (rest, None, True, req\<lparr>ar_Result := result, ar_RequestID := reqID, ar_Interf := interf,
      ar_Method := meth, ar_phase := 4, ar_ParamType := paramType mod 65536, ar_Param := param\<rparr>)"
  using assms
  by (simp add: agent_out_eq agent_sendable_def parse_header_fields parse_interface_field
    parse_method_field parse_fields)

subsection \<open>CreateAgentEvent\<close>

text \<open>\<^verbatim>\<open>Opened\<close>: a connection that brings no context gets a fresh one.\<close>

definition new_AgentContext :: "('c, 'ra) AgentContext" where
  "new_AgentContext = \<lparr>ac_ra = None, ac_is = \<lparr>is_b = []\<rparr>, ac_req = None\<rparr>"

definition agent_Opened ::
  "('c, 'ra) AgentContext option \<Rightarrow> ('c, 'ra) AgentContext option \<times> bytes \<times> Options \<times> Action" where
  "agent_Opened lastCtx =
     (case lastCtx of None \<Rightarrow> Some new_AgentContext | Some ctx \<Rightarrow> Some ctx,
      [], \<lparr>TCPKeepAlive = 0, ReuseInputBuffer = False\<rparr>, NoAction)"

lemma parseAgentReq_shorter:
  "ar_phase req = 0 \<Longrightarrow> parseAgentReq d req = Some (l, e, True, r) \<Longrightarrow> length l < length d"
  by (auto simp: took_def dest!: parse_Header_took)

text \<open>
  The pipeline loop of the \<^verbatim>\<open>Data\<close> event. Every round starts a new request and drops the
  stream's buffer; \<open>q\<close> collects what goes to the worker queue.
\<close>

function agent_Data_loop ::
  "'c \<Rightarrow> ('c, 'ra) AgentContext \<Rightarrow> bytes \<Rightarrow> 'c AgentRequest list \<Rightarrow>
   (('c, 'ra) AgentContext \<times> bytes \<times> 'c AgentRequest list \<times> Action) go" where
  "agent_Data_loop c ctx data q =
     (if length data > 0 then
        let req = new_AgentRequest\<lparr>ar_conn := Some c\<rparr>;
            ctx = ctx\<lparr>ac_is := (ac_is ctx)\<lparr>is_b := []\<rparr>\<rparr>
        in case parseAgentReq data req of
          None \<Rightarrow> None
        | Some (leftover, err, ready, req) \<Rightarrow>
            if err \<noteq> None then Some (ctx\<lparr>ac_req := Some req\<rparr>, data, q, Close)
            else if \<not> ready then Some (ctx\<lparr>ac_req := Some req\<rparr>, leftover, q, NoAction)
            else agent_Data_loop c (ctx\<lparr>ac_req := None\<rparr>) leftover (q @ [req])
      else Some (ctx, data, q, NoAction))"
  by pat_completeness auto
termination
  by (relation "measure (\<lambda>(c, ctx, data, q). length data)")
    (auto dest!: parseAgentReq_shorter [rotated] simp: new_AgentRequest_def)

declare agent_Data_loop.simps [simp del]

text \<open>The \<^verbatim>\<open>Data\<close> event: new context, requests for the worker queue, output, action. The input
  \<open>None\<close> is Go's nil slice.\<close>

definition agent_Data ::
  "'c \<Rightarrow> ('c, 'ra) AgentContext \<Rightarrow> bytes option \<Rightarrow>
   (('c, 'ra) AgentContext \<times> 'c AgentRequest list \<times> bytes \<times> Action) go" where
  "agent_Data c ctx inp =
     (case inp of
        None \<Rightarrow> Some (ctx, [], [], NoAction)
      | Some packet \<Rightarrow> do {
          let (is, data) = Begin (ac_is ctx) packet;
          (ctx, data, q, action) \<leftarrow> agent_Data_loop c (ctx\<lparr>ac_is := is\<rparr>) data [];
          Some (ctx\<lparr>ac_is := End (ac_is ctx) data\<rparr>, q, [], action)
        })"

text \<open>The parser and the event as the interface of \<open>Input_Stream\<close> sees them: a request is
  parsed from the zero value, and a connection that is to be closed feeds no further.\<close>

definition agent_frame :: "'c \<Rightarrow> bytes \<Rightarrow> 'c AgentRequest frame go" where
  "agent_frame c d =
     (case parseAgentReq d (new_AgentRequest\<lparr>ar_conn := Some c\<rparr>) of
        None \<Rightarrow> None
      | Some (l, err, ready, req) \<Rightarrow>
          Some (if err \<noteq> None then Malformed else if ready then Parsed l req else Incomplete l))"

definition agent_feed ::
  "'c \<Rightarrow> ('c, 'ra) AgentContext \<Rightarrow> bytes \<Rightarrow> (('c, 'ra) AgentContext \<times> 'c AgentRequest list) go" where
  "agent_feed c ctx packet =
     (case agent_Data c ctx (Some packet) of
        Some (ctx', q, out, action) \<Rightarrow> if action = NoAction then Some (ctx', q) else None
      | None \<Rightarrow> None)"

lemma new_AgentRequest_phase [simp]: "ar_phase (new_AgentRequest\<lparr>ar_conn := x\<rparr>) = 0"
  by (simp add: new_AgentRequest_def)

lemma agent_frame_decided:
  assumes "\<not> (\<exists>l. agent_frame c d = Some (Incomplete l))"
  shows "\<not> pending (parseAgentReq d (new_AgentRequest\<lparr>ar_conn := Some c\<rparr>))"
  using assms by (auto simp: agent_frame_def)

interpretation agent_parser: frame_parser "agent_frame c" "\<lambda>_. True" for c :: 'c
proof
  fix d x :: bytes
  let ?parse = "\<lambda>d. parseAgentReq d (new_AgentRequest\<lparr>ar_conn := Some c\<rparr>)"
  have stable: "?parse (d @ x) = map_option (\<lambda>(l, e, b, r). (l @ x, e, b, r)) (?parse d)"
    if "\<not> pending (?parse d)" using that by (rule parse_Header_stable [rotated]) simp
  show "agent_frame c [] = Some (Incomplete [])"
    by (simp add: agent_frame_def parse_short)
  show "\<exists>p. p \<noteq> [] \<and> d = p @ l" if "agent_frame c d = Some (Parsed l r)" for l r
    using that parse_Header_took [of "new_AgentRequest\<lparr>ar_conn := Some c\<rparr>" d]
    by (force simp: agent_frame_def took_def split: option.splits prod.splits if_splits)
  show "agent_frame c (d @ x) = Some (Parsed (l @ x) r)"
    if "agent_frame c d = Some (Parsed l r)" for l r
    using that stable by (auto simp: agent_frame_def split: option.splits if_splits)
  show "agent_frame c (d @ x) = Some Malformed" if "agent_frame c d = Some Malformed"
    using that stable by (auto simp: agent_frame_def split: option.splits if_splits)
  show "agent_frame c (d @ x) = None" if "agent_frame c d = None"
    using that stable by (auto simp: agent_frame_def split: option.splits if_splits)
qed simp

lemma agent_Data_loop_frames:
  assumes "frames (agent_frame c) d rs e" and "length e < 16"
  shows "\<exists>ctx'. agent_Data_loop c ctx d q = Some (ctx', e, q @ rs, NoAction) \<and>
    (d = [] \<and> ctx' = ctx \<or> is_b (ac_is ctx') = [])"
  using assms
proof (induction arbitrary: ctx q rule: frames.induct)
  case (frames_rest d l)
  then show ?case
    by (subst agent_Data_loop.simps) (auto simp: parse_short)
next
  case (frames_next d l r rs e)
  from frames_next.hyps(1) have d: "d \<noteq> []" 
    and p: "parseAgentReq d (new_AgentRequest\<lparr>ar_conn := Some c\<rparr>) = Some (l, None, True, r)"
    by (auto simp: agent_frame_def parse_short split: option.splits if_splits)
  let ?ctx = "ctx\<lparr>ac_is := (ac_is ctx)\<lparr>is_b := []\<rparr>, ac_req := None\<rparr>"
  from frames_next.IH [OF frames_next.prems, of ?ctx "q @ [r]"] obtain ctx' where
    "agent_Data_loop c ?ctx l (q @ [r]) = Some (ctx', e, q @ r # rs, NoAction)"
    "is_b (ac_is ctx') = []" by auto
  with d p show ?case by (subst agent_Data_loop.simps) simp
qed

lemma agent_feed_frames:
  assumes "frames (agent_frame c) (is_b (ac_is ctx) @ packet) rs e" and "length e < 16"
  shows "\<exists>ctx'. agent_feed c ctx packet = Some (ctx', rs) \<and> is_b (ac_is ctx') = e"
proof -
  obtain is' d where b: "Begin (ac_is ctx) packet = (is', d)" by fastforce
  then have d: "d = is_b (ac_is ctx) @ packet" using Begin_data [of "ac_is ctx" packet] by simp
  from agent_Data_loop_frames [OF assms, of "ctx\<lparr>ac_is := is'\<rparr>" "[]"] obtain ctx' where
    l: "agent_Data_loop c (ctx\<lparr>ac_is := is'\<rparr>) d [] = Some (ctx', e, rs, NoAction)" and
    c: "d = [] \<and> ctx' = ctx\<lparr>ac_is := is'\<rparr> \<or> is_b (ac_is ctx') = []"
    unfolding d by auto
  have "is_b (End (ac_is ctx') e) = e"
  proof (cases "d = []")
    case True
    with assms(1) d have "e = []" by (simp add: agent_parser.frames_nil_iff)
    then show ?thesis by (simp add: End_empty)
  next
    case False
    with c show ?thesis by (simp add: End_def)
  qed
  with b l show ?thesis by (simp add: agent_feed_def agent_Data_def)
qed

interpretation agent_stream:
  stream_handler "agent_frame c" "\<lambda>_. True" "agent_feed c" "\<lambda>ctx. is_b (ac_is ctx)" "\<lambda>e. length e < 16"
  for c :: 'c
  by unfold_locales (rule agent_feed_frames)

subsection \<open>Streams of packets\<close>

text \<open>A request as its sender holds it, its packet, and what the receiver makes of it.\<close>

record agent_msg =
  am_Result :: u32
  am_RequestID :: u64
  am_Interf :: gostring
  am_Method :: gostring
  am_ParamType :: ParamType
  am_Param :: bytes

definition agent_packet :: "agent_msg \<Rightarrow> bytes" where
  "agent_packet m = agent_out (am_Result m) (am_RequestID m) (am_Interf m) (am_Method m)
     (am_ParamType m) (am_Param m)"

definition agent_received :: "'c \<Rightarrow> agent_msg \<Rightarrow> 'c AgentRequest" where
  "agent_received c m =
     \<lparr>ar_conn = Some c, ar_paramLen = 0, ar_phase = agentPhase_Param,
      ar_RequestID = am_RequestID m, ar_Result = am_Result m, ar_RemoteAddr = [],
      ar_Interf = am_Interf m, ar_Method = am_Method m,
      ar_ParamType = am_ParamType m mod 65536, ar_Param = am_Param m\<rparr>"

definition agent_msg_ok :: "agent_msg \<Rightarrow> bool" where
  "agent_msg_ok m = agent_sendable (am_Interf m) (am_Method m) (am_Param m)"

lemma agent_frame_packet:
  "agent_msg_ok m \<Longrightarrow> agent_frame c (agent_packet m @ x) = Some (Parsed x (agent_received c m))"
  by (simp add: agent_frame_def agent_packet_def agent_msg_ok_def parse_agent_out
    agent_received_def new_AgentRequest_def)

lemma agent_frame_short: "length h < 16 \<Longrightarrow> agent_frame c h = Some (Incomplete h)"
  by (simp add: agent_frame_def parse_short)

interpretation agent_packets:
  packet_stream "agent_frame c" "\<lambda>_. True" "agent_feed c" "\<lambda>ctx. is_b (ac_is ctx)" "\<lambda>e. length e < 16"
    agent_packet "agent_received c" agent_msg_ok for c :: 'c
  by unfold_locales (auto intro: agent_frame_packet agent_frame_short)

lemma agent_packet_length:
  "length (agent_packet m) = 26 + length (am_Interf m) + length (am_Method m) + length (am_Param m)"
  by (simp add: agent_packet_def agent_out_eq)

lemma agent_Data_one:
  assumes "is_b (ac_is ctx) @ packet \<noteq> []"
    and "parseAgentReq (is_b (ac_is ctx) @ packet) (new_AgentRequest\<lparr>ar_conn := Some c\<rparr>) =
      Some (l, err, False, r)"
  shows "\<exists>ctx'. agent_Data c ctx (Some packet) =
    Some (ctx', [], [], if err = None then NoAction else Close) \<and>
    is_b (ac_is ctx') = (if err = None then l else is_b (ac_is ctx) @ packet)"
proof -
  obtain is' d where b: "Begin (ac_is ctx) packet = (is', d)" by fastforce
  then have d: "d = is_b (ac_is ctx) @ packet" using Begin_data [of "ac_is ctx" packet] by simp
  let ?ctx = "ctx\<lparr>ac_is := is'\<lparr>is_b := []\<rparr>, ac_req := Some r\<rparr>"
  from assms d have "agent_Data_loop c (ctx\<lparr>ac_is := is'\<rparr>) d [] =
      Some (?ctx, if err = None then l else d, [], if err = None then NoAction else Close)"
    by (subst agent_Data_loop.simps) simp
  with b d show ?thesis by (cases err) (simp_all add: agent_Data_def End_def)
qed

lemma drop_16_packet:
  "drop 16 (agent_packet m) =
     le_bytes 2 (of_nat (length (am_Interf m)) :: u16) @ am_Interf m @
     le_bytes 2 (of_nat (length (am_Method m)) :: u16) @ am_Method m @
     le_bytes 2 (of_int (am_ParamType m) :: u16) @
     le_bytes 4 (of_nat (length (am_Param m)) :: u32) @ am_Param m"
  by (simp add: agent_packet_def agent_out_eq)

lemma take_16_packet:
  "16 \<le> k \<Longrightarrow> take k (agent_packet m) =
     le_bytes 4 agentPacketMagic @ le_bytes 4 (am_Result m) @ le_bytes 8 (am_RequestID m) @
     take (k - 16) (drop 16 (agent_packet m))"
  by (simp add: agent_packet_def agent_out_eq)

lemma parse_interface_short:
  assumes "ar_phase req = 1" "b = take j (le_bytes 2 (of_nat n :: u16) @ x)" "j < 2 + n" "n < 65536"
  shows "parseAgentReq b req = Some (b, None, False, req)"
proof (cases "length b < 2")
  case True
  with assms(1) show ?thesis by (simp add: parse_short)
next
  case False
  with assms(2) have "take 2 b = le_bytes 2 (of_nat n :: u16)"
    by (cases "2 \<le> j") auto
  then have n: "unat (le_word (take 2 b) :: u16) = n"
    using assms(4) by (simp add: le_word_le_bytes_id unat_of_nat_u16)
  from assms(2,3) have "length b < 2 + n" by simp
  with assms(1) False n show ?thesis by (simp add: parse_Interface [OF _ _ refl])
qed

lemma parse_Param_no_panic:
  "ar_phase req = 4 \<Longrightarrow> length d < 4294967296 \<Longrightarrow> parseAgentReq d req \<noteq> None"
  by (cases "length d < 6") (auto simp: parse_short parse_Param [OF _ _ refl refl])

lemma parse_Method_no_panic:
  "ar_phase req = 2 \<Longrightarrow> length d < 65536 \<Longrightarrow> parseAgentReq d req \<noteq> None"
  by (cases "length d < 2") 
    (auto simp: parse_short parse_Method [OF _ _ refl] parse_Param_no_panic simp del: not_None_eq)

lemma parse_Interface_no_panic:
  "ar_phase req = 1 \<Longrightarrow> length d < 65536 \<Longrightarrow> parseAgentReq d req \<noteq> None"
  by (cases "length d < 2") 
    (auto simp: parse_short parse_Interface [OF _ _ refl] parse_Method_no_panic simp del: not_None_eq)

text \<open>A concrete request, for the witnesses.\<close>

definition agent_ex_msg :: agent_msg where
  "agent_ex_msg = \<lparr>am_Result = 0, am_RequestID = 1, am_Interf = str ''IHello'', am_Method = str ''hash'',
    am_ParamType = ParamType_String, am_Param = [34, 97, 34]\<rparr>"

lemma agent_ex_packet:
  "agent_packet agent_ex_msg =
     [0x98, 0x47, 0x25, 0x1F, 0, 0, 0, 0, 1, 0, 0, 0, 0, 0, 0, 0, 6, 0, 73, 72, 101, 108, 108, 111,
      4, 0, 104, 97, 115, 104, 7, 0, 3, 0, 0, 0, 34, 97, 34]"
  by (simp add: agent_packet_def agent_out_eq agent_ex_msg_def str_def le_bytes_numeral le_bytes_one
    agentPacketMagic_def)

lemma agent_ex_msg_ok: "agent_msg_ok agent_ex_msg"
  by (simp add: agent_msg_ok_def agent_sendable_def agent_ex_msg_def str_def)

subsection \<open>Properties\<close>

text \<open>
  C17: round trip of the agent protocol. The packet that \<^verbatim>\<open>SendAgentRequest\<close> builds parses, from a
  zero request and with any bytes behind it, to exactly the fields that were sent, with those
  bytes left over. The condition is the range in which the length fields do not wrap.
\<close>

theorem agent_roundtrip:
  assumes "agent_sendable interf meth param"
  shows "parseAgentReq (agent_out result reqID interf meth paramType param @ rest)
      (new_AgentRequest\<lparr>ar_conn := c\<rparr>) =
    Some (rest, None, True,
      \<lparr>ar_conn = c, ar_paramLen = 0, ar_phase = agentPhase_Param, ar_RequestID = reqID,
       ar_Result = result, ar_RemoteAddr = [], ar_Interf = interf, ar_Method = meth,
       ar_ParamType = paramType mod 65536, ar_Param = param\<rparr>)"
  using assms by (subst parse_agent_out) (simp_all add: new_AgentRequest_def)

theorem agent_roundtrip_witness:
  "parseAgentReq (agent_out 200 7 (str ''IHello'') (str ''hash'') ParamType_String [1, 2] @ [9])
      (new_AgentRequest\<lparr>ar_conn := (None :: int option)\<rparr>) =
    Some ([9], None, True,
      \<lparr>ar_conn = None, ar_paramLen = 0, ar_phase = agentPhase_Param, ar_RequestID = 7,
       ar_Result = 200, ar_RemoteAddr = [], ar_Interf = str ''IHello'', ar_Method = str ''hash'',
       ar_ParamType = ParamType_String, ar_Param = [1, 2]\<rparr>)"
  by (subst agent_roundtrip) (simp_all add: agent_sendable_def str_def)

text \<open>
  C2: delivery. When packets arrive back to back in any number of segments whose cuts fall on a
  packet boundary or within the first 15 bytes of a packet, the \<^verbatim>\<open>Data\<close> event queues exactly the
  requests that were sent, in order, keeps the connection open and ends with an empty stream.
\<close>

theorem agent_delivery:
  assumes "list_all agent_msg_ok ms"
    and "is_b (ac_is ctx) = []"
    and "cs \<noteq> []" and "concat cs = concat (map agent_packet ms)"
    and "cuts_ok (\<lambda>h. length h < 16) (map agent_packet ms) cs"
  shows "\<exists>ctx'. feed_all (agent_feed c) ctx cs = Some (ctx', map (agent_received c) ms) \<and>
           is_b (ac_is ctx') = []"
  using assms by (intro agent_packets.delivery) simp_all

theorem agent_delivery_witness:
  "\<exists>ctx'. feed_all (agent_feed (5::int)) (new_AgentContext :: (int, int) AgentContext)
       [agent_packet agent_ex_msg @ take 10 (agent_packet agent_ex_msg), drop 10 (agent_packet agent_ex_msg)] =
     Some (ctx', map (agent_received 5) [agent_ex_msg, agent_ex_msg]) \<and> is_b (ac_is ctx') = []"
proof (rule agent_delivery)
  show "list_all agent_msg_ok [agent_ex_msg, agent_ex_msg]" by (simp add: agent_ex_msg_ok)
  show "cuts_ok (\<lambda>h. length h < 16) (map agent_packet [agent_ex_msg, agent_ex_msg])
    [agent_packet agent_ex_msg @ take 10 (agent_packet agent_ex_msg), drop 10 (agent_packet agent_ex_msg)]"
    by (simp add: cuts_ok_def cut_ok_def agent_ex_packet Let_def)
qed (simp_all add: new_AgentContext_def)



text \<open>
  C28: the parser does not panic on any input of fewer than 65552 bytes, whatever its contents.
\<close>

theorem agent_no_panic:
  assumes "length d < 65552"
  shows "parseAgentReq d (new_AgentRequest\<lparr>ar_conn := c\<rparr>) \<noteq> None"
  using assms by (cases "length d < 16") 
    (auto simp: parse_short parse_Header parse_Interface_no_panic simp del: not_None_eq)

theorem agent_no_panic_witness:
  "parseAgentReq [1, 2, 3] ((new_AgentRequest :: int AgentRequest)\<lparr>ar_conn := None\<rparr>) \<noteq> None"
  by (rule agent_no_panic) simp

text \<open>
  C33: from that size on it can. The bound \<^verbatim>\<open>2 + interfaceLen\<close> is computed in 16 bits, so a packet
  whose interface name has 65534 or 65535 bytes makes the slice expression panic.
\<close>

theorem agent_length_wrap_panics:
  assumes "65534 \<le> length interf" and "length interf < 65536"
  shows "parseAgentReq (agent_out result reqID interf meth paramType param @ rest)
    (new_AgentRequest\<lparr>ar_conn := c\<rparr>) = None"
  using assms
  by (simp add: agent_out_eq parse_header_fields)
    (subst parse_Interface [OF _ _ refl]; simp add: le_word_le_bytes_id unat_of_nat_u16)

theorem agent_length_wrap_panics_witness:
  "parseAgentReq (agent_out 0 1 (replicate 65534 0) [] 7 [] @ [])
    ((new_AgentRequest :: int AgentRequest)\<lparr>ar_conn := None\<rparr>) = None"
  by (rule agent_length_wrap_panics) simp_all

text \<open>
  Input that does not start with the magic number closes the connection as soon as 16 bytes
  are there, and nothing reaches the worker queue.
\<close>

lemma agent_bad_magic_closes:
  assumes "16 \<le> length (is_b (ac_is ctx) @ packet)"
    and "le_word (take 4 (is_b (ac_is ctx) @ packet)) \<noteq> agentPacketMagic"
  shows "\<exists>ctx'. agent_Data c ctx (Some packet) = Some (ctx', [], [], Close)"
proof -
  let ?d = "is_b (ac_is ctx) @ packet"
  from assms have "parseAgentReq ?d (new_AgentRequest\<lparr>ar_conn := Some c\<rparr>) =
      Some (?d, Some agentPacketParseError, False, new_AgentRequest\<lparr>ar_conn := Some c\<rparr>)"
    by (subst parse_Header) simp_all
  moreover from assms(1) have "?d \<noteq> []" by auto
  ultimately show ?thesis using agent_Data_one [of ctx packet c] by fastforce
qed

lemma agent_bad_magic_closes_witness:
  "\<exists>ctx'. agent_Data (5::int) (new_AgentContext :: (int, int) AgentContext) (Some ([0, 0, 0, 0, 0, 0, 0, 0, 0, 0, 0, 0, 0, 0, 0, 0])) =
     Some (ctx', [], [], Close)"
proof (rule agent_bad_magic_closes)
  show "le_word (take 4 (is_b (ac_is (new_AgentContext :: (int, int) AgentContext)) @ [0, 0, 0, 0, 0, 0, 0, 0, 0, 0, 0, 0, 0, 0, 0, 0])) \<noteq> agentPacketMagic"
    by (simp add: new_AgentContext_def agentPacketMagic_def)
qed (simp add: new_AgentContext_def)

end
