(* ===== verification/Http_Parser.thy ===== *)
theory Http_Parser
  imports Go_Strings Agent_Server
begin

text \<open>
  \<^verbatim>\<open>http_server.go\<close>: the HTTP front end of the consumer. \<open>parsereq\<close> is the request parser with its
  index arithmetic, \<open>ParseFormBody\<close> the reader of the form body and \<open>AppendResp\<close> the response writer
  (the \<^verbatim>\<open>Data\<close> event is in \<open>Http_Server\<close>). \<open>http_read\<close> is a reference reader that works
  by cutting the input at separators; the lemmas \<open>parsereq_reads_panic\<close>, \<open>parsereq_reads_header\<close> and
  \<open>parsereq_reads_more\<close> show that the index loops compute the same.

  The current date, which \<^verbatim>\<open>AppendResp\<close> prints, is a parameter; the time stamps of the profile log
  are left out.
\<close>

subsection \<open>Data\<close>

record 'c HttpRequest =
  hq_conn :: "'c option"
  hq_proto :: gostring
  hq_method :: gostring
  hq_path :: gostring
  hq_query :: gostring
  hq_head :: gostring
  hq_body :: gostring
  hq_remoteAddr :: gostring
  hq_bodyLen :: int
  hq_interf :: gostring
  hq_callMethod :: gostring
  hq_parameterTypesString :: gostring
  hq_parameter :: gostring

definition new_HttpRequest :: "'c HttpRequest" where
  "new_HttpRequest = \<lparr>hq_conn = None, hq_proto = [], hq_method = [], hq_path = [], hq_query = [],
     hq_head = [], hq_body = [], hq_remoteAddr = [], hq_bodyLen = 0, hq_interf = [],
     hq_callMethod = [], hq_parameterTypesString = [], hq_parameter = []\<rparr>"

record 'c HttpContext =
  hc_is :: InputStream
  hc_req :: "'c HttpRequest option"

datatype http_error = ParseFormBodyError

definition http_error_Error :: "http_error \<Rightarrow> gostring" where
  "http_error_Error err = (case err of ParseFormBodyError \<Rightarrow> str ''ParseFormBodyError'')"

abbreviation (input) AMP :: byte where "AMP \<equiv> 38"
abbreviation (input) EQUALS :: byte where "EQUALS \<equiv> 61"
abbreviation (input) QUESTION :: byte where "QUESTION \<equiv> 63"

subsection \<open>The form body\<close>

definition form_value :: "gostring \<Rightarrow> gostring go" where
  "form_value kv = slice_from kv (IndexByte kv EQUALS + 1)"

definition ParseFormBody :: "'c HttpRequest \<Rightarrow> (http_error option \<times> 'c HttpRequest) go" where
  "ParseFormBody hq =
     (let kvs = Split (hq_body hq) [AMP] in
      if length kvs \<noteq> 4 then Some (Some ParseFormBodyError, hq)
      else do {
        interf \<leftarrow> form_value (kvs ! 0);
        callMethod \<leftarrow> form_value (kvs ! 1);
        parameterTypesString \<leftarrow> form_value (kvs ! 2);
        parameter \<leftarrow> form_value (kvs ! 3);
        Some (None, hq\<lparr>hq_interf := interf, hq_callMethod := callMethod,
          hq_parameterTypesString := parameterTypesString, hq_parameter := parameter\<rparr>)
      })"

subsection \<open>The response writer\<close>

definition AppendResp :: "bytes \<Rightarrow> bytes \<Rightarrow> gostring \<Rightarrow> gostring \<Rightarrow> gostring \<Rightarrow> bytes" where
  "AppendResp date b status head body =
     (let b = b @ str ''HTTP/1.1'';
          b = b @ [SPACE];
          b = b @ status;
          b = b @ [CR, LF];
          b = b @ str ''Server: shabicheng'' @ [CR, LF];
          b = b @ str ''Connection: keep-alive'' @ [CR, LF];
          b = b @ str ''Date: '';
          b = b @ date;
          b = b @ [CR, LF];
          b = (if length body > 0
               then let b = b @ str ''Content-Length: '';
                        b = b @ Itoa (int (length body))
                    in b @ [CR, LF]
               else b);
          b = (if length head > 0 then b @ head else b);
          b = b @ [CR, LF]
      in if length body > 0 then b @ body else b)"

definition AppendRequest :: "bytes \<Rightarrow> bytes \<Rightarrow> 'c HttpRequest \<Rightarrow> bytes" where
  "AppendRequest date b req = AppendResp date b (str ''200 OK'') [] (str ''hello world'')"

text \<open>\<^verbatim>\<open>Response\<close>: what it sends on the request's connection.\<close>

definition http_Response :: "bytes \<Rightarrow> 'c HttpRequest \<Rightarrow> 'd AgentRequest \<Rightarrow> bytes" where
  "http_Response date hq req =
     (if ar_ParamType req = ParamType_Result then ar_Param req
      else AppendResp date [] (str ''200 OK'') [] (ar_Param req))"

subsection \<open>The request parser\<close>

definition contentLengthHeaderLower :: gostring where
  "contentLengthHeaderLower = str ''content-length:''"

definition contentLengthHeaderUpper :: gostring where
  "contentLengthHeaderUpper = str ''CONTENT-LENGTH:''"

definition contentLengthHeaderLen :: nat where
  "contentLengthHeaderLen = 15"

text \<open>The two loops of \<^verbatim>\<open>getContentLength\<close>: over the header name, and over the spaces before the
  number. The error of \<^verbatim>\<open>Atoi\<close> is dropped.\<close>

fun cl_name :: "bytes \<Rightarrow> bytes \<Rightarrow> bytes \<Rightarrow> bool" where
  "cl_name (h # hs) (l # ls) (u # us) = (if h \<noteq> l \<and> h \<noteq> u then False else cl_name hs ls us)"
| "cl_name _ _ _ = True"

fun cl_value :: "bytes \<Rightarrow> bool \<times> int" where
  "cl_value [] = (False, 0)"
| "cl_value (h # hs) = (if h \<noteq> SPACE then (True, fst (Atoi (h # hs))) else cl_value hs)"

definition getContentLength :: "gostring \<Rightarrow> bool \<times> int" where
  "getContentLength header =
     (if length header < contentLengthHeaderLen then (False, 0)
      else if \<not> cl_name header contentLengthHeaderLower contentLengthHeaderUpper then (False, 0)
      else cl_value (drop contentLengthHeaderLen header))"

text \<open>
  The nested loops over the request line, from the inside out. They share the index \<open>i\<close> and the
  start \<open>s\<close> of the current part; each returns both with the updated request.
\<close>

function scan_proto ::
  "bytes \<Rightarrow> nat \<Rightarrow> nat \<Rightarrow> 'c HttpRequest \<Rightarrow> (nat \<times> nat \<times> 'c HttpRequest) go" where
  "scan_proto sdata i s req =
     (if i < length sdata then
        if sdata ! i = LF \<and> sdata ! (i - 1) = CR then do {
          proto \<leftarrow> slice_range sdata (int s) (int i);
          Some (i + 1, i + 1, req\<lparr>hq_proto := proto\<rparr>)
        }
        else scan_proto sdata (i + 1) s req
      else Some (i, s, req))"
  by pat_completeness auto
termination by (relation "measure (\<lambda>(sdata, i, s, req). length sdata - i)") auto

function scan_target ::
  "bytes \<Rightarrow> nat \<Rightarrow> nat \<Rightarrow> int \<Rightarrow> 'c HttpRequest \<Rightarrow> (nat \<times> nat \<times> 'c HttpRequest) go" where
  "scan_target sdata i s q req =
     (if i < length sdata then
        if sdata ! i = QUESTION \<and> q = -1 then scan_target sdata (i + 1) s (int i - int s) req
        else if sdata ! i = SPACE then do {
          req \<leftarrow> (if q \<noteq> -1 then do {
                   path \<leftarrow> slice_range sdata (int s) q;
                   query \<leftarrow> slice_range path (q + 1) (int i);
                   Some (req\<lparr>hq_path := path, hq_query := query\<rparr>)
                 }
                 else do {
                   path \<leftarrow> slice_range sdata (int s) (int i);
                   Some (req\<lparr>hq_path := path\<rparr>)
                 });
          scan_proto sdata (i + 1) (i + 1) req
        }
        else scan_target sdata (i + 1) s q req
      else Some (i, s, req))"
  by pat_completeness auto
termination by (relation "measure (\<lambda>(sdata, i, s, q, req). length sdata - i)") auto

function scan_method ::
  "bytes \<Rightarrow> nat \<Rightarrow> nat \<Rightarrow> 'c HttpRequest \<Rightarrow> (nat \<times> nat \<times> 'c HttpRequest) go" where
  "scan_method sdata i s req =
     (if i < length sdata then
        if sdata ! i = SPACE then do {
          meth \<leftarrow> slice_range sdata (int s) (int i);
          scan_target sdata (i + 1) (i + 1) (-1) (req\<lparr>hq_method := meth\<rparr>)
        }
        else scan_method sdata (i + 1) s req
      else Some (i, s, req))"
  by pat_completeness auto
termination by (relation "measure (\<lambda>(sdata, i, s, req). length sdata - i)") auto

text \<open>The loop over the header lines; \<open>topl\<close> is the length of the request line.\<close>

function scan_headers ::
  "bytes \<Rightarrow> nat \<Rightarrow> nat \<Rightarrow> nat \<Rightarrow> int \<Rightarrow> 'c HttpRequest \<Rightarrow>
   (bytes \<times> http_error option \<times> bool \<times> 'c HttpRequest) go" where
  "scan_headers sdata topl i s clen req =
     (if i < length sdata then
        if i > 1 \<and> sdata ! i = LF \<and> sdata ! (i - 1) = CR then
          case slice_range sdata (int s) (int i - 1) of
            None \<Rightarrow> None
          | Some line \<Rightarrow>
              let s = i + 1 in
              if line = [] then do {
                let req = req\<lparr>hq_bodyLen := clen\<rparr>;
                head \<leftarrow> slice_range sdata (int topl) (int i + 1);
                let req = req\<lparr>hq_head := head\<rparr>;
                let i = i + 1;
                if clen > 0 then do {
                  tail \<leftarrow> slice_from sdata (int i);
                  if int (length tail) < clen then do {
                    leftover \<leftarrow> slice_from sdata (int i);
                    Some (leftover, None, False, req)
                  }
                  else do {
                    body \<leftarrow> slice_range sdata (int i) (int i + clen);
                    leftover \<leftarrow> slice_from sdata (int i + clen);
                    Some (leftover, None, True, req\<lparr>hq_body := body\<rparr>)
                  }
                }
                else do {
                  leftover \<leftarrow> slice_from sdata (int i);
                  Some (leftover, None, True, req)
                }
              }
              else
                let (ok, cl) = getContentLength line in
                scan_headers sdata topl (i + 1) s (if ok then cl else clen) req
        else scan_headers sdata topl (i + 1) s clen req
      else Some (sdata, None, False, req))"
  by pat_completeness auto
termination by (relation "measure (\<lambda>(sdata, topl, i, s, clen, req). length sdata - i)") auto

declare scan_proto.simps [simp del] scan_target.simps [simp del] scan_method.simps [simp del]
  scan_headers.simps [simp del]

definition parsereq ::
  "bytes \<Rightarrow> 'c HttpRequest \<Rightarrow> (bytes \<times> http_error option \<times> bool \<times> 'c HttpRequest) go" where
  "parsereq data req =
     (let sdata = data in
      if hq_bodyLen req > 0 then
        if int (length sdata) < hq_bodyLen req then Some (data, None, False, req)
        else do {
          body \<leftarrow> slice_range data 0 (hq_bodyLen req);
          leftover \<leftarrow> slice_from data (hq_bodyLen req);
          Some (leftover, None, True, req\<lparr>hq_body := body\<rparr>)
        }
      else do {
        (i, s, req) \<leftarrow> scan_method sdata 0 0 req;
        if hq_proto req = [] then Some (data, None, False, req)
        else do {
          topl \<leftarrow> slice_to sdata (int s);
          scan_headers sdata (length topl) i s 0 req
        }
      })"

subsection \<open>The reference reader\<close>

fun cut_byte :: "byte \<Rightarrow> bytes \<Rightarrow> (bytes \<times> bytes) option" where
  "cut_byte c [] = None"
| "cut_byte c (x # d) = (if x = c then Some ([], d) else map_option (apfst (Cons x)) (cut_byte c d))"

fun cut_crlf :: "bytes \<Rightarrow> (bytes \<times> bytes) option" where
  "cut_crlf (x # y # d) =
     (if x = CR \<and> y = LF then Some ([], d) else map_option (apfst (Cons x)) (cut_crlf (y # d)))"
| "cut_crlf _ = None"

lemma cut_byte_Some: "cut_byte c d = Some (p, r) \<longleftrightarrow> d = p @ c # r \<and> c \<notin> set p"
proof (induction d arbitrary: p)
  case (Cons x d)
  then show ?case by (cases p) auto
qed simp

lemma cut_byte_None: "cut_byte c d = None \<longleftrightarrow> c \<notin> set d"
  by (induction d) auto

lemma cut_crlf_split: "cut_crlf d = Some (p, r) \<Longrightarrow> d = p @ CR # LF # r"
  by (induction d arbitrary: p rule: cut_crlf.induct) (auto split: if_splits)

lemma cut_crlf_append: "cut_crlf d = Some (p, r) \<Longrightarrow> cut_crlf (d @ x) = Some (p, r @ x)"
  by (induction d arbitrary: p rule: cut_crlf.induct) (auto split: if_splits)

lemma cut_crlf_line: "LF \<notin> set p \<Longrightarrow> cut_crlf (p @ CR # LF # r) = Some (p, r)"
proof (induction p)
  case (Cons a p)
  then show ?case by (cases p) auto
qed simp

text \<open>The header lines: the value of the last content length and the input after the blank line.\<close>

function read_headers :: "bytes \<Rightarrow> int \<Rightarrow> (int \<times> bytes) option" where
  "read_headers d clen =
     (case cut_crlf d of
        None \<Rightarrow> None
      | Some (line, d') \<Rightarrow>
          if line = [] then Some (clen, d')
          else let (ok, cl) = getContentLength line in read_headers d' (if ok then cl else clen))"
  by pat_completeness auto
termination by (relation "measure (\<lambda>(d, clen). length d)") (auto dest: cut_crlf_split)

declare read_headers.simps [simp del]

text \<open>Method, target, protocol (with its carriage return), header block, content length and the
  input after the header; a target with a question mark is a panic.\<close>

definition http_read :: "bytes \<Rightarrow> (gostring \<times> gostring \<times> gostring \<times> gostring \<times> int \<times> bytes) option go" where
  "http_read d =
     (case cut_byte SPACE d of None \<Rightarrow> Some None | Some (meth, d1) \<Rightarrow>
      case cut_byte SPACE d1 of None \<Rightarrow> Some None | Some (target, d2) \<Rightarrow>
      if QUESTION \<in> set target then None
      else case cut_crlf d2 of None \<Rightarrow> Some None | Some (proto, d3) \<Rightarrow>
      case read_headers d3 0 of None \<Rightarrow> Some None | Some (clen, d4) \<Rightarrow>
        Some (Some (meth, target, proto @ [CR], take (length d3 - length d4) d3, clen, d4)))"

subsection \<open>The index loops compute the reference\<close>

text \<open>Looking for a line end from left to right: \<open>p\<close> has none, \<open>x\<close> is the next byte.\<close>

lemma cut_crlf_hit: "cut_crlf (p @ [CR]) = None \<Longrightarrow> cut_crlf (p @ CR # LF # d) = Some (p, d)"
proof (induction p)
  case (Cons a p)
  then show ?case by (cases p) (auto split: if_splits)
qed simp

lemma cut_crlf_miss:
  "cut_crlf p = None \<Longrightarrow> \<not> (x = LF \<and> p \<noteq> [] \<and> last p = CR) \<Longrightarrow> cut_crlf (p @ [x]) = None"
proof (induction p)
  case (Cons a p)
  then show ?case by (cases p) (auto split: if_splits)
qed simp

lemma at_boundary:
  assumes "sdata = a @ p @ x # d" and "i = length a + length p" and "a \<noteq> []"
  shows "i < length sdata" and "sdata ! i = x" and "sdata ! (i - 1) = last (a @ p)"
proof -
  have d: "sdata = (a @ p) @ x # d" and i: "i = length (a @ p)" using assms by simp_all
  show "i < length sdata" unfolding d i by simp
  show "sdata ! i = x" unfolding d i by (simp only: nth_append_length)
  have "i - 1 < length (a @ p)" unfolding i using assms(3) by (cases a) auto
  then have "sdata ! (i - 1) = (a @ p) ! (i - 1)" unfolding d by (simp only: nth_append if_True)
  then show "sdata ! (i - 1) = last (a @ p)" unfolding i using assms(3) by (simp add: last_conv_nth)
qed

lemma scan_proto_reads:
  assumes "sdata = a @ p @ d" and "i = length a + length p" and "a \<noteq> []" and "last a \<noteq> CR"
    and "cut_crlf p = None"
  shows "scan_proto sdata i (length a) req =
    (case cut_crlf (p @ d) of
       None \<Rightarrow> Some (length sdata, length a, req)
     | Some (q, r) \<Rightarrow> Some (length sdata - length r, length sdata - length r, req\<lparr>hq_proto := q @ [CR]\<rparr>))"
  using assms
proof (induction d arbitrary: p i)
  case Nil
  then show ?case by (subst scan_proto.simps) simp
next
  case (Cons x d)
  note at = at_boundary [OF Cons.prems(1-3)]
  show ?case
  proof (cases "x = LF \<and> p \<noteq> [] \<and> last p = CR")
    case True
    then obtain p' where p: "p = p' @ [CR]" by (metis append_butlast_last_id)
    with Cons.prems(5) have "cut_crlf (p @ x # d) = Some (p', d)"
      using True cut_crlf_hit [of p' d] by simp
    moreover have "slice_range sdata (int (length a)) (int i) = Some p"
      using Cons.prems(1,2) by (simp add: slice_range_def)
    ultimately show ?thesis using True at p Cons.prems(1,2) by (subst scan_proto.simps) simp
  next
    case False
    with Cons.prems(4) have "\<not> (x = LF \<and> last (a @ p) = CR)" by (auto simp: last_append split: if_splits)
    then have "scan_proto sdata i (length a) req = scan_proto sdata (i + 1) (length a) req"
      using at by (subst scan_proto.simps) auto
    also have "\<dots> = (case cut_crlf ((p @ [x]) @ d) of
       None \<Rightarrow> Some (length sdata, length a, req)
     | Some (q, r) \<Rightarrow> Some (length sdata - length r, length sdata - length r, req\<lparr>hq_proto := q @ [CR]\<rparr>))"
      using Cons.prems cut_crlf_miss [OF Cons.prems(5) False] by (intro Cons.IH) simp_all
    finally show ?thesis by simp
  qed
qed

lemma query_panics: "slice_range sdata s q = Some path \<Longrightarrow> 0 \<le> s \<Longrightarrow> slice_range path (q + 1) i = None"
  by (auto simp: slice_range_def split: if_splits)

lemma scan_target_query:
  assumes "sdata = a @ p @ d" and "i = length a + length p" and "q \<noteq> -1"
  shows "scan_target sdata i (length a) q req =
    (if SPACE \<in> set d then None else Some (length sdata, length a, req))"
  using assms
proof (induction d arbitrary: p i)
  case Nil
  then show ?case by (subst scan_target.simps) simp
next
  case (Cons x d)
  have at: "i < length sdata" "sdata ! i = x" using Cons.prems by (simp_all add: nth_append)
  show ?case
  proof (cases "x = SPACE")
    case True
    with at Cons.prems(3) query_panics [of sdata "int (length a)" q _ "int i"] show ?thesis
      by (cases "slice_range sdata (int (length a)) q") (subst scan_target.simps, simp)+
  next
    case False
    with at Cons.prems Cons.IH [of "p @ [x]" "i + 1"] show ?thesis
      by (subst scan_target.simps) simp
  qed
qed

lemma scan_target_reads:
  assumes "sdata = a @ p @ d" and "i = length a + length p" and "QUESTION \<notin> set p"
  shows "scan_target sdata i (length a) (-1) req =
    (case cut_byte SPACE d of
       None \<Rightarrow> Some (length sdata, length a, req)
     | Some (t, d2) \<Rightarrow>
         if QUESTION \<in> set t then None
         else scan_proto sdata (length sdata - length d2) (length sdata - length d2) (req\<lparr>hq_path := p @ t\<rparr>))"
  using assms
proof (induction d arbitrary: p i)
  case Nil
  then show ?case by (subst scan_target.simps) simp
next
  case (Cons x d)
  have at: "i < length sdata" "sdata ! i = x" using Cons.prems by (simp_all add: nth_append)
  consider "x = SPACE" | "x = QUESTION" | "x \<noteq> SPACE" "x \<noteq> QUESTION" by blast
  then show ?case
  proof cases
    case 1
    moreover have "slice_range sdata (int (length a)) (int i) = Some p"
      using Cons.prems(1,2) by (simp add: slice_range_def)
    ultimately show ?thesis using at Cons.prems(1,2) by (subst scan_target.simps) simp
  next
    case 2
    with at Cons.prems have "scan_target sdata i (length a) (-1) req =
        scan_target sdata (i + 1) (length a) (int i - int (length a)) req"
      by (subst scan_target.simps) simp
    also have "\<dots> = (if SPACE \<in> set d then None else Some (length sdata, length a, req))"
      using Cons.prems by (intro scan_target_query [of _ _ "p @ [x]"]) simp_all
    finally show ?thesis using 2 by (auto simp: cut_byte_None cut_byte_Some split: option.splits)
  next
    case 3
    with at Cons.prems Cons.IH [of "p @ [x]" "i + 1"] show ?thesis
      by (subst scan_target.simps) (auto split: option.splits)
  qed
qed

lemma scan_method_reads:
  assumes "sdata = p @ d" and "i = length p"
  shows "scan_method sdata i 0 req =
    (case cut_byte SPACE d of
       None \<Rightarrow> Some (length sdata, 0, req)
     | Some (m, d1) \<Rightarrow>
         scan_target sdata (length sdata - length d1) (length sdata - length d1) (-1) (req\<lparr>hq_method := p @ m\<rparr>))"
  using assms
proof (induction d arbitrary: p i)
  case Nil
  then show ?case by (subst scan_method.simps) simp
next
  case (Cons x d)
  have at: "i < length sdata" "sdata ! i = x" using Cons.prems by (simp_all add: nth_append)
  show ?case
  proof (cases "x = SPACE")
    case True
    moreover have "slice_range sdata 0 (int i) = Some p"
      using Cons.prems by (simp add: slice_range_def)
    ultimately show ?thesis using at Cons.prems by (subst scan_method.simps) simp
  next
    case False
    with at Cons.prems Cons.IH [of "p @ [x]" "i + 1"] show ?thesis
      by (subst scan_method.simps) (auto split: option.splits)
  qed
qed

text \<open>What the parser returns once it has the header.\<close>

definition http_finish ::
  "bytes \<Rightarrow> int \<Rightarrow> 'c HttpRequest \<Rightarrow> bytes \<times> http_error option \<times> bool \<times> 'c HttpRequest" where
  "http_finish d4 clen req =
     (if clen > int (length d4) then (d4, None, False, req)
      else (drop (nat clen) d4, None, True, if clen > 0 then req\<lparr>hq_body := take (nat clen) d4\<rparr> else req))"

lemma scan_headers_reads:
  assumes "sdata = t @ a @ p @ d" and "i = length t + length a + length p" and "length t > 1"
    and "last (t @ a) \<noteq> CR" and "cut_crlf p = None"
  shows "scan_headers sdata (length t) i (length t + length a) clen req =
    (case read_headers (p @ d) clen of
       None \<Rightarrow> Some (sdata, None, False, req)
     | Some (cl, d4) \<Rightarrow> Some (http_finish d4 cl
         (req\<lparr>hq_bodyLen := cl, hq_head := take (length sdata - length t - length d4) (drop (length t) sdata)\<rparr>)))"
  using assms
proof (induction d arbitrary: a p i clen)
  case Nil
  then show ?case by (subst scan_headers.simps, subst read_headers.simps) simp
next
  case (Cons x d)
  have ta: "t @ a \<noteq> []" using Cons.prems(3) by auto
  have "sdata = (t @ a) @ p @ x # d" and "i = length (t @ a) + length p" using Cons.prems(1,2) by simp_all
  note at = at_boundary [OF this ta]
  show ?case
  proof (cases "x = LF \<and> p \<noteq> [] \<and> last p = CR")
    case True
    then obtain p' where p: "p = p' @ [CR]" by (metis append_butlast_last_id)
    with Cons.prems(5) have cut: "cut_crlf (p @ x # d) = Some (p', d)"
      using True cut_crlf_hit [of p' d] by simp
    have line: "slice_range sdata (int (length t + length a)) (int i - 1) = Some p'"
      using Cons.prems(1,2) by (simp add: slice_range_def p)
    have nl: "i > 1 \<and> sdata ! i = LF \<and> sdata ! (i - 1) = CR"
      using True at Cons.prems(2,3) by simp
    show ?thesis
    proof (cases "p' = []")
      case False
      define cl where "cl = (case getContentLength p' of (ok, cl) \<Rightarrow> if ok then cl else clen)"
      have "scan_headers sdata (length t) i (length t + length a) clen req =
          scan_headers sdata (length t) (i + 1) (i + 1) cl req"
        using False at(1) nl line by (subst scan_headers.simps) (simp add: cl_def split: prod.split)
      moreover have "read_headers (p @ x # d) clen = read_headers d cl"
        using cut False by (subst read_headers.simps) (simp add: cl_def split: prod.split)
      moreover have "i + 1 = length t + length (a @ p @ [x])" using Cons.prems(2) by simp
      ultimately show ?thesis
        using Cons.prems(1-3) True Cons.IH [of "a @ p @ [x]" "[]" "i + 1" cl] by (simp add: add.assoc)
    next
      case True
      have "read_headers (p @ x # d) clen = Some (clen, d)"
        using cut True by (subst read_headers.simps) simp
      moreover have "slice_range sdata (int (length t)) (int i + 1) =
          Some (take (length sdata - length t - length d) (drop (length t) sdata))"
        using Cons.prems(1,2) by (simp add: slice_range_def nat_add_distrib)
      moreover have "slice_from sdata (int i + 1) = Some d"
        using Cons.prems(1,2) by (simp add: slice_from_def slice_range_def nat_add_distrib)
      ultimately show ?thesis
        using True at(1) nl line Cons.prems(1,2)
        by (subst scan_headers.simps) (auto simp: http_finish_def slice_range_def slice_from_def nat_add_distrib)
    qed
  next
    case False
    with Cons.prems(4) have "\<not> (x = LF \<and> last ((t @ a) @ p) = CR)"
      by (auto simp: last_append split: if_splits)
    then have "scan_headers sdata (length t) i (length t + length a) clen req =
        scan_headers sdata (length t) (i + 1) (length t + length a) clen req"
      using at by (subst scan_headers.simps) auto
    then show ?thesis
      using Cons.prems Cons.IH [of a "p @ [x]" "i + 1" clen] cut_crlf_miss [OF Cons.prems(5) False] by simp
  qed
qed

lemma scan_request_line:
  assumes "cut_byte SPACE d = Some (m, d1)" and "cut_byte SPACE d1 = Some (t, d2)"
  shows "scan_method d 0 0 req =
    (if QUESTION \<in> set t then None
     else case cut_crlf d2 of
       None \<Rightarrow> Some (length d, length d - length d2, req\<lparr>hq_method := m, hq_path := t\<rparr>)
     | Some (p, d3) \<Rightarrow> Some (length d - length d3, length d - length d3,
         req\<lparr>hq_method := m, hq_path := t, hq_proto := p @ [CR]\<rparr>))"
proof -
  from assms have d: "d = m @ SPACE # d1" and d1: "d1 = t @ SPACE # d2" by (simp_all add: cut_byte_Some)
  let ?req = "req\<lparr>hq_method := m\<rparr>"
  have "scan_method d 0 0 req = scan_target d (length d - length d1) (length d - length d1) (-1) ?req"
    using scan_method_reads [of d "[]" d 0 req] assms(1) by simp
  also have "\<dots> = (if QUESTION \<in> set t then None
      else scan_proto d (length d - length d2) (length d - length d2) (?req\<lparr>hq_path := t\<rparr>))"
    using scan_target_reads [of d "m @ [SPACE]" "[]" d1 "length m + 1" ?req] d assms(2) by simp
  also have "\<dots> = (if QUESTION \<in> set t then None
     else case cut_crlf d2 of
       None \<Rightarrow> Some (length d, length d - length d2, ?req\<lparr>hq_path := t\<rparr>)
     | Some (p, d3) \<Rightarrow> Some (length d - length d3, length d - length d3, ?req\<lparr>hq_path := t, hq_proto := p @ [CR]\<rparr>))"
    using scan_proto_reads [of d "m @ SPACE # t @ [SPACE]" "[]" d2 "length m + length t + 2" "?req\<lparr>hq_path := t\<rparr>"]
    by (cases "cut_crlf d2") (auto simp: d d1)
  finally show ?thesis by simp
qed

lemma http_read_Some_iff:
  "http_read d = Some (Some (m, t, p, h, cl, d4)) \<longleftrightarrow>
   (\<exists>d1 d2 d3 p'. cut_byte SPACE d = Some (m, d1) \<and> cut_byte SPACE d1 = Some (t, d2) \<and> QUESTION \<notin> set t \<and>
     cut_crlf d2 = Some (p', d3) \<and> p = p' @ [CR] \<and> read_headers d3 0 = Some (cl, d4) \<and>
     h = take (length d3 - length d4) d3)"
  by (auto simp: http_read_def split: option.splits prod.splits if_splits)

lemma http_read_None_iff:
  "http_read d = None \<longleftrightarrow>
   (\<exists>m d1 t d2. cut_byte SPACE d = Some (m, d1) \<and> cut_byte SPACE d1 = Some (t, d2) \<and> QUESTION \<in> set t)"
  by (auto simp: http_read_def split: option.splits prod.splits if_splits)

lemma parsereq_reads_panic:
  assumes "hq_bodyLen req \<le> 0" and "http_read d = None"
  shows "parsereq d req = None"
  using assms by (auto simp: http_read_None_iff parsereq_def scan_request_line)

lemma parsereq_reads_header:
  assumes "hq_bodyLen req \<le> 0" and "http_read d = Some (Some (m, t, p, h, cl, d4))"
  shows "parsereq d req = Some (http_finish d4 cl
    (req\<lparr>hq_method := m, hq_path := t, hq_proto := p, hq_bodyLen := cl, hq_head := h\<rparr>))"
proof -
  from assms(2) obtain d1 d2 d3 p' where
    c: "cut_byte SPACE d = Some (m, d1)" "cut_byte SPACE d1 = Some (t, d2)" "QUESTION \<notin> set t"
      "cut_crlf d2 = Some (p', d3)" "p = p' @ [CR]" "read_headers d3 0 = Some (cl, d4)"
      "h = take (length d3 - length d4) d3"
    by (auto simp: http_read_Some_iff)
  define l where "l = m @ SPACE # t @ SPACE # p' @ [CR, LF]"
  from c have d: "d = l @ d3" by (auto simp: cut_byte_Some l_def dest: cut_crlf_split)
  have l: "length l > 1" "last l \<noteq> CR" by (simp_all add: l_def)
  show ?thesis
    using assms(1) c l scan_request_line [OF c(1,2), of req]
      scan_headers_reads [of d l "[]" "[]" d3 "length l" 0 "req\<lparr>hq_method := m, hq_path := t, hq_proto := p\<rparr>"]
    by (simp add: parsereq_def Let_def d slice_to_def slice_range_def)
qed

lemma parsereq_reads_more:
  assumes "hq_bodyLen req \<le> 0" and "hq_proto req = []" and "http_read d = Some None"
  shows "\<exists>req'. parsereq d req = Some (d, None, False, req')"
proof (cases "cut_byte SPACE d")
  case None
  with assms show ?thesis
    using scan_method_reads [of d "[]" d 0 req] by (simp add: parsereq_def)
next
  case c1: (Some md)
  obtain m d1 where md: "md = (m, d1)" by (cases md)
  show ?thesis
  proof (cases "cut_byte SPACE d1")
    case None
    have "d = m @ SPACE # d1" using c1 md by (simp add: cut_byte_Some)
    with None c1 md assms show ?thesis
      using scan_method_reads [of d "[]" d 0 req]
        scan_target_reads [of d "m @ [SPACE]" "[]" d1 "length m + 1" "req\<lparr>hq_method := m\<rparr>"]
      by (simp add: parsereq_def)
  next
    case c2: (Some td)
    obtain t d2 where td: "td = (t, d2)" by (cases td)
    with assms(3) c1 c2 md have q: "QUESTION \<notin> set t" by (auto simp: http_read_def)
    show ?thesis
    proof (cases "cut_crlf d2")
      case None
      with assms c1 c2 md td q show ?thesis by (simp add: parsereq_def scan_request_line)
    next
      case c3: (Some pd)
      obtain p' d3 where pd: "pd = (p', d3)" by (cases pd)
      define l where "l = m @ SPACE # t @ SPACE # p' @ [CR, LF]"
      have "d = l @ d3" using c1 c2 c3 md td pd by (auto simp: cut_byte_Some l_def dest: cut_crlf_split)
      moreover have "length l > 1" "last l \<noteq> CR" by (simp_all add: l_def)
      moreover have "read_headers d3 0 = None"
        using assms(3) c1 c2 c3 md td pd q by (auto simp: http_read_def split: option.splits)
      ultimately show ?thesis
        using assms(1) c1 c2 c3 md td pd q
          scan_headers_reads [of d l "[]" "[]" d3 "length l" 0 "req\<lparr>hq_method := m, hq_path := t, hq_proto := p' @ [CR]\<rparr>"]
        by (simp add: parsereq_def Let_def scan_request_line slice_to_def slice_range_def)
    qed
  qed
qed

end
