(* ===== verification/Http_Server.thy ===== *)
theory Http_Server
  imports Http_Parser
begin

text \<open>
  The \<^verbatim>\<open>Data\<close> event of \<^verbatim>\<open>ServeListenHttp\<close> in \<^verbatim>\<open>http_server.go\<close>: the pipeline loop that parses one request
  after the other and puts them on the worker queue. The HTTP reader and the handler are an
  instance of the interfaces of \<open>Input_Stream\<close>; the rests a handler keeps here are the ones in
  which the header is not complete.
\<close>

subsection \<open>The reader on longer input\<close>

lemma read_headers_suffix: "read_headers d clen = Some (cl, r) \<Longrightarrow> \<exists>p. p \<noteq> [] \<and> d = p @ r"
proof (induction d clen rule: read_headers.induct)
  case (1 d clen)
  show ?case
  proof (cases "cut_crlf d")
    case None
    with 1(2) show ?thesis by (subst (asm) read_headers.simps) simp
  next
    case (Some ld)
    then obtain line d' where c: "cut_crlf d = Some (line, d')" by (cases ld) simp
    with cut_crlf_split have d: "d = line @ CR # LF # d'" by blast
    show ?thesis
    proof (cases "line = []")
      case True
      with c 1(2) d show ?thesis by (subst (asm) read_headers.simps) auto
    next
      case False
      obtain ok k where g: "getContentLength line = (ok, k)" by fastforce
      with c False 1(2) have "read_headers d' (if ok then k else clen) = Some (cl, r)"
        by (subst (asm) read_headers.simps) simp
      with 1(1) [OF c refl False g [symmetric]] d show ?thesis by auto
    qed
  qed
qed

lemma read_headers_append: "read_headers d clen = Some (cl, r) \<Longrightarrow> read_headers (d @ x) clen = Some (cl, r @ x)"
proof (induction d clen rule: read_headers.induct)
  case (1 d clen)
  show ?case
  proof (cases "cut_crlf d")
    case None
    with 1(2) show ?thesis by (subst (asm) read_headers.simps) simp
  next
    case (Some ld)
    then obtain line d' where c: "cut_crlf d = Some (line, d')" by (cases ld) simp
    with cut_crlf_append have cx: "cut_crlf (d @ x) = Some (line, d' @ x)" by blast
    show ?thesis
    proof (cases "line = []")
      case True
      with c cx 1(2) show ?thesis by (subst read_headers.simps, subst (asm) read_headers.simps) simp
    next
      case False
      obtain ok k where g: "getContentLength line = (ok, k)" by fastforce
      with c False 1(2) have "read_headers d' (if ok then k else clen) = Some (cl, r)"
        by (subst (asm) read_headers.simps) simp
      with 1(1) [OF c refl False g [symmetric]] cx False g show ?thesis
        by (subst read_headers.simps) simp
    qed
  qed
qed

lemma cut_byte_append: "cut_byte c d = Some (p, r) \<Longrightarrow> cut_byte c (d @ x) = Some (p, r @ x)"
  by (auto simp: cut_byte_Some)

lemma http_read_append:
  assumes "http_read d = Some (Some (m, t, p, h, cl, d4))"
  shows "http_read (d @ x) = Some (Some (m, t, p, h, cl, d4 @ x))"
proof -
  from assms obtain d1 d2 d3 p' where
    c: "cut_byte SPACE d = Some (m, d1)" "cut_byte SPACE d1 = Some (t, d2)" "QUESTION \<notin> set t"
      "cut_crlf d2 = Some (p', d3)" "p = p' @ [CR]" "read_headers d3 0 = Some (cl, d4)"
      "h = take (length d3 - length d4) d3"
    by (auto simp: http_read_Some_iff)
  from read_headers_suffix [OF c(6)] c(7) have "h = take (length (d3 @ x) - length (d4 @ x)) (d3 @ x)" by auto
  with c show ?thesis
    unfolding http_read_Some_iff
    by (blast intro: cut_byte_append cut_crlf_append read_headers_append)
qed

lemma http_read_panic_append: "http_read d = None \<Longrightarrow> http_read (d @ x) = None"
  unfolding http_read_None_iff by (blast intro: cut_byte_append)

lemma http_read_suffix:
  "http_read d = Some (Some (m, t, p, h, cl, d4)) \<Longrightarrow> \<exists>q. q \<noteq> [] \<and> d = q @ d4"
  by (auto simp: http_read_Some_iff cut_byte_Some dest!: cut_crlf_split read_headers_suffix)

subsection \<open>ServeListenHttp\<close>

definition new_HttpContext :: "'c HttpContext" where
  "new_HttpContext = \<lparr>hc_is = \<lparr>is_b = []\<rparr>, hc_req = None\<rparr>"

text \<open>The \<^verbatim>\<open>Opened\<close> event sets a fresh context.\<close>

definition http_Opened :: "'c HttpContext option \<times> bytes \<times> Options \<times> Action" where
  "http_Opened = (Some new_HttpContext, [], \<lparr>TCPKeepAlive = 0, ReuseInputBuffer = False\<rparr>, NoAction)"

abbreviation (input) http_zero :: "'c \<Rightarrow> 'c HttpRequest" where
  "http_zero c \<equiv> new_HttpRequest\<lparr>hq_conn := Some c\<rparr>"

lemma http_zero_simps [simp]: "hq_bodyLen (http_zero c) = 0" "hq_proto (http_zero c) = []"
  by (simp_all add: new_HttpRequest_def)

lemma parsereq_shorter:
  assumes "parsereq d (http_zero c) = Some (l, e, True, r)"
  shows "length l < length d"
proof -
  obtain res where res: "http_read d = Some (Some res)"
  proof (cases "http_read d")
    case None
    with assms parsereq_reads_panic [of "http_zero c" d] show ?thesis by simp
  next
    case (Some o')
    with assms that parsereq_reads_more [of "http_zero c" d] show ?thesis by (cases o') auto
  qed
  obtain m t p h cl d4 where "res = (m, t, p, h, cl, d4)" by (cases res)
  with res have r: "http_read d = Some (Some (m, t, p, h, cl, d4))" by simp
  from http_read_suffix [OF r] have "length d4 < length d" by auto
  with assms parsereq_reads_header [OF _ r, of "http_zero c"] show ?thesis
    by (auto simp: http_finish_def split: if_splits)
qed

text \<open>
  The pipeline loop: every round starts a new request and drops the stream's buffer; \<open>q\<close> collects
  what goes to the worker queue. At most one response is written per event, so the date is one
  parameter.
\<close>

function http_Data_loop ::
  "bytes \<Rightarrow> 'c \<Rightarrow> 'c HttpContext \<Rightarrow> bytes \<Rightarrow> bytes \<Rightarrow> 'c HttpRequest list \<Rightarrow>
   ('c HttpContext \<times> bytes \<times> 'c HttpRequest list \<times> bytes \<times> Action) go" where
  "http_Data_loop date c ctx data out q =
     (if length data > 0 then
        let req = new_HttpRequest;
            ctx = ctx\<lparr>hc_is := (hc_is ctx)\<lparr>is_b := []\<rparr>\<rparr>;
            req = req\<lparr>hq_conn := Some c\<rparr>
        in case parsereq data req of
          None \<Rightarrow> None
        | Some (leftover, err, ready, req) \<Rightarrow>
            if err \<noteq> None then
              Some (ctx\<lparr>hc_req := Some req\<rparr>, data, q,
                AppendResp date out (str ''500 Error'') [] (http_error_Error (the err) @ [LF]), Close)
            else if \<not> ready then Some (ctx\<lparr>hc_req := Some req\<rparr>, leftover, q, out, NoAction)
            else case ParseFormBody req of
              None \<Rightarrow> None
            | Some (err, req) \<Rightarrow>
                if err \<noteq> None then
                  Some (ctx\<lparr>hc_req := Some req\<rparr>, data, q,
                    AppendResp date out (str ''500 Error'') [] (http_error_Error (the err) @ [LF]), Close)
                else http_Data_loop date c (ctx\<lparr>hc_req := None\<rparr>) leftover out (q @ [req])
      else Some (ctx, data, q, out, NoAction))"
  by pat_completeness auto
termination
  by (relation "measure (\<lambda>(date, c, ctx, data, out, q). length data)")
    (auto dest!: parsereq_shorter)

declare http_Data_loop.simps [simp del]

definition http_Data ::
  "bytes \<Rightarrow> 'c \<Rightarrow> 'c HttpContext \<Rightarrow> bytes option \<Rightarrow>
   ('c HttpContext \<times> 'c HttpRequest list \<times> bytes \<times> Action) go" where
  "http_Data date c ctx inp =
     (case inp of
        None \<Rightarrow> Some (ctx, [], [], NoAction)
      | Some packet \<Rightarrow> do {
          let (is, data) = Begin (hc_is ctx) packet;
          (ctx, data, q, out, action) \<leftarrow> http_Data_loop date c (ctx\<lparr>hc_is := is\<rparr>) data [] [];
          Some (ctx\<lparr>hc_is := End (hc_is ctx) data\<rparr>, q, out, action)
        })"

text \<open>The parser and the event as the interface of \<open>Input_Stream\<close> sees them.\<close>

definition http_frame :: "'c \<Rightarrow> bytes \<Rightarrow> 'c HttpRequest frame go" where
  "http_frame c d =
     (case parsereq d (http_zero c) of
        None \<Rightarrow> None
      | Some (l, err, ready, req) \<Rightarrow>
          if err \<noteq> None then Some Malformed
          else if \<not> ready then Some (Incomplete l)
          else case ParseFormBody req of
            None \<Rightarrow> None
          | Some (err, req) \<Rightarrow> Some (if err \<noteq> None then Malformed else Parsed l req))"

definition http_feed ::
  "bytes \<Rightarrow> 'c \<Rightarrow> 'c HttpContext \<Rightarrow> bytes \<Rightarrow> ('c HttpContext \<times> 'c HttpRequest list) go" where
  "http_feed date c ctx packet =
     (case http_Data date c ctx (Some packet) of
        Some (ctx', q, out, action) \<Rightarrow> if action = NoAction then Some (ctx', q) else None
      | None \<Rightarrow> None)"

definition http_kept :: "bytes \<Rightarrow> bool" where
  "http_kept d \<longleftrightarrow> http_read d = Some None"

text \<open>Reading the form never panics: the index behind the equals sign is in range.\<close>

lemma form_value_total: "form_value kv = Some (drop (nat (IndexByte kv EQUALS + 1)) kv)"
  using IndexByte_bound [of kv EQUALS] by (simp add: form_value_def slice_from_def slice_range_def)

lemma ParseFormBody_total: "\<exists>err req'. ParseFormBody req = Some (err, req')"
  by (simp add: ParseFormBody_def form_value_total Let_def)

lemma ParseFormBody_error:
  "length (Split (hq_body req) [AMP]) \<noteq> 4 \<Longrightarrow> ParseFormBody req = Some (Some ParseFormBodyError, req)"
  by (simp add: ParseFormBody_def Let_def)

lemma http_frame_panic: "http_read d = None \<Longrightarrow> http_frame c d = None"
  by (simp add: http_frame_def parsereq_reads_panic)

lemma http_frame_more: "http_read d = Some None \<Longrightarrow> http_frame c d = Some (Incomplete d)"
  using parsereq_reads_more [of "http_zero c" d] by (auto simp: http_frame_def)

definition http_got :: "'c \<Rightarrow> gostring \<Rightarrow> gostring \<Rightarrow> gostring \<Rightarrow> gostring \<Rightarrow> int \<Rightarrow> bytes \<Rightarrow> 'c HttpRequest" where
  "http_got c m t p h cl d4 =
     (let req = (http_zero c)\<lparr>hq_method := m, hq_path := t, hq_proto := p, hq_bodyLen := cl, hq_head := h\<rparr>
      in if cl > 0 then req\<lparr>hq_body := take (nat cl) d4\<rparr> else req)"

lemma http_frame_header:
  assumes "http_read d = Some (Some (m, t, p, h, cl, d4))"
  shows "http_frame c d =
    (if cl > int (length d4) then Some (Incomplete d4)
     else case ParseFormBody (http_got c m t p h cl d4) of
       None \<Rightarrow> None
     | Some (err, req) \<Rightarrow> Some (if err \<noteq> None then Malformed else Parsed (drop (nat cl) d4) req))"
  using parsereq_reads_header [OF _ assms, of "http_zero c"]
  by (auto simp: http_frame_def http_finish_def http_got_def Let_def split: option.splits)

lemma http_read_cases:
  obtains (panic) "http_read d = None" | (more) "http_read d = Some None"
  | (header) m t p h cl d4 where "http_read d = Some (Some (m, t, p, h, cl, d4))"
proof (cases "http_read d")
  case (Some res)
  then show ?thesis using more header by (cases res) auto
qed (rule panic)

lemma http_frame_append:
  assumes "http_frame c d = Some f" and "\<And>l. f \<noteq> Incomplete l"
  shows "http_frame c (d @ x) = Some (case f of Parsed l r \<Rightarrow> Parsed (l @ x) r | _ \<Rightarrow> f)"
proof -
  from assms obtain m t p h cl d4 where r: "http_read d = Some (Some (m, t, p, h, cl, d4))"
    using http_frame_panic [of d c] http_frame_more [of d c] by (cases rule: http_read_cases [of d]) auto
  have le: "\<not> cl > int (length d4)" using assms(1) assms(2) [of d4] http_frame_header [OF r, of c] by auto
  then have "nat cl - length d4 = 0" by simp
  then have "http_got c m t p h cl (d4 @ x) = http_got c m t p h cl d4" by (simp add: http_got_def Let_def)
  with le assms(1) http_frame_header [OF r, of c] http_frame_header [OF http_read_append [OF r], of c x] show ?thesis
    by (auto split: option.splits)
qed

interpretation http_parser: frame_parser "http_frame c" "\<lambda>_. True" for c :: 'c
proof
  fix d x :: bytes
  show "http_frame c [] = Some (Incomplete [])" by (rule http_frame_more) (simp add: http_read_def)
  show "\<exists>p. p \<noteq> [] \<and> d = p @ l" if f: "http_frame c d = Some (Parsed l r)" for l r
  proof (cases rule: http_read_cases [of d])
    case (header m t p h cl d4)
    then obtain q where "q \<noteq> []" "d = q @ d4" using http_read_suffix by blast
    moreover have "l = drop (nat cl) d4"
      using f http_frame_header [OF header, of c] by (auto split: option.splits if_splits)
    ultimately have "d = (q @ take (nat cl) d4) @ l" by simp
    with \<open>q \<noteq> []\<close> show ?thesis by blast
  qed (use f http_frame_panic [of d c] http_frame_more [of d c] in auto)
  show "http_frame c (d @ x) = Some (Parsed (l @ x) r)" if "http_frame c d = Some (Parsed l r)" for l r
    using http_frame_append [OF that] by simp
  show "http_frame c (d @ x) = Some Malformed" if "http_frame c d = Some Malformed"
    using http_frame_append [OF that] by simp
  show "http_frame c (d @ x) = None" if "http_frame c d = None"
  proof (cases rule: http_read_cases [of d])
    case panic
    then show ?thesis by (intro http_frame_panic http_read_panic_append)
  next
    case more
    with that http_frame_more [of d c] show ?thesis by simp
  next
    case (header m t p h cl d4)
    with that ParseFormBody_total [of "http_got c m t p h cl d4"] http_frame_header [OF header, of c]
    show ?thesis by (auto split: if_splits)
  qed
qed simp_all

lemma http_frame_Parsed:
  assumes "http_frame c d = Some (Parsed l r)"
  obtains r0 where "parsereq d (http_zero c) = Some (l, None, True, r0)" "ParseFormBody r0 = Some (None, r)"
  using assms that by (auto simp: http_frame_def split: option.splits if_splits prod.splits)

lemma http_Data_loop_frames:
  assumes "frames (http_frame c) d rs e" and "http_kept e"
  shows "\<exists>ctx'. http_Data_loop date c ctx d out q = Some (ctx', e, q @ rs, out, NoAction) \<and>
    (d = [] \<and> ctx' = ctx \<or> is_b (hc_is ctx') = [])"
  using assms
proof (induction arbitrary: ctx q rule: frames.induct)
  case (frames_rest d l)
  then obtain r where "parsereq d (http_zero c) = Some (d, None, False, r)"
    using parsereq_reads_more [of "http_zero c" d] by (auto simp: http_kept_def)
  then show ?case by (subst http_Data_loop.simps) auto
next
  case (frames_next d l r rs e)
  from frames_next.hyps(1) obtain r0 where
    p: "parsereq d (http_zero c) = Some (l, None, True, r0)" "ParseFormBody r0 = Some (None, r)"
    by (rule http_frame_Parsed)
  from parsereq_shorter [OF p(1)] have d: "d \<noteq> []" by auto
  let ?ctx = "ctx\<lparr>hc_is := (hc_is ctx)\<lparr>is_b := []\<rparr>, hc_req := None\<rparr>"
  from frames_next.IH [OF frames_next.prems, of ?ctx "q @ [r]"] obtain ctx' where
    "http_Data_loop date c ?ctx l out (q @ [r]) = Some (ctx', e, q @ r # rs, out, NoAction)"
    "is_b (hc_is ctx') = []" by auto
  with d p show ?case by (subst http_Data_loop.simps) simp
qed

lemma http_feed_frames:
  assumes "frames (http_frame c) (is_b (hc_is ctx) @ packet) rs e" and "http_kept e"
  shows "\<exists>ctx'. http_feed date c ctx packet = Some (ctx', rs) \<and> is_b (hc_is ctx') = e"
proof -
  obtain is' d where b: "Begin (hc_is ctx) packet = (is', d)" by fastforce
  then have d: "d = is_b (hc_is ctx) @ packet" using Begin_data [of "hc_is ctx" packet] by simp
  from http_Data_loop_frames [OF assms, of date "ctx\<lparr>hc_is := is'\<rparr>" "[]" "[]"] obtain ctx' where
    l: "http_Data_loop date c (ctx\<lparr>hc_is := is'\<rparr>) d [] [] = Some (ctx', e, rs, [], NoAction)" and
    c: "d = [] \<and> ctx' = ctx\<lparr>hc_is := is'\<rparr> \<or> is_b (hc_is ctx') = []"
    unfolding d by auto
  have "is_b (End (hc_is ctx') e) = e"
  proof (cases "d = []")
    case True
    with assms(1) d have "e = []" by (simp add: http_parser.frames_nil_iff)
    then show ?thesis by (simp add: End_empty)
  next
    case False
    with c show ?thesis by (simp add: End_def)
  qed
  with b l show ?thesis by (simp add: http_feed_def http_Data_def)
qed

interpretation http_stream:
  stream_handler "http_frame c" "\<lambda>_. True" "http_feed date c" "\<lambda>ctx. is_b (hc_is ctx)" http_kept
  for c :: 'c and date
  by unfold_locales (rule http_feed_frames)

subsection \<open>Requests as a client writes them\<close>

record http_msg =
  hm_method :: gostring
  hm_target :: gostring
  hm_proto :: gostring
  hm_headers :: "gostring list"
  hm_form :: "(gostring \<times> gostring) list"

fun form_body :: "(gostring \<times> gostring) list \<Rightarrow> gostring" where
  "form_body [] = []"
| "form_body [(k, v)] = k @ EQUALS # v"
| "form_body ((k, v) # f) = k @ EQUALS # v @ AMP # form_body f"

definition http_head :: "http_msg \<Rightarrow> bytes" where
  "http_head m = concat (map (\<lambda>l. l @ [CR, LF]) (hm_headers m)) @ [CR, LF]"

definition http_front :: "http_msg \<Rightarrow> bytes" where
  "http_front m = hm_method m @ SPACE # hm_target m @ SPACE # hm_proto m @ CR # LF # http_head m"

definition http_packet :: "http_msg \<Rightarrow> bytes" where
  "http_packet m = http_front m @ form_body (hm_form m)"

text \<open>The content length the header lines announce.\<close>

fun announced :: "int \<Rightarrow> gostring list \<Rightarrow> int" where
  "announced cl [] = cl"
| "announced cl (l # ls) = (let (ok, k) = getContentLength l in announced (if ok then k else cl) ls)"

definition http_front_ok :: "http_msg \<Rightarrow> bool" where
  "http_front_ok m \<longleftrightarrow> SPACE \<notin> set (hm_method m) \<and> SPACE \<notin> set (hm_target m) \<and>
     QUESTION \<notin> set (hm_target m) \<and> LF \<notin> set (hm_proto m) \<and>
     list_all (\<lambda>l. l \<noteq> [] \<and> LF \<notin> set l) (hm_headers m)"

definition http_msg_ok :: "http_msg \<Rightarrow> bool" where
  "http_msg_ok m \<longleftrightarrow> http_front_ok m \<and>
     announced 0 (hm_headers m) = int (length (form_body (hm_form m))) \<and>
     length (hm_form m) = 4 \<and>
     list_all (\<lambda>(k, v). EQUALS \<notin> set k \<and> AMP \<notin> set k \<and> AMP \<notin> set v) (hm_form m)"

definition http_received :: "'c \<Rightarrow> http_msg \<Rightarrow> 'c HttpRequest" where
  "http_received c m = \<lparr>hq_conn = Some c, hq_proto = hm_proto m @ [CR], hq_method = hm_method m,
     hq_path = hm_target m, hq_query = [], hq_head = http_head m, hq_body = form_body (hm_form m),
     hq_remoteAddr = [], hq_bodyLen = int (length (form_body (hm_form m))),
     hq_interf = snd (hm_form m ! 0), hq_callMethod = snd (hm_form m ! 1),
     hq_parameterTypesString = snd (hm_form m ! 2), hq_parameter = snd (hm_form m ! 3)\<rparr>"

lemma read_headers_lines:
  "list_all (\<lambda>l. l \<noteq> [] \<and> LF \<notin> set l) ls \<Longrightarrow>
   read_headers (concat (map (\<lambda>l. l @ [CR, LF]) ls) @ [CR, LF] @ x) cl = Some (announced cl ls, x)"
proof (induction ls arbitrary: cl)
  case Nil
  show ?case by (subst read_headers.simps) simp
next
  case (Cons l ls)
  then show ?case
    by (subst read_headers.simps) (simp add: cut_crlf_line split: prod.split)
qed

lemma http_read_front:
  assumes "http_front_ok m"
  shows "http_read (http_front m @ x) =
    Some (Some (hm_method m, hm_target m, hm_proto m @ [CR], http_head m, announced 0 (hm_headers m), x))"
proof -
  have "cut_byte SPACE (http_front m @ x) =
      Some (hm_method m, hm_target m @ SPACE # hm_proto m @ CR # LF # http_head m @ x)"
    using assms by (simp add: cut_byte_Some http_front_def http_front_ok_def)
  moreover have "cut_byte SPACE (hm_target m @ SPACE # hm_proto m @ CR # LF # http_head m @ x) =
      Some (hm_target m, hm_proto m @ CR # LF # http_head m @ x)"
    using assms by (simp add: cut_byte_Some http_front_ok_def)
  moreover have "cut_crlf (hm_proto m @ CR # LF # http_head m @ x) = Some (hm_proto m, http_head m @ x)"
    using assms by (simp add: cut_crlf_line http_front_ok_def)
  moreover have "read_headers (http_head m @ x) 0 = Some (announced 0 (hm_headers m), x)"
    using assms read_headers_lines [of "hm_headers m" x 0] by (simp add: http_head_def http_front_ok_def)
  ultimately show ?thesis using assms by (simp add: http_read_def http_front_ok_def)
qed

lemma Split_form:
  assumes "form = [f0, f1, f2, f3]" and "list_all (\<lambda>(k, v). EQUALS \<notin> set k \<and> AMP \<notin> set k \<and> AMP \<notin> set v) form"
  shows "Split (form_body form) [AMP] = map (\<lambda>(k, v). k @ EQUALS # v) form"
proof -
  obtain k0 v0 k1 v1 k2 v2 k3 v3 where f: "f0 = (k0, v0)" "f1 = (k1, v1)" "f2 = (k2, v2)" "f3 = (k3, v3)"
    by (metis surj_pair)
  have cut: "Split (k @ EQUALS # v @ AMP # s) [AMP] = (k @ EQUALS # v) # Split s [AMP]"
    if "AMP \<notin> set k" "AMP \<notin> set v" for k v s :: bytes
    using Split_cut [of AMP "k @ EQUALS # v" s] that by simp
  have last: "Split (k @ EQUALS # v) [AMP] = [k @ EQUALS # v]" if "AMP \<notin> set k" "AMP \<notin> set v" for k v :: bytes
    using that by (intro Split_last) simp
  show ?thesis using assms f by (simp add: cut last)
qed

lemma form_value_pair: "EQUALS \<notin> set k \<Longrightarrow> form_value (k @ EQUALS # v) = Some v"
  by (simp add: form_value_total nat_add_distrib)

lemma http_frame_packet:
  assumes "http_msg_ok m"
  shows "http_frame c (http_packet m @ x) = Some (Parsed x (http_received c m))"
proof -
  let ?body = "form_body (hm_form m)"
  from assms obtain f0 f1 f2 f3 where f: "hm_form m = [f0, f1, f2, f3]"
    by (auto simp: http_msg_ok_def numeral_eq_Suc length_Suc_conv)
  let ?got = "http_got c (hm_method m) (hm_target m) (hm_proto m @ [CR]) (http_head m) (int (length ?body)) (?body @ x)"
  have r: "http_read (http_packet m @ x) = Some (Some (hm_method m, hm_target m, hm_proto m @ [CR],
      http_head m, int (length ?body), ?body @ x))"
    using assms http_read_front [of m "?body @ x"] by (simp add: http_msg_ok_def http_packet_def)
  have kv: "EQUALS \<notin> set (fst f0)" "EQUALS \<notin> set (fst f1)" "EQUALS \<notin> set (fst f2)" "EQUALS \<notin> set (fst f3)"
    using assms f by (auto simp: http_msg_ok_def)
  have "?body \<noteq> []" using f by (cases f0) simp
  then have body: "hq_body ?got = ?body" by (simp add: http_got_def)
  have "Split ?body [AMP] = map (\<lambda>(k, v). k @ EQUALS # v) (hm_form m)"
    using assms f by (intro Split_form) (auto simp: http_msg_ok_def)
  with body kv have "ParseFormBody ?got = Some (None, ?got\<lparr>hq_interf := snd f0, hq_callMethod := snd f1,
      hq_parameterTypesString := snd f2, hq_parameter := snd f3\<rparr>)"
    by (simp add: ParseFormBody_def f form_value_pair split: prod.splits)
  with http_frame_header [OF r, of c] \<open>?body \<noteq> []\<close> show ?thesis
    by (simp add: http_received_def f http_got_def new_HttpRequest_def)
qed

lemma http_frame_kept: "http_kept h \<Longrightarrow> \<exists>l. http_frame c h = Some (Incomplete l)"
  by (auto simp: http_kept_def dest: http_frame_more)

interpretation http_packets:
  packet_stream "http_frame c" "\<lambda>_. True" "http_feed date c" "\<lambda>ctx. is_b (hc_is ctx)" http_kept
    http_packet "http_received c" http_msg_ok for c :: 'c and date
  by unfold_locales (auto intro: http_frame_packet http_frame_kept)

subsection \<open>Single events\<close>

lemma http_Data_incomplete:
  assumes "is_b (hc_is ctx) @ packet \<noteq> []"
    and "parsereq (is_b (hc_is ctx) @ packet) (http_zero c) = Some (l, None, False, r)"
  shows "\<exists>ctx'. http_Data date c ctx (Some packet) = Some (ctx', [], [], NoAction) \<and> is_b (hc_is ctx') = l"
proof -
  obtain is' d where b: "Begin (hc_is ctx) packet = (is', d)" by fastforce
  then have d: "d = is_b (hc_is ctx) @ packet" using Begin_data [of "hc_is ctx" packet] by simp
  let ?ctx = "ctx\<lparr>hc_is := is'\<lparr>is_b := []\<rparr>, hc_req := Some r\<rparr>"
  from assms d have "http_Data_loop date c (ctx\<lparr>hc_is := is'\<rparr>) d [] [] = Some (?ctx, l, [], [], NoAction)"
    by (subst http_Data_loop.simps) simp
  with b show ?thesis by (simp add: http_Data_def End_def)
qed

lemma http_Data_panics:
  assumes "parsereq (is_b (hc_is ctx) @ packet) (http_zero c) = None"
    and "is_b (hc_is ctx) @ packet \<noteq> []"
  shows "http_Data date c ctx (Some packet) = None"
proof -
  obtain is' d where b: "Begin (hc_is ctx) packet = (is', d)" by fastforce
  then have "d = is_b (hc_is ctx) @ packet" using Begin_data [of "hc_is ctx" packet] by simp
  with assms have "http_Data_loop date c (ctx\<lparr>hc_is := is'\<rparr>) d [] [] = None"
    by (subst http_Data_loop.simps) simp
  with b show ?thesis by (simp add: http_Data_def)
qed

lemma http_Data_bad_form:
  assumes "parsereq (is_b (hc_is ctx) @ packet) (http_zero c) = Some (l, None, True, r)"
    and "ParseFormBody r = Some (Some err, r')"
  shows "\<exists>ctx'. http_Data date c ctx (Some packet) =
    Some (ctx', [], AppendResp date [] (str ''500 Error'') [] (http_error_Error err @ [LF]), Close)"
proof -
  obtain is' d where b: "Begin (hc_is ctx) packet = (is', d)" by fastforce
  then have d: "d = is_b (hc_is ctx) @ packet" using Begin_data [of "hc_is ctx" packet] by simp
  from parsereq_shorter [OF assms(1)] have "d \<noteq> []" using d by auto
  let ?ctx = "ctx\<lparr>hc_is := is'\<lparr>is_b := []\<rparr>, hc_req := Some r'\<rparr>"
  from assms d \<open>d \<noteq> []\<close> have "http_Data_loop date c (ctx\<lparr>hc_is := is'\<rparr>) d [] [] =
      Some (?ctx, d, [], AppendResp date [] (str ''500 Error'') [] (http_error_Error err @ [LF]), Close)"
    by (subst http_Data_loop.simps) simp
  with b show ?thesis by (simp add: http_Data_def)
qed

lemma http_front_not_Nil: "http_front m \<noteq> []"
  by (simp add: http_front_def)

text \<open>A concrete request, for the witnesses.\<close>

definition http_ex_msg :: http_msg where
  "http_ex_msg = \<lparr>hm_method = str ''POST'', hm_target = str ''/'', hm_proto = str ''HTTP/1.1'',
     hm_headers = [str ''Host: a'', str ''Content-Length: 15''],
     hm_form = [(str ''i'', str ''H''), (str ''m'', str ''h''), (str ''t'', str ''S''), (str ''p'', str ''x'')]\<rparr>"

lemma http_ex_msg_ok: "http_msg_ok http_ex_msg"
  by (simp add: http_msg_ok_def http_front_ok_def http_ex_msg_def str_def getContentLength_def
      contentLengthHeaderLen_def contentLengthHeaderLower_def contentLengthHeaderUpper_def
      Atoi_def ParseUint_def is_digit_def maxUint64_def)

subsection \<open>Properties\<close>

text \<open>
  C5: the index loops of \<^verbatim>\<open>parsereq\<close> compute the reference reader on every input: they panic exactly
  when the request target has a question mark, ask for more and hand back all of the input
  exactly when the header is not complete, and otherwise return the method, target, protocol,
  header block and body that cutting at the separators gives.
\<close>

theorem parsereq_equals_reference:
  "case http_read d of
     None \<Rightarrow> parsereq d (http_zero c) = None
   | Some None \<Rightarrow> (\<exists>req. parsereq d (http_zero c) = Some (d, None, False, req))
   | Some (Some (m, t, p, h, cl, d4)) \<Rightarrow>
       parsereq d (http_zero c) = Some (http_finish d4 cl
         ((http_zero c)\<lparr>hq_method := m, hq_path := t, hq_proto := p, hq_bodyLen := cl, hq_head := h\<rparr>))"
  using parsereq_reads_panic [of "http_zero c" d] parsereq_reads_more [of "http_zero c" d]
    parsereq_reads_header [of "http_zero c" d]
  by (auto split: option.splits prod.splits)



text \<open>
  C30: a request target with a question mark crashes the server. The offset of the question mark
  is relative to the target but used as an index into the whole input, and the query is cut
  out of the path, which is too short for it; the slice expression panics whatever follows.
\<close>

theorem http_query_panics:
  assumes "is_b (hc_is ctx) = []" and "SPACE \<notin> set meth" and "SPACE \<notin> set target" and "QUESTION \<in> set target"
  shows "http_Data date c ctx (Some (meth @ SPACE # target @ SPACE # rest)) = None"
proof -
  have "http_read (meth @ SPACE # target @ SPACE # rest) = None"
    using assms(2-4) by (auto simp: http_read_None_iff cut_byte_Some)
  then show ?thesis
    using assms(1) parsereq_reads_panic [of "http_zero c"] by (intro http_Data_panics) simp_all
qed

theorem http_query_panics_witness:
  "http_Data [] (5::int) new_HttpContext (Some (str ''GET'' @ SPACE # str ''/a?b'' @ SPACE # [])) = None"
  by (rule http_query_panics) (simp_all add: new_HttpContext_def str_def)

text \<open>
  C31: a request whose body arrives later than its header is lost. The parser hands back only the
  input after the header, the next event starts a new request, and the body is taken for the
  beginning of a request line: nothing is queued, no response is written, and the body stays in
  the stream in front of whatever the client sends next.
\<close>

theorem http_split_body_lost:
  assumes "http_msg_ok m" and "is_b (hc_is ctx) = []"
    and "form_body (hm_form m) = b1 @ b2" and "b2 \<noteq> []" and "SPACE \<notin> set (b1 @ b2)"
  shows "\<exists>ctx1 ctx2. http_Data date c ctx (Some (http_front m @ b1)) = Some (ctx1, [], [], NoAction) \<and>
    http_Data date c ctx1 (Some b2) = Some (ctx2, [], [], NoAction) \<and> is_b (hc_is ctx2) = b1 @ b2"
proof -
  from assms(1,3) have "http_front_ok m" and cl: "announced 0 (hm_headers m) = int (length (b1 @ b2))"
    by (simp_all add: http_msg_ok_def)
  then have "\<exists>r. parsereq (http_front m @ b1) (http_zero c) = Some (b1, None, False, r)"
    using parsereq_reads_header [OF _ http_read_front, of "http_zero c" m b1] assms(4)
    by (simp add: http_finish_def)
  then obtain ctx1 where
    1: "http_Data date c ctx (Some (http_front m @ b1)) = Some (ctx1, [], [], NoAction)" "is_b (hc_is ctx1) = b1"
    using http_Data_incomplete [of ctx "http_front m @ b1" c] assms(2) http_front_not_Nil by fastforce
  have "cut_byte SPACE (b1 @ b2) = None" using assms(5) by (simp add: cut_byte_None)
  then have "http_read (b1 @ b2) = Some None" by (simp add: http_read_def)
  then obtain r where "parsereq (b1 @ b2) (http_zero c) = Some (b1 @ b2, None, False, r)"
    using parsereq_reads_more [of "http_zero c"] by auto
  with 1(2) assms(4) obtain ctx2 where
    "http_Data date c ctx1 (Some b2) = Some (ctx2, [], [], NoAction)" "is_b (hc_is ctx2) = b1 @ b2"
    using http_Data_incomplete [of ctx1 b2 c] by fastforce
  with 1 show ?thesis by blast
qed

theorem http_split_body_lost_witness:
  "\<exists>ctx1 ctx2. http_Data [] (5::int) new_HttpContext (Some (http_front http_ex_msg @ [])) = Some (ctx1, [], [], NoAction) \<and>
    http_Data [] 5 ctx1 (Some (form_body (hm_form http_ex_msg))) = Some (ctx2, [], [], NoAction) \<and>
    is_b (hc_is ctx2) = [] @ form_body (hm_form http_ex_msg)"
  by (rule http_split_body_lost [OF http_ex_msg_ok]) (simp_all add: new_HttpContext_def http_ex_msg_def str_def)

text \<open>
  A complete request whose body is not a form of four fields is answered with an error
  response, the connection is closed, and nothing is queued.
\<close>

lemma http_bad_form_closes:
  assumes "http_front_ok m" and "announced 0 (hm_headers m) = int (length body)"
    and "is_b (hc_is ctx) = []" and "length (Split body [AMP]) \<noteq> 4"
  shows "\<exists>ctx'. http_Data date c ctx (Some (http_front m @ body @ rest)) =
    Some (ctx', [], AppendResp date [] (str ''500 Error'') [] (str ''ParseFormBodyError'' @ [LF]), Close)"
proof -
  let ?req = "(http_zero c)\<lparr>hq_method := hm_method m, hq_path := hm_target m, hq_proto := hm_proto m @ [CR],
    hq_bodyLen := int (length body), hq_head := http_head m\<rparr>"
  let ?r = "if int (length body) > 0 then ?req\<lparr>hq_body := body\<rparr> else ?req"
  have "parsereq (http_front m @ body @ rest) (http_zero c) = Some (rest, None, True, ?r)"
    using parsereq_reads_header [OF _ http_read_front [OF assms(1)], of "http_zero c" "body @ rest"] assms(2)
    by (simp add: http_finish_def)
  moreover have "hq_body ?r = body" by (simp add: new_HttpRequest_def)
  then have "ParseFormBody ?r = Some (Some ParseFormBodyError, ?r)"
    using assms(4) by (intro ParseFormBody_error) simp
  ultimately show ?thesis
    using http_Data_bad_form [of ctx "http_front m @ body @ rest" c rest ?r ParseFormBodyError ?r date] assms(3)
    by (simp add: http_error_Error_def)
qed

lemma http_bad_form_closes_witness:
  "\<exists>ctx'. http_Data [] (5::int) new_HttpContext
      (Some (http_front (http_ex_msg\<lparr>hm_headers := []\<rparr>) @ [] @ [])) =
    Some (ctx', [], AppendResp [] [] (str ''500 Error'') [] (str ''ParseFormBodyError'' @ [LF]), Close)"
  by (rule http_bad_form_closes)
    (simp_all add: http_front_ok_def http_ex_msg_def str_def new_HttpContext_def Split_last)



end
