(* ===== verification/Net_Addr.thy ===== *)
theory Net_Addr
  imports Go_Strings
begin

text \<open>
  Addresses: \<^verbatim>\<open>parseAddr\<close> of \<^verbatim>\<open>evio.go\<close>, which reads the address strings passed to \<^verbatim>\<open>Serve\<close>, and
  \<^verbatim>\<open>SockaddrToAddr\<close> of \<^verbatim>\<open>internal/socktoaddr.go\<close>. The name of a network interface, which
  \<^verbatim>\<open>net.InterfaceByIndex\<close> looks up, is a parameter.
\<close>

subsection \<open>parseAddr\<close>

record addrOpts =
  ao_reusePort :: bool

definition new_addrOpts :: addrOpts where
  "new_addrOpts = \<lparr>ao_reusePort = False\<rparr>"

text \<open>One \<^verbatim>\<open>key=value\<close> part of the query. The letters are T, t, Y and y.\<close>

definition addr_option :: "gostring \<Rightarrow> addrOpts \<Rightarrow> addrOpts" where
  "addr_option part opts =
     (let kv = Split part [61] in
      if length kv = 2 then
        if kv ! 0 = str ''reuseport'' then
          if length (kv ! 1) \<noteq> 0 then
            let c = kv ! 1 ! 0 in
            if c \<in> {84, 116, 89, 121} then opts\<lparr>ao_reusePort := True\<rparr>
            else opts\<lparr>ao_reusePort := (c \<ge> 49 \<and> c \<le> 57)\<rparr>
          else opts
        else opts
      else opts)"

definition parseAddr :: "gostring \<Rightarrow> (gostring \<times> gostring \<times> addrOpts \<times> bool) go" where
  "parseAddr addr = do {
     let network = str ''tcp'';
     let address = addr;
     let opts = new_addrOpts;
     (network, address) \<leftarrow>
       (if Contains address (str ''://'') then do {
          network \<leftarrow> index (Split address (str ''://'')) 0;
          address \<leftarrow> index (Split address (str ''://'')) 1;
          Some (network, address)
        }
        else Some (network, address));
     let stdlib = HasSuffix network (str ''-net'');
     network \<leftarrow> (if stdlib then slice_to network (int (length network) - 4) else Some network);
     let q = Index address [63];
     if q \<noteq> -1 then do {
       query \<leftarrow> slice_from address (q + 1);
       let opts = fold addr_option (Split query [38]) opts;
       address \<leftarrow> slice_to address q;
       Some (network, address, opts, stdlib)
     }
     else Some (network, address, opts, stdlib)
   }"

subsection \<open>SockaddrToAddr\<close>

datatype sockaddr =
    SockaddrInet4 bytes int
  | SockaddrInet6 bytes int u32
  | SockaddrUnix gostring

datatype netaddr = TCPAddr bytes int gostring | UnixAddr gostring gostring

definition SockaddrToAddr :: "(u32 \<Rightarrow> gostring option) \<Rightarrow> sockaddr option \<Rightarrow> netaddr option" where
  "SockaddrToAddr ifname sa =
     (case sa of
        Some (SockaddrInet4 a p) \<Rightarrow> Some (TCPAddr ([] @ a) p [])
      | Some (SockaddrInet6 a p zoneId) \<Rightarrow>
          let zone = (if zoneId \<noteq> 0 then case ifname zoneId of Some name \<Rightarrow> name | None \<Rightarrow> [] else [])
          in Some (TCPAddr ([] @ a) p zone)
      | Some (SockaddrUnix name) \<Rightarrow> Some (UnixAddr (str ''unix'') name)
      | None \<Rightarrow> None)"

subsection \<open>Lemmas\<close>

lemma Index_lower: "-1 \<le> Index s sub"
  by (induction s sub rule: Index.induct) (auto simp: Let_def)

text \<open>A separator in the string makes at least two parts, so \<^verbatim>\<open>Split(..)[1]\<close> is in range.\<close>

lemma Split_two: "sep \<noteq> [] \<Longrightarrow> Contains s sep \<Longrightarrow> 2 \<le> length (Split s sep)"
  using Split_not_Nil [of sep]
  by (subst Split.simps) (auto simp: Contains_def Let_def Suc_le_eq)

lemma Index_cut_free:
  assumes "c \<notin> set p"
  shows "Index (p @ s) (c # sub) = (if Index s (c # sub) < 0 then -1 else Index s (c # sub) + int (length p))"
  using assms
proof (induction p)
  case Nil
  then show ?case using Index_lower [of s "c # sub"] by simp
next
  case (Cons x p)
  then have "\<not> HasPrefix (x # p @ s) (c # sub)" by (auto simp: HasPrefix_def)
  with Cons show ?case by (auto simp: Let_def)
qed

lemma Split_scheme:
  assumes "58 \<notin> set network" and "\<not> Contains rest (str ''://'')"
  shows "Split (network @ str ''://'' @ rest) (str ''://'') = [network, rest]"
    and "Contains (network @ str ''://'' @ rest) (str ''://'')"
proof -
  have sep: "str ''://'' = [58, 47, 47]" by (simp add: str_def)
  have here: "Index ([58, 47, 47] @ rest) [58, 47, 47] = 0" by (simp add: HasPrefix_def)
  have rest: "Index rest [58, 47, 47] = -1"
    using Index_lower [of rest "[58, 47, 47]"] assms(2) by (simp add: Contains_def sep)
  have i: "Index (network @ [58, 47, 47] @ rest) [58, 47, 47] = int (length network)"
    using Index_cut_free [of 58 network "[58, 47, 47] @ rest" "[47, 47]"] assms(1) here by simp
  have "Split rest [58, 47, 47] = [rest]" by (subst Split.simps) (simp add: rest)
  then show "Split (network @ str ''://'' @ rest) (str ''://'') = [network, rest]"
    unfolding sep by (subst Split.simps) (use i in simp)
  show "Contains (network @ str ''://'' @ rest) (str ''://'')"
    unfolding sep Contains_def i by simp
qed

text \<open>
  \<^verbatim>\<open>parseAddr\<close> is total: no address string makes its indexing and slicing panic.
\<close>

lemma parseAddr_total: "\<exists>r. parseAddr addr = Some r"
proof -
  have scheme: "\<exists>n a. (if Contains addr (str ''://'') then do {
      network \<leftarrow> index (Split addr (str ''://'')) 0; address \<leftarrow> index (Split addr (str ''://'')) 1;
      Some (network, address) } else Some (str ''tcp'', addr)) = Some (n, a)"
    using Split_two [of "str ''://''" addr] by (cases "Contains addr (str ''://'')") (auto simp: str_def index_def)
  have net: "\<exists>n'. (if HasSuffix n (str ''-net'') then slice_to n (int (length n) - 4) else Some n) = Some n'" for n
    by (auto simp: HasSuffix_def str_def slice_to_def slice_range_def)
  have query: "\<exists>x y. slice_from a (Index a [63] + 1) = Some x \<and> slice_to a (Index a [63]) = Some y"
    if "Index a [63] \<noteq> -1" for a
    using that Index_lower [of a "[63]"] Index_bound [of a "[63]"]
    by (auto simp: slice_from_def slice_to_def slice_range_def)
  obtain n a n' where "(if Contains addr (str ''://'') then do {
      network \<leftarrow> index (Split addr (str ''://'')) 0; address \<leftarrow> index (Split addr (str ''://'')) 1;
      Some (network, address) } else Some (str ''tcp'', addr)) = Some (n, a)"
    and "(if HasSuffix n (str ''-net'') then slice_to n (int (length n) - 4) else Some n) = Some n'"
    using scheme net by blast
  with query [of a] show ?thesis by (auto simp: parseAddr_def Let_def)
qed

lemma parseAddr_parts:
  assumes "58 \<notin> set network" and "63 \<notin> set address"
    and "\<not> Contains (address @ str ''?reuseport='' @ v # vs) (str ''://'')"
    and "38 \<notin> set (v # vs)" and "61 \<notin> set (v # vs)"
    and "\<not> HasSuffix network (str ''-net'')"
  shows "parseAddr (network @ str ''://'' @ address @ str ''?reuseport='' @ v # vs) =
    Some (network, address, \<lparr>ao_reusePort = (v \<in> {84, 116, 89, 121} \<or> v \<ge> 49 \<and> v \<le> 57)\<rparr>, False)"
proof -
  let ?rest = "address @ str ''?reuseport='' @ v # vs"
  let ?query = "str ''reuseport='' @ v # vs"
  have r: "?rest = address @ 63 # ?query" by (simp add: str_def)
  note scheme = Split_scheme [OF assms(1,3)]
  have q: "Index ?rest [63] = int (length address)"
    unfolding r Index_single using assms(2) by (rule IndexByte_first)
  have "Split ?query [38] = [?query]"
    using assms(4) by (intro Split_last) (simp add: str_def)
  moreover have "Split ?query [61] = [str ''reuseport'', v # vs]"
    using Split_cut [of 61 "str ''reuseport''" "v # vs"] Split_last [of 61 "v # vs"] assms(5)
    by (simp add: str_def)
  ultimately have "fold addr_option (Split ?query [38]) new_addrOpts =
      \<lparr>ao_reusePort = (v \<in> {84, 116, 89, 121} \<or> v \<ge> 49 \<and> v \<le> 57)\<rparr>"
    by (auto simp: addr_option_def new_addrOpts_def Let_def)
  moreover have "slice_from ?rest (int (length address) + 1) = Some ?query"
    unfolding r by (simp add: slice_from_def slice_range_def nat_add_distrib)
  moreover have "slice_to ?rest (int (length address)) = Some address"
    by (simp add: slice_to_def slice_range_def)
  ultimately show ?thesis
    using scheme q assms(6) by (simp add: parseAddr_def Let_def index_def)
qed



end
