(* ===== verification/Note_Queue.thy ===== *)
theory Note_Queue
  imports Prelude
begin

text \<open>
  \<^verbatim>\<open>internal/notequeue.go\<close>: the queue of notes that other goroutines post to an event loop, and the
  spin lock in front of it. \<open>nq_Add\<close> and \<open>nq_ForEach\<close> are the methods run without interference;
  the second half interleaves them atomic operation by atomic operation, with any number of
  goroutines in \<^verbatim>\<open>Poll.Trigger\<close> and one event loop in \<^verbatim>\<open>Poll.Wait\<close>
  (\<^verbatim>\<open>internal/internal_linux.go\<close>), together with the eventfd by which \<^verbatim>\<open>Trigger\<close> wakes the loop.
\<close>

subsection \<open>The methods\<close>

record 'a noteQueue =
  nq_notes :: "'a list"
  nq_n :: "64 word"

definition new_noteQueue :: "'a noteQueue" where
  "new_noteQueue = \<lparr>nq_notes = [], nq_n = 0\<rparr>"

definition nq_Add :: "'a \<Rightarrow> 'a noteQueue \<Rightarrow> bool \<times> 'a noteQueue" where
  "nq_Add note q =
     (let n = nq_n q + 1 in
      (n = 1, q\<lparr>nq_n := n, nq_notes := nq_notes q @ [note]\<rparr>))"

text \<open>The callback reads and changes the caller's state \<open>'s\<close>; \<open>None\<close> is a \<^verbatim>\<open>nil\<close> error.\<close>

fun iter_notes :: "('a \<Rightarrow> 's \<Rightarrow> ('e option \<times> 's) go) \<Rightarrow> 'a list \<Rightarrow> 's \<Rightarrow> ('e option \<times> 's) go" where
  "iter_notes iter [] s = Some (None, s)"
| "iter_notes iter (note # notes) s = do {
     (err, s) \<leftarrow> iter note s;
     if err \<noteq> None then Some (err, s) else iter_notes iter notes s
   }"

text \<open>
  \<^verbatim>\<open>ForEach\<close> takes the notes under the lock and then runs the callback over them. The queue is
  part of the caller's state (\<open>get\<close>, \<open>put\<close>), since a callback may post new notes to it.
\<close>

definition nq_take :: "'a noteQueue \<Rightarrow> 'a list \<times> 'a noteQueue" where
  "nq_take q =
     (if nq_n q = 0 then ([], q)
      else if length (nq_notes q) = 0 then ([], q)
      else let notes = nq_notes q in (notes, q\<lparr>nq_n := 0, nq_notes := []\<rparr>))"

definition nq_ForEach ::
  "('s \<Rightarrow> 'a noteQueue) \<Rightarrow> ('a noteQueue \<Rightarrow> 's \<Rightarrow> 's) \<Rightarrow> ('a \<Rightarrow> 's \<Rightarrow> ('e option \<times> 's) go) \<Rightarrow>
   's \<Rightarrow> ('e option \<times> 's) go" where
  "nq_ForEach get put iter s =
     (let (notes, q) = nq_take (get s) in iter_notes iter notes (put q s))"

definition nq_inv :: "'a noteQueue \<Rightarrow> bool" where
  "nq_inv q \<longleftrightarrow> nq_n q = of_nat (length (nq_notes q)) \<and> length (nq_notes q) < 2 ^ 63"

lemma new_noteQueue_inv: "nq_inv new_noteQueue"
  by (simp add: nq_inv_def new_noteQueue_def)

lemma of_nat_eq_0_64: "n < 2 ^ 63 \<Longrightarrow> (of_nat n = (0 :: 64 word)) = (n = 0)"
  by (simp add: word_of_nat_eq_0_iff dvd_eq_mod_eq_0)

lemma nq_Add_inv:
  "nq_inv q \<Longrightarrow> length (nq_notes q) < 2 ^ 63 - 1 \<Longrightarrow> nq_inv (snd (nq_Add note q))"
  by (simp add: nq_inv_def nq_Add_def Let_def)

text \<open>\<^verbatim>\<open>Add\<close> reports whether the note is the first one.\<close>

lemma nq_Add_one: "nq_inv q \<Longrightarrow> fst (nq_Add note q) = (nq_notes q = [])"
  using of_nat_eq_0_64 [of "length (nq_notes q)"] by (auto simp: nq_inv_def nq_Add_def Let_def)

lemma nq_take_eq: "nq_inv q \<Longrightarrow> nq_take q = (nq_notes q, new_noteQueue)"
  using of_nat_eq_0_64 [of "length (nq_notes q)"]
  by (cases q) (auto simp: nq_take_def nq_inv_def new_noteQueue_def Let_def)

subsection \<open>Interleaved use\<close>

text \<open>
  Where a goroutine is in \<^verbatim>\<open>Trigger\<close>: waiting for the lock in \<^verbatim>\<open>Add\<close>, before the increment, before
  the append, before the unlock, before the write to the eventfd.
\<close>

datatype 'a trigger_pc = TIdle | TLock 'a | TCount 'a | TAppend 'a | TUnlock | TWrite

text \<open>
  Where the event loop is in \<^verbatim>\<open>Wait\<close>: blocked in \<^verbatim>\<open>EpollWait\<close>, or with the events it returned in
  \<^verbatim>\<open>ForEach\<close> (before the load of \<^verbatim>\<open>n\<close>, the lock, the length test, the early unlock, the reset of \<^verbatim>\<open>n\<close>,
  the reset of \<^verbatim>\<open>notes\<close>, the unlock, in the loop over the notes), or in the loop over the events,
  or returned from \<^verbatim>\<open>Wait\<close> after an error. An event is a wake-up (the eventfd) or something else.
\<close>

datatype poll_event = WakeEvent | OtherEvent

datatype 'a wait_pc = WWait | WLoad "poll_event list" | WLock "poll_event list" | WLen "poll_event list"
  | WUnlockEmpty "poll_event list" | WReset "poll_event list" "'a list" | WNil "poll_event list" "'a list"
  | WUnlock "poll_event list" "'a list" | WIter "poll_event list" "'a list"
  | WEvents "poll_event list" | WReturned "'a list"

text \<open>
  The shared memory, the eventfd's counter, the program counters, and two ghost lists: the
  notes appended so far and the notes handed to the callback so far.
\<close>

record 'a poll_sys =
  ps_lock :: bool
  ps_notes :: "'a list"
  ps_n :: "64 word"
  ps_efd :: nat
  ps_trigger :: "nat \<Rightarrow> 'a trigger_pc"
  ps_wait :: "'a wait_pc"
  ps_added :: "'a list"
  ps_seen :: "'a list"

definition poll_sys_init :: "'a poll_sys" where
  "poll_sys_init = \<lparr>ps_lock = False, ps_notes = [], ps_n = 0, ps_efd = 0, ps_trigger = (\<lambda>_. TIdle),
     ps_wait = WWait, ps_added = [], ps_seen = []\<rparr>"

text \<open>
  The eventfd, as \<^verbatim>\<open>eventfd(2)\<close> documents it: a write of eight bytes adds them, in host byte
  order (little endian here), to a 64-bit counter and blocks while the sum would exceed
  \<open>2\<^sup>6\<^sup>4 - 2\<close>; a read returns the counter and clears it, and blocks while it is zero; the descriptor is
  readable when the counter is positive.
\<close>

definition wake_bytes :: bytes where
  "wake_bytes = [0, 0, 0, 0, 0, 0, 0, 1]"

definition efd_max :: nat where
  "efd_max = 2 ^ 64 - 2"

definition efd_fits :: "bytes \<Rightarrow> nat \<Rightarrow> bool" where
  "efd_fits b c \<longleftrightarrow> c + unat (le_word b :: 64 word) \<le> efd_max"

definition efd_write :: "bytes \<Rightarrow> nat \<Rightarrow> nat" where
  "efd_write b c = c + unat (le_word b :: 64 word)"

inductive poll_step :: "'a poll_sys \<Rightarrow> 'a poll_sys \<Rightarrow> bool" where
  trigger_call: "ps_trigger s t = TIdle \<Longrightarrow>
    poll_step s (s\<lparr>ps_trigger := (ps_trigger s)(t := TLock note)\<rparr>)"
| trigger_cas: "ps_trigger s t = TLock note \<Longrightarrow> \<not> ps_lock s \<Longrightarrow>
    poll_step s (s\<lparr>ps_lock := True, ps_trigger := (ps_trigger s)(t := TCount note)\<rparr>)"
| trigger_count: "ps_trigger s t = TCount note \<Longrightarrow>
    poll_step s (s\<lparr>ps_n := ps_n s + 1, ps_trigger := (ps_trigger s)(t := TAppend note)\<rparr>)"
| trigger_append: "ps_trigger s t = TAppend note \<Longrightarrow>
    poll_step s (s\<lparr>ps_notes := ps_notes s @ [note], ps_added := ps_added s @ [note],
      ps_trigger := (ps_trigger s)(t := TUnlock)\<rparr>)"
| trigger_unlock: "ps_trigger s t = TUnlock \<Longrightarrow>
    poll_step s (s\<lparr>ps_lock := False, ps_trigger := (ps_trigger s)(t := TWrite)\<rparr>)"
| trigger_write: "ps_trigger s t = TWrite \<Longrightarrow> efd_fits wake_bytes (ps_efd s) \<Longrightarrow>
    poll_step s (s\<lparr>ps_efd := efd_write wake_bytes (ps_efd s), ps_trigger := (ps_trigger s)(t := TIdle)\<rparr>)"
| wait_events: "ps_wait s = WWait \<Longrightarrow> (WakeEvent \<in> set evs \<longrightarrow> ps_efd s > 0) \<Longrightarrow>
    poll_step s (s\<lparr>ps_wait := WLoad evs\<rparr>)"
| wait_failed: "ps_wait s = WWait \<Longrightarrow> poll_step s (s\<lparr>ps_wait := WReturned []\<rparr>)"
| foreach_none: "ps_wait s = WLoad evs \<Longrightarrow> ps_n s = 0 \<Longrightarrow> poll_step s (s\<lparr>ps_wait := WEvents evs\<rparr>)"
| foreach_some: "ps_wait s = WLoad evs \<Longrightarrow> ps_n s \<noteq> 0 \<Longrightarrow> poll_step s (s\<lparr>ps_wait := WLock evs\<rparr>)"
| foreach_cas: "ps_wait s = WLock evs \<Longrightarrow> \<not> ps_lock s \<Longrightarrow>
    poll_step s (s\<lparr>ps_lock := True, ps_wait := WLen evs\<rparr>)"
| foreach_empty: "ps_wait s = WLen evs \<Longrightarrow> ps_notes s = [] \<Longrightarrow>
    poll_step s (s\<lparr>ps_wait := WUnlockEmpty evs\<rparr>)"
| foreach_unlock_empty: "ps_wait s = WUnlockEmpty evs \<Longrightarrow>
    poll_step s (s\<lparr>ps_lock := False, ps_wait := WEvents evs\<rparr>)"
| foreach_load: "ps_wait s = WLen evs \<Longrightarrow> ps_notes s \<noteq> [] \<Longrightarrow>
    poll_step s (s\<lparr>ps_wait := WReset evs (ps_notes s)\<rparr>)"
| foreach_reset: "ps_wait s = WReset evs ns \<Longrightarrow>
    poll_step s (s\<lparr>ps_n := 0, ps_wait := WNil evs ns\<rparr>)"
| foreach_nil: "ps_wait s = WNil evs ns \<Longrightarrow>
    poll_step s (s\<lparr>ps_notes := [], ps_wait := WUnlock evs ns\<rparr>)"
| foreach_unlock: "ps_wait s = WUnlock evs ns \<Longrightarrow>
    poll_step s (s\<lparr>ps_lock := False, ps_wait := WIter evs ns\<rparr>)"
| iter_ok: "ps_wait s = WIter evs (note # ns) \<Longrightarrow>
    poll_step s (s\<lparr>ps_seen := ps_seen s @ [note], ps_wait := WIter evs ns\<rparr>)"
| iter_err: "ps_wait s = WIter evs (note # ns) \<Longrightarrow>
    poll_step s (s\<lparr>ps_seen := ps_seen s @ [note], ps_wait := WReturned ns\<rparr>)"
| iter_done: "ps_wait s = WIter evs [] \<Longrightarrow> poll_step s (s\<lparr>ps_wait := WEvents evs\<rparr>)"
| event_other: "ps_wait s = WEvents (OtherEvent # evs) \<Longrightarrow> poll_step s (s\<lparr>ps_wait := WEvents evs\<rparr>)"
| event_err: "ps_wait s = WEvents (OtherEvent # evs) \<Longrightarrow> poll_step s (s\<lparr>ps_wait := WReturned []\<rparr>)"
| event_wake: "ps_wait s = WEvents (WakeEvent # evs) \<Longrightarrow> ps_efd s > 0 \<Longrightarrow>
    poll_step s (s\<lparr>ps_efd := 0, ps_wait := WEvents evs\<rparr>)"
| event_done: "ps_wait s = WEvents [] \<Longrightarrow> poll_step s (s\<lparr>ps_wait := WWait\<rparr>)"

abbreviation poll_reach :: "'a poll_sys \<Rightarrow> 'a poll_sys \<Rightarrow> bool" where
  "poll_reach \<equiv> poll_step\<^sup>*\<^sup>*"

subsection \<open>Mutual exclusion\<close>

fun trigger_crit :: "'a trigger_pc \<Rightarrow> bool" where
  "trigger_crit (TCount note) = True"
| "trigger_crit (TAppend note) = True"
| "trigger_crit TUnlock = True"
| "trigger_crit _ = False"

fun wait_crit :: "'a wait_pc \<Rightarrow> bool" where
  "wait_crit (WLen evs) = True"
| "wait_crit (WUnlockEmpty evs) = True"
| "wait_crit (WReset evs ns) = True"
| "wait_crit (WNil evs ns) = True"
| "wait_crit (WUnlock evs ns) = True"
| "wait_crit _ = False"

definition trigger_holders :: "(nat \<Rightarrow> 'a trigger_pc) \<Rightarrow> nat option set" where
  "trigger_holders f = {Some t |t. trigger_crit (f t)}"

definition crit_holders :: "'a poll_sys \<Rightarrow> nat option set" where
  "crit_holders s = trigger_holders (ps_trigger s) \<union> (if wait_crit (ps_wait s) then {None} else {})"

definition mutex_inv :: "'a poll_sys \<Rightarrow> bool" where
  "mutex_inv s \<longleftrightarrow> (if ps_lock s then \<exists>h. crit_holders s = {h} else crit_holders s = {})"

text \<open>The notes the event loop holds: taken from the queue and not yet handed to the callback.\<close>

fun wait_held :: "'a wait_pc \<Rightarrow> 'a list" where
  "wait_held (WUnlock evs ns) = ns"
| "wait_held (WIter evs ns) = ns"
| "wait_held (WReturned ns) = ns"
| "wait_held _ = []"

definition wait_loaded_ok :: "'a poll_sys \<Rightarrow> bool" where
  "wait_loaded_ok s = (case ps_wait s of WReset evs ns \<Rightarrow> ps_notes s = ns | WNil evs ns \<Rightarrow> ps_notes s = ns | _ \<Rightarrow> True)"

definition counting :: "(nat \<Rightarrow> 'a trigger_pc) \<Rightarrow> bool" where
  "counting f \<longleftrightarrow> (\<exists>t note. f t = TAppend note)"

definition counter_ok :: "'a poll_sys \<Rightarrow> bool" where
  "counter_ok s \<longleftrightarrow> ps_n s =
     (case ps_wait s of WNil evs ns \<Rightarrow> 0
      | _ \<Rightarrow> of_nat (length (ps_notes s)) + (if counting (ps_trigger s) then 1 else 0))"

definition poll_inv :: "'a poll_sys \<Rightarrow> bool" where
  "poll_inv s \<longleftrightarrow> mutex_inv s \<and> wait_loaded_ok s \<and> counter_ok s \<and>
     ps_added s = ps_seen s @ wait_held (ps_wait s) @ ps_notes s"

subsection \<open>The invariant is kept\<close>

lemma trigger_holders_upd:
  "trigger_holders (f(t := p)) =
   (if trigger_crit p then insert (Some t) (trigger_holders f) else trigger_holders f - {Some t})"
  by (auto simp: trigger_holders_def split: if_splits)

lemma None_not_trigger_holder [simp]: "None \<notin> trigger_holders f"
  by (simp add: trigger_holders_def)

lemma trigger_holders_mem: "(Some t \<in> trigger_holders f) = trigger_crit (f t)"
  by (simp add: trigger_holders_def)

lemma mutex_trigger_crit:
  assumes "mutex_inv s" and "trigger_crit (ps_trigger s t)"
  shows "ps_lock s" and "trigger_holders (ps_trigger s) = {Some t}" and "\<not> wait_crit (ps_wait s)"
  using assms trigger_holders_mem [of t "ps_trigger s"]
  by (auto simp: mutex_inv_def crit_holders_def split: if_splits)

lemma mutex_wait_crit:
  assumes "mutex_inv s" and "wait_crit (ps_wait s)"
  shows "ps_lock s" and "trigger_holders (ps_trigger s) = {}"
  using assms
  by (auto simp: mutex_inv_def crit_holders_def split: if_splits)

text \<open>A step of a goroutine that holds the lock, and one of a goroutine that does not.\<close>

lemma mutex_step:
  assumes step: "poll_step s s'" and m: "mutex_inv s"
  shows "mutex_inv s'"
proof -
  note t = mutex_trigger_crit [OF m] and w = mutex_wait_crit [OF m]
  note m' = m [unfolded mutex_inv_def crit_holders_def]
  note defs = mutex_inv_def crit_holders_def trigger_holders_upd
  from step show ?thesis
  proof cases
    case (trigger_call t x)
    with m' trigger_holders_mem [of t "ps_trigger s"] show ?thesis by (simp add: defs)
  next
    case (trigger_count t x)
    with t [of t] show ?thesis by (simp add: defs)
  next
    case (trigger_append t x)
    with t [of t] show ?thesis by (simp add: defs)
  next
    case (trigger_unlock t)
    with t [of t] show ?thesis by (simp add: defs)
  next
    case (trigger_write t)
    with m' trigger_holders_mem [of t "ps_trigger s"] show ?thesis by (simp add: defs)
  qed (insert m' w, auto simp: defs)
qed

lemma counting_upd_other:
  "\<forall>x. f t \<noteq> TAppend x \<Longrightarrow> \<forall>x. p \<noteq> TAppend x \<Longrightarrow> counting (f(t := p)) = counting f"
  by (auto simp: counting_def)

lemma counting_holder:
  assumes "trigger_holders f = {Some t}"
  shows "counting f = (\<exists>x. f t = TAppend x)"
proof -
  have "u = t" if "f u = TAppend x" for u x
    using that assms trigger_holders_mem [of u f] by simp
  then show ?thesis by (auto simp: counting_def)
qed

lemma counting_upd_holder:
  assumes "trigger_holders f = {Some t}"
  shows "counting (f(t := p)) = (\<exists>x. p = TAppend x)"
proof (cases "trigger_crit p")
  case True
  with assms have "trigger_holders (f(t := p)) = {Some t}" by (simp add: trigger_holders_upd)
  then show ?thesis using counting_holder by fastforce
next
  case False
  with assms have "trigger_holders (f(t := p)) = {}" by (simp add: trigger_holders_upd)
  then have "\<not> trigger_crit ((f(t := p)) u)" for u by (metis empty_iff trigger_holders_mem)
  with False show ?thesis unfolding counting_def by (metis trigger_crit.simps(2))
qed

lemma counting_none: "trigger_holders f = {} \<Longrightarrow> \<not> counting f"
  by (metis counting_def empty_iff trigger_crit.simps(2) trigger_holders_mem)

lemma wait_crit_cases:
  "\<not> wait_crit w \<Longrightarrow> (case w of WNil evs ns \<Rightarrow> a | _ \<Rightarrow> b) = b"
  by (cases w) simp_all

lemma poll_inv_step:
  assumes step: "poll_step s s'" and inv: "poll_inv s"
  shows "poll_inv s'"
proof -
  from inv have m: "mutex_inv s" and l: "wait_loaded_ok s" and c: "counter_ok s"
    and a: "ps_added s = ps_seen s @ wait_held (ps_wait s) @ ps_notes s" by (simp_all add: poll_inv_def)
  note t = mutex_trigger_crit [OF m] and w = mutex_wait_crit [OF m]
  note facts = l [unfolded wait_loaded_ok_def] c [unfolded counter_ok_def] a
  note defs = wait_loaded_ok_def counter_ok_def
  have "wait_loaded_ok s' \<and> counter_ok s' \<and> ps_added s' = ps_seen s' @ wait_held (ps_wait s') @ ps_notes s'"
    using step
  proof cases
    case (trigger_count t x)
    with t [of t] facts show ?thesis
      by (simp add: defs counting_upd_holder counting_holder split: wait_pc.splits)
  next
    case (trigger_append t x)
    with t [of t] facts show ?thesis
      by (simp add: defs counting_upd_holder counting_holder split: wait_pc.splits)
  next
    case (trigger_unlock t)
    with t [of t] facts show ?thesis
      by (simp add: defs counting_upd_holder counting_holder split: wait_pc.splits)
  qed (insert facts w, simp_all add: defs counting_upd_other counting_none split: wait_pc.splits)
  with mutex_step [OF step m] show ?thesis by (simp add: poll_inv_def)
qed

lemma poll_sys_init_inv: "poll_inv poll_sys_init"
  by (simp add: poll_inv_def mutex_inv_def crit_holders_def trigger_holders_def wait_loaded_ok_def
      counter_ok_def counting_def poll_sys_init_def)

lemma poll_reach_inv: "poll_reach s s' \<Longrightarrow> poll_inv s \<Longrightarrow> poll_inv s'"
  by (induction rule: rtranclp_induct) (auto intro: poll_inv_step)

subsection \<open>Undisturbed runs\<close>

text \<open>A whole \<^verbatim>\<open>Trigger\<close> by one goroutine, as \<open>nq_Add\<close> followed by the write.\<close>

lemma poll_trigger_run:
  assumes "ps_trigger s t = TIdle" and "\<not> ps_lock s" and "efd_fits wake_bytes (ps_efd s)"
  shows "poll_reach s (s\<lparr>ps_notes := ps_notes s @ [x], ps_n := ps_n s + 1, ps_added := ps_added s @ [x],
    ps_efd := efd_write wake_bytes (ps_efd s)\<rparr>)" (is "poll_reach s ?s'")
proof -
  define upd where "upd s p = s\<lparr>ps_trigger := (ps_trigger s)(t := p)\<rparr>" for s :: "'a poll_sys" and p
  define s1 where "s1 = upd s (TLock x)"
  define s2 where "s2 = upd (s1\<lparr>ps_lock := True\<rparr>) (TCount x)"
  define s3 where "s3 = upd (s2\<lparr>ps_n := ps_n s2 + 1\<rparr>) (TAppend x)"
  define s4 where "s4 = upd (s3\<lparr>ps_notes := ps_notes s3 @ [x], ps_added := ps_added s3 @ [x]\<rparr>) TUnlock"
  define s5 where "s5 = upd (s4\<lparr>ps_lock := False\<rparr>) TWrite"
  define s6 where "s6 = upd (s5\<lparr>ps_efd := efd_write wake_bytes (ps_efd s5)\<rparr>) TIdle"
  note defs = s1_def s2_def s3_def s4_def s5_def s6_def upd_def
  have "poll_step s s1" using trigger_call [OF assms(1), of x] by (simp add: defs)
  also have "poll_step\<^sup>*\<^sup>* s1 s2" using trigger_cas [of s1 t x] assms by (intro r_into_rtranclp) (simp add: defs)
  also have "poll_step\<^sup>*\<^sup>* s2 s3" using trigger_count [of s2 t x] by (intro r_into_rtranclp) (simp add: defs)
  also have "poll_step\<^sup>*\<^sup>* s3 s4" using trigger_append [of s3 t x] by (intro r_into_rtranclp) (simp add: defs)
  also have "poll_step\<^sup>*\<^sup>* s4 s5" using trigger_unlock [of s4 t] by (intro r_into_rtranclp) (simp add: defs)
  also have "poll_step\<^sup>*\<^sup>* s5 s6" using trigger_write [of s5 t] assms by (intro r_into_rtranclp) (simp add: defs)
  also have "s6 = ?s'" using assms by (cases s) (auto simp: defs fun_upd_idem)
  finally show ?thesis .
qed

text \<open>A \<^verbatim>\<open>ForEach\<close> that finds notes, up to the loop over them, and that loop.\<close>

lemma poll_take_run:
  assumes "ps_wait s = WLoad evs" and "\<not> ps_lock s" and "ps_n s \<noteq> 0" and "ps_notes s \<noteq> []"
  shows "poll_reach s (s\<lparr>ps_notes := [], ps_n := 0, ps_wait := WIter evs (ps_notes s)\<rparr>)"
    (is "poll_reach s ?s'")
proof -
  define s1 where "s1 = s\<lparr>ps_wait := WLock evs\<rparr>"
  define s2 where "s2 = s1\<lparr>ps_lock := True, ps_wait := WLen evs\<rparr>"
  define s3 where "s3 = s2\<lparr>ps_wait := WReset evs (ps_notes s2)\<rparr>"
  define s4 where "s4 = s3\<lparr>ps_n := 0, ps_wait := WNil evs (ps_notes s2)\<rparr>"
  define s5 where "s5 = s4\<lparr>ps_notes := [], ps_wait := WUnlock evs (ps_notes s2)\<rparr>"
  define s6 where "s6 = s5\<lparr>ps_lock := False, ps_wait := WIter evs (ps_notes s2)\<rparr>"
  note defs = s1_def s2_def s3_def s4_def s5_def s6_def
  have "poll_step s s1" using foreach_some [of s evs] assms by (simp add: defs)
  also have "poll_step\<^sup>*\<^sup>* s1 s2" using foreach_cas [of s1 evs] assms by (intro r_into_rtranclp) (simp add: defs)
  also have "poll_step\<^sup>*\<^sup>* s2 s3" using foreach_load [of s2 evs] assms by (intro r_into_rtranclp) (simp add: defs)
  also have "poll_step\<^sup>*\<^sup>* s3 s4" using foreach_reset [of s3 evs] by (intro r_into_rtranclp) (simp add: defs)
  also have "poll_step\<^sup>*\<^sup>* s4 s5" using foreach_nil [of s4 evs] by (intro r_into_rtranclp) (simp add: defs)
  also have "poll_step\<^sup>*\<^sup>* s5 s6" using foreach_unlock [of s5 evs] by (intro r_into_rtranclp) (simp add: defs)
  also have "s6 = ?s'" using assms by (cases s) (auto simp: defs)
  finally show ?thesis .
qed

lemma poll_iter_run:
  "ps_wait s = WIter evs ns \<Longrightarrow>
   poll_reach s (s\<lparr>ps_seen := ps_seen s @ ns, ps_wait := WEvents evs\<rparr>)"
proof (induction ns arbitrary: s)
  case Nil
  then show ?case using iter_done [of s evs] by (intro r_into_rtranclp) simp
next
  case (Cons x ns)
  let ?s = "s\<lparr>ps_seen := ps_seen s @ [x], ps_wait := WIter evs ns\<rparr>"
  have "poll_step s ?s" using iter_ok [OF Cons.prems] .
  also have "poll_reach ?s (s\<lparr>ps_seen := ps_seen s @ x # ns, ps_wait := WEvents evs\<rparr>)"
    using Cons.IH [of ?s] by simp
  finally show ?case .
qed

text \<open>
  An undisturbed round hands over every queued note: the wake-up event is there, the loop takes
  the notes, runs the callback over them and clears the eventfd.
\<close>

lemma poll_round_run:
  assumes "ps_wait s = WWait" and "\<not> ps_lock s" and "ps_n s \<noteq> 0" and "ps_notes s \<noteq> []" and "ps_efd s > 0"
  shows "poll_reach s (s\<lparr>ps_notes := [], ps_n := 0, ps_seen := ps_seen s @ ps_notes s, ps_efd := 0\<rparr>)"
    (is "poll_reach s ?s'")
proof -
  define s1 where "s1 = s\<lparr>ps_wait := WLoad [WakeEvent]\<rparr>"
  define s2 where "s2 = s1\<lparr>ps_notes := [], ps_n := 0, ps_wait := WIter [WakeEvent] (ps_notes s1)\<rparr>"
  define s3 where "s3 = s2\<lparr>ps_seen := ps_seen s2 @ ps_notes s1, ps_wait := WEvents [WakeEvent]\<rparr>"
  define s4 where "s4 = s3\<lparr>ps_efd := 0, ps_wait := WEvents []\<rparr>"
  note defs = s1_def s2_def s3_def s4_def
  have "poll_step s s1" using wait_events [of s "[WakeEvent]"] assms by (simp add: defs)
  also have "poll_reach s1 s2" using poll_take_run [of s1 "[WakeEvent]"] assms by (simp add: defs)
  also have "poll_reach s2 s3" using poll_iter_run [of s2 "[WakeEvent]" "ps_notes s1"] by (simp add: defs)
  also have "poll_reach s3 s4" using event_wake [of s3 "[]"] assms by (intro r_into_rtranclp) (simp add: defs)
  also have "poll_reach s4 (s4\<lparr>ps_wait := WWait\<rparr>)" using event_done [of s4] by (intro r_into_rtranclp) (simp add: defs)
  also have "s4\<lparr>ps_wait := WWait\<rparr> = ?s'" using assms by (cases s) (auto simp: defs)
  finally show ?thesis .
qed

lemma wake_value: "unat (le_word wake_bytes :: 64 word) = 2 ^ 56"
  by (simp add: wake_bytes_def le_word_def)

subsection \<open>Properties\<close>

text \<open>
  C8: However the goroutines that post notes and the event loop interleave, at most one of them
  is between \<^verbatim>\<open>Lock\<close> and \<^verbatim>\<open>Unlock\<close> (none when the lock is free), and the notes appended so far are
  exactly the ones handed to the callback, then the ones the loop has taken, then the ones in
  the queue, in the order in which they were appended: none is lost, repeated or reordered.
  Whenever the lock is free the counter \<^verbatim>\<open>n\<close> is the length of the queue, so the unlocked test at
  the start of \<^verbatim>\<open>ForEach\<close> is exact.
\<close>

theorem notes_in_order:
  assumes "poll_reach poll_sys_init s"
  shows "(if ps_lock s then \<exists>h. crit_holders s = {h}
          else crit_holders s = {} \<and> ps_n s = of_nat (length (ps_notes s))) \<and>
    ps_added s = ps_seen s @ wait_held (ps_wait s) @ ps_notes s"
proof -
  from poll_reach_inv [OF assms poll_sys_init_inv] have inv: "poll_inv s" .
  have "ps_n s = of_nat (length (ps_notes s))" if "\<not> ps_lock s"
  proof -
    from that inv have "trigger_holders (ps_trigger s) = {}" and "\<not> wait_crit (ps_wait s)"
      by (auto simp: poll_inv_def mutex_inv_def crit_holders_def split: if_splits)
    with inv show ?thesis by (simp add: poll_inv_def counter_ok_def counting_none wait_crit_cases)
  qed
  with inv show ?thesis by (simp add: poll_inv_def mutex_inv_def)
qed

definition poll_ex :: "nat poll_sys" where
  "poll_ex = poll_sys_init\<lparr>ps_notes := [5], ps_n := 1, ps_added := [5], ps_efd := efd_write wake_bytes 0\<rparr>"

lemma poll_ex_reach: "poll_reach poll_sys_init poll_ex"
  using poll_trigger_run [of poll_sys_init 1 "5::nat"]
  by (simp add: poll_ex_def poll_sys_init_def efd_fits_def efd_max_def wake_value)

theorem notes_in_order_witness:
  "poll_reach poll_sys_init poll_ex \<and> ps_n poll_ex = of_nat (length (ps_notes poll_ex)) \<and>
   ps_added poll_ex = ps_seen poll_ex @ wait_held (ps_wait poll_ex) @ ps_notes poll_ex"
  using notes_in_order [OF poll_ex_reach] poll_ex_reach by (simp add: poll_ex_def poll_sys_init_def)

text \<open>
  C34: A wake-up can be lost. The loop empties the queue before it reads the eventfd; a \<^verbatim>\<open>Trigger\<close>
  that runs completely between the two leaves its note in the queue and has its signal cleared,
  and the loop blocks in \<^verbatim>\<open>EpollWait\<close> with a note queued, nobody in \<^verbatim>\<open>Trigger\<close> and nothing to wake it.
\<close>

theorem wakeup_lost:
  "\<exists>s. poll_reach (poll_sys_init :: nat poll_sys) s \<and> ps_wait s = WWait \<and> ps_notes s = [6] \<and>
     ps_efd s = 0 \<and> \<not> ps_lock s \<and> (\<forall>t. ps_trigger s t = TIdle)"
proof -
  define s1 where "s1 = poll_ex\<lparr>ps_wait := WLoad [WakeEvent]\<rparr>"
  define s2 where "s2 = s1\<lparr>ps_notes := [], ps_n := 0, ps_wait := WIter [WakeEvent] [5]\<rparr>"
  define s3 where "s3 = s2\<lparr>ps_seen := [5], ps_wait := WEvents [WakeEvent]\<rparr>"
  define s4 where "s4 = s3\<lparr>ps_notes := [6], ps_n := 1, ps_added := [5, 6], ps_efd := efd_write wake_bytes (ps_efd s3)\<rparr>"
  define s5 where "s5 = s4\<lparr>ps_efd := 0, ps_wait := WEvents []\<rparr>"
  note defs = s1_def s2_def s3_def s4_def s5_def poll_ex_def poll_sys_init_def
  note efd = efd_fits_def efd_max_def wake_value efd_write_def
  note poll_ex_reach
  also have "poll_reach poll_ex s1"
    using wait_events [of poll_ex "[WakeEvent]"] by (intro r_into_rtranclp) (simp add: defs efd)
  also have "poll_reach s1 s2" using poll_take_run [of s1 "[WakeEvent]"] by (simp add: defs)
  also have "poll_reach s2 s3" using poll_iter_run [of s2 "[WakeEvent]" "[5]"] by (simp add: defs)
  also have "poll_reach s3 s4" using poll_trigger_run [of s3 2 6] by (simp add: defs efd)
  also have "poll_reach s4 s5" using event_wake [of s4 "[]"] by (intro r_into_rtranclp) (simp add: defs efd)
  also have "poll_reach s5 (s5\<lparr>ps_wait := WWait\<rparr>)" using event_done [of s5] by (intro r_into_rtranclp) (simp add: defs)
  finally show ?thesis by (rule exI [rotated, of _ "s5\<lparr>ps_wait := WWait\<rparr>", OF conjI]) (simp add: defs)
qed

text \<open>
  \<^verbatim>\<open>Trigger\<close> writes the number one in big-endian order, which a little-endian machine reads as
  \<open>2\<^sup>5\<^sup>6\<close>: the eventfd takes exactly 255 signals between two reads, and the next \<^verbatim>\<open>Trigger\<close> blocks
  until the loop reads the eventfd.
\<close>

lemma wake_capacity:
  "efd_fits wake_bytes ((efd_write wake_bytes ^^ k) 0) \<longleftrightarrow> k < 255"
proof -
  have "(efd_write wake_bytes ^^ k) 0 = k * 2 ^ 56"
    by (induction k) (simp_all add: efd_write_def wake_value)
  then show ?thesis by (auto simp: efd_fits_def efd_max_def wake_value)
qed

end
