(* ===== verification/Poll.thy ===== *)
theory Poll
  imports Note_Queue
begin

text \<open>
  \<^verbatim>\<open>internal/internal_linux.go\<close> and \<^verbatim>\<open>internal/internal_bsd.go\<close>: the two pollers behind an event loop.
  The first half is epoll with its interest list and the dispatch of \<^verbatim>\<open>Wait\<close>; the second is kqueue,
  which collects changes and hands them to the kernel with the next wait. The event loop relies
  on one contract, the locale \<open>poller\<close>: which readiness a descriptor is watched for after each call.

  The kernel's part (\<^verbatim>\<open>epoll_ctl\<close>, \<^verbatim>\<open>kevent\<close>) follows the manual pages: adding a watched descriptor
  fails with \<^verbatim>\<open>EEXIST\<close>, changing an unwatched one with \<^verbatim>\<open>ENOENT\<close>, and closing a descriptor ends the
  watch.
\<close>

datatype errno = EAGAIN | EINTR | EEXIST | ENOENT | ErrnoOther nat

unbundle bit_operations_syntax

subsection \<open>epoll\<close>

abbreviation (input) EPOLLIN :: u32 where "EPOLLIN \<equiv> 1"
abbreviation (input) EPOLLOUT :: u32 where "EPOLLOUT \<equiv> 4"
abbreviation (input) EPOLLHUP :: u32 where "EPOLLHUP \<equiv> 0x10"
abbreviation (input) EPOLLRDHUP :: u32 where "EPOLLRDHUP \<equiv> 0x2000"

definition PollEvent_None :: nat where "PollEvent_None = 0"
definition PollEvent_Read :: nat where "PollEvent_Read = 1"
definition PollEvent_Write :: nat where "PollEvent_Write = 2"

record 'note Poll =
  p_fd :: int
  p_wfd :: int
  p_notes :: "'note noteQueue"
  p_set :: "int \<rightharpoonup> u32"

datatype epoll_op = EPOLL_CTL_ADD | EPOLL_CTL_MOD | EPOLL_CTL_DEL

definition EpollCtl :: "epoll_op \<Rightarrow> int \<Rightarrow> u32 \<Rightarrow> (int \<rightharpoonup> u32) \<Rightarrow> errno option \<times> (int \<rightharpoonup> u32)" where
  "EpollCtl op fd ev m =
     (case op of
        EPOLL_CTL_ADD \<Rightarrow> if m fd = None then (None, m(fd \<mapsto> ev)) else (Some EEXIST, m)
      | EPOLL_CTL_MOD \<Rightarrow> if m fd = None then (Some ENOENT, m) else (None, m(fd \<mapsto> ev))
      | EPOLL_CTL_DEL \<Rightarrow> if m fd = None then (Some ENOENT, m) else (None, m(fd := None)))"

definition ModRead :: "int \<Rightarrow> 'note Poll \<Rightarrow> 'note Poll" where
  "ModRead fd p = p\<lparr>p_set := snd (EpollCtl EPOLL_CTL_MOD fd (EPOLLIN OR EPOLLRDHUP OR EPOLLHUP) (p_set p))\<rparr>"

definition ModReadWrite :: "int \<Rightarrow> 'note Poll \<Rightarrow> 'note Poll" where
  "ModReadWrite fd p =
     p\<lparr>p_set := snd (EpollCtl EPOLL_CTL_MOD fd (EPOLLIN OR EPOLLOUT OR EPOLLRDHUP OR EPOLLHUP) (p_set p))\<rparr>"

definition ModDetach :: "int \<Rightarrow> 'note Poll \<Rightarrow> 'note Poll" where
  "ModDetach fd p =
     p\<lparr>p_set := snd (EpollCtl EPOLL_CTL_DEL fd (EPOLLIN OR EPOLLOUT OR EPOLLRDHUP OR EPOLLHUP) (p_set p))\<rparr>"

definition AddRead :: "int \<Rightarrow> 'note Poll \<Rightarrow> 'note Poll" where
  "AddRead fd p = p\<lparr>p_set := snd (EpollCtl EPOLL_CTL_ADD fd (EPOLLIN OR EPOLLRDHUP OR EPOLLHUP) (p_set p))\<rparr>"

definition AddReadWrite :: "int \<Rightarrow> 'note Poll \<Rightarrow> 'note Poll" where
  "AddReadWrite fd p =
     (let (err, m) = EpollCtl EPOLL_CTL_ADD fd (EPOLLIN OR EPOLLOUT OR EPOLLRDHUP OR EPOLLHUP) (p_set p);
          p = p\<lparr>p_set := m\<rparr>
      in if err \<noteq> None then ModReadWrite fd p else p)"

text \<open>The kernel drops a descriptor from the interest list when it is closed.\<close>

definition poll_forget :: "int \<Rightarrow> 'note Poll \<Rightarrow> 'note Poll" where
  "poll_forget fd p = p\<lparr>p_set := (p_set p)(fd := None)\<rparr>"

text \<open>\<^verbatim>\<open>OpenPoll\<close> on the descriptors that the kernel returned; its errors are only logged.\<close>

definition OpenPoll :: "int \<Rightarrow> int \<Rightarrow> 'note Poll" where
  "OpenPoll fd wfd = AddRead wfd \<lparr>p_fd = fd, p_wfd = wfd, p_notes = new_noteQueue, p_set = Map.empty\<rparr>"

text \<open>\<^verbatim>\<open>Trigger\<close> posts a note; \<open>err\<close> is the result of the write to the wake descriptor.\<close>

definition Trigger :: "errno option \<Rightarrow> 'note \<Rightarrow> 'note Poll \<Rightarrow> errno option \<times> 'note Poll" where
  "Trigger err note p = (let (_, q) = nq_Add note (p_notes p) in (err, p\<lparr>p_notes := q\<rparr>))"

subsubsection \<open>Wait\<close>

record epoll_event =
  ee_Events :: u32
  ee_Fd :: int

definition event_bits :: "u32 \<Rightarrow> nat" where
  "event_bits evs =
     (let e = PollEvent_None;
          e = (if evs AND EPOLLIN > 0 then e OR PollEvent_Read else e);
          e = (if evs AND EPOLLOUT > 0 then e OR PollEvent_Write else e)
      in e)"

text \<open>The loop over the returned events; the wake descriptor is read and not dispatched.\<close>

fun dispatch_events ::
  "int \<Rightarrow> (int \<Rightarrow> 'note option \<Rightarrow> nat \<Rightarrow> 's \<Rightarrow> ('e option \<times> 's) go) \<Rightarrow> epoll_event list \<Rightarrow> 's \<Rightarrow> ('e option \<times> 's) go" where
  "dispatch_events wfd iter [] s = Some (None, s)"
| "dispatch_events wfd iter (ev # evs) s =
     (if ee_Fd ev \<noteq> wfd then do {
        (err, s) \<leftarrow> iter (ee_Fd ev) None (event_bits (ee_Events ev)) s;
        if err \<noteq> None then Some (err, s) else dispatch_events wfd iter evs s
      }
      else dispatch_events wfd iter evs s)"

text \<open>
  \<^verbatim>\<open>Wait\<close> over the successive results of \<^verbatim>\<open>EpollWait\<close>: a list of events or an error. \<open>Blocked\<close> means that
  it waits for the next result; \<open>get\<close> and \<open>put\<close> reach the poller's notes in the state of the loop.
\<close>

datatype 'e wait_result = Blocked | WaitReturned 'e

definition Wait_round ::
  "('s \<Rightarrow> 'note noteQueue) \<Rightarrow> ('note noteQueue \<Rightarrow> 's \<Rightarrow> 's) \<Rightarrow> int \<Rightarrow>
   (int \<Rightarrow> 'note option \<Rightarrow> nat \<Rightarrow> 's \<Rightarrow> ('e option \<times> 's) go) \<Rightarrow> epoll_event list \<Rightarrow> 's \<Rightarrow> ('e option \<times> 's) go" where
  "Wait_round get put wfd iter evs s = do {
     (err, s) \<leftarrow> nq_ForEach get put (\<lambda>note s. iter 0 (Some note) 0 s) s;
     if err \<noteq> None then Some (err, s) else dispatch_events wfd iter evs s
   }"

fun Wait ::
  "('s \<Rightarrow> 'note noteQueue) \<Rightarrow> ('note noteQueue \<Rightarrow> 's \<Rightarrow> 's) \<Rightarrow> int \<Rightarrow> (errno \<Rightarrow> 'e) \<Rightarrow>
   (int \<Rightarrow> 'note option \<Rightarrow> nat \<Rightarrow> 's \<Rightarrow> ('e option \<times> 's) go) \<Rightarrow>
   (epoll_event list + errno) list \<Rightarrow> 's \<Rightarrow> ('e wait_result \<times> 's) go" where
  "Wait get put wfd sys iter [] s = Some (Blocked, s)"
| "Wait get put wfd sys iter (res # rounds) s =
     (case res of
        Inr err \<Rightarrow>
          if err \<noteq> EINTR then Some (WaitReturned (sys err), s)
          else Wait_round get put wfd iter [] s \<bind> (\<lambda>(err, s).
            if err \<noteq> None then Some (WaitReturned (the err), s) else Wait get put wfd sys iter rounds s)
      | Inl evs \<Rightarrow>
          Wait_round get put wfd iter evs s \<bind> (\<lambda>(err, s).
            if err \<noteq> None then Some (WaitReturned (the err), s) else Wait get put wfd sys iter rounds s))"

subsection \<open>kqueue\<close>

datatype kq_filter = EVFILT_READ | EVFILT_WRITE

datatype kq_flags = EV_ADD | EV_DELETE

record kevent =
  kv_Ident :: int
  kv_Flags :: kq_flags
  kv_Filter :: kq_filter

text \<open>A kqueue poller: the changes collected since the last wait, and what the kernel watches.\<close>

record 'note KPoll =
  kp_changes :: "kevent list"
  kp_notes :: "'note noteQueue"
  kp_set :: "(int \<times> kq_filter) set"

definition kq_AddRead :: "int \<Rightarrow> 'note KPoll \<Rightarrow> 'note KPoll" where
  "kq_AddRead fd p = p\<lparr>kp_changes := kp_changes p @
     [\<lparr>kv_Ident = fd, kv_Flags = EV_ADD, kv_Filter = EVFILT_READ\<rparr>]\<rparr>"

definition kq_AddReadWrite :: "int \<Rightarrow> 'note KPoll \<Rightarrow> 'note KPoll" where
  "kq_AddReadWrite fd p = p\<lparr>kp_changes := kp_changes p @
     [\<lparr>kv_Ident = fd, kv_Flags = EV_ADD, kv_Filter = EVFILT_READ\<rparr>,
      \<lparr>kv_Ident = fd, kv_Flags = EV_ADD, kv_Filter = EVFILT_WRITE\<rparr>]\<rparr>"

definition kq_ModRead :: "int \<Rightarrow> 'note KPoll \<Rightarrow> 'note KPoll" where
  "kq_ModRead fd p = p\<lparr>kp_changes := kp_changes p @
     [\<lparr>kv_Ident = fd, kv_Flags = EV_DELETE, kv_Filter = EVFILT_WRITE\<rparr>]\<rparr>"

definition kq_ModReadWrite :: "int \<Rightarrow> 'note KPoll \<Rightarrow> 'note KPoll" where
  "kq_ModReadWrite fd p = p\<lparr>kp_changes := kp_changes p @
     [\<lparr>kv_Ident = fd, kv_Flags = EV_ADD, kv_Filter = EVFILT_WRITE\<rparr>]\<rparr>"

definition kq_ModDetach :: "int \<Rightarrow> 'note KPoll \<Rightarrow> 'note KPoll" where
  "kq_ModDetach fd p = p\<lparr>kp_changes := kp_changes p @
     [\<lparr>kv_Ident = fd, kv_Flags = EV_DELETE, kv_Filter = EVFILT_READ\<rparr>,
      \<lparr>kv_Ident = fd, kv_Flags = EV_DELETE, kv_Filter = EVFILT_WRITE\<rparr>]\<rparr>"

text \<open>The kernel applies the changes in order when the next \<^verbatim>\<open>Kevent\<close> call passes them.\<close>

definition kq_apply :: "kevent \<Rightarrow> (int \<times> kq_filter) set \<Rightarrow> (int \<times> kq_filter) set" where
  "kq_apply ch ws =
     (case kv_Flags ch of
        EV_ADD \<Rightarrow> insert (kv_Ident ch, kv_Filter ch) ws
      | EV_DELETE \<Rightarrow> ws - {(kv_Ident ch, kv_Filter ch)})"

definition kq_submit :: "'note KPoll \<Rightarrow> 'note KPoll" where
  "kq_submit p = p\<lparr>kp_set := fold kq_apply (kp_changes p) (kp_set p), kp_changes := []\<rparr>"

definition kq_forget :: "int \<Rightarrow> 'note KPoll \<Rightarrow> 'note KPoll" where
  "kq_forget fd p = p\<lparr>kp_set := {w \<in> kp_set p. fst w \<noteq> fd},
     kp_changes := filter (\<lambda>ch. kv_Ident ch \<noteq> fd) (kp_changes p)\<rparr>"

text \<open>One event of \<^verbatim>\<open>Wait\<close>: the event bits passed to the callback, or \<open>None\<close> when it is skipped.\<close>

definition kq_event :: "kevent \<Rightarrow> (int \<times> nat) option" where
  "kq_event ev =
     (if kv_Ident ev \<noteq> 0 then
        if kv_Flags ev = EV_DELETE then None
        else
          let e = PollEvent_Read;
              e = (if kv_Filter ev = EVFILT_WRITE then PollEvent_Write else e)
          in Some (kv_Ident ev, e)
      else None)"

fun kq_dispatch ::
  "(int \<Rightarrow> 'note option \<Rightarrow> nat \<Rightarrow> 's \<Rightarrow> ('e option \<times> 's) go) \<Rightarrow> kevent list \<Rightarrow> 's \<Rightarrow> ('e option \<times> 's) go" where
  "kq_dispatch iter [] s = Some (None, s)"
| "kq_dispatch iter (ev # evs) s =
     (case kq_event ev of
        None \<Rightarrow> kq_dispatch iter evs s
      | Some (fd, e) \<Rightarrow> do {
          (err, s) \<leftarrow> iter fd None e s;
          if err \<noteq> None then Some (err, s) else kq_dispatch iter evs s
        })"

definition kq_new :: "'note KPoll" where
  "kq_new = \<lparr>kp_changes = [], kp_notes = new_noteQueue, kp_set = {}\<rparr>"

definition kq_Trigger :: "errno option \<Rightarrow> 'note \<Rightarrow> 'note KPoll \<Rightarrow> errno option \<times> 'note KPoll" where
  "kq_Trigger err note p = (let (_, q) = nq_Add note (kp_notes p) in (err, p\<lparr>kp_notes := q\<rparr>))"

text \<open>\<^verbatim>\<open>Wait\<close> over the successive results of \<^verbatim>\<open>Kevent\<close>, each of which takes over the collected changes.\<close>

definition kq_round ::
  "('s \<Rightarrow> 'note KPoll) \<Rightarrow> ('note KPoll \<Rightarrow> 's \<Rightarrow> 's) \<Rightarrow>
   (int \<Rightarrow> 'note option \<Rightarrow> nat \<Rightarrow> 's \<Rightarrow> ('e option \<times> 's) go) \<Rightarrow> kevent list \<Rightarrow> 's \<Rightarrow> ('e option \<times> 's) go" where
  "kq_round get put iter evs s = do {
     let s = put (kq_submit (get s)) s;
     (err, s) \<leftarrow> nq_ForEach (\<lambda>s. kp_notes (get s)) (\<lambda>q s. put ((get s)\<lparr>kp_notes := q\<rparr>) s)
       (\<lambda>note s. iter 0 (Some note) 0 s) s;
     if err \<noteq> None then Some (err, s) else kq_dispatch iter evs s
   }"

fun kq_Wait ::
  "('s \<Rightarrow> 'note KPoll) \<Rightarrow> ('note KPoll \<Rightarrow> 's \<Rightarrow> 's) \<Rightarrow> (errno \<Rightarrow> 'e) \<Rightarrow>
   (int \<Rightarrow> 'note option \<Rightarrow> nat \<Rightarrow> 's \<Rightarrow> ('e option \<times> 's) go) \<Rightarrow>
   (kevent list + errno) list \<Rightarrow> 's \<Rightarrow> ('e wait_result \<times> 's) go" where
  "kq_Wait get put sys iter [] s = Some (Blocked, s)"
| "kq_Wait get put sys iter (res # rounds) s =
     (case res of
        Inr err \<Rightarrow>
          if err \<noteq> EINTR then Some (WaitReturned (sys err), s)
          else kq_round get put iter [] s \<bind> (\<lambda>(err, s).
            if err \<noteq> None then Some (WaitReturned (the err), s) else kq_Wait get put sys iter rounds s)
      | Inl evs \<Rightarrow>
          kq_round get put iter evs s \<bind> (\<lambda>(err, s).
            if err \<noteq> None then Some (WaitReturned (the err), s) else kq_Wait get put sys iter rounds s))"

subsection \<open>The contract of a poller\<close>

text \<open>
  \<open>watches p fd\<close> is the pair of what \<open>fd\<close> is watched for: reading and writing. \<open>ok\<close> is the poller's
  own invariant: what is watched at all is watched for reading.
\<close>

locale poller =
  fixes watches :: "'p \<Rightarrow> int \<Rightarrow> bool \<times> bool"
    and ok :: "'p \<Rightarrow> bool"
    and add_read add_read_write mod_read mod_read_write mod_detach forget :: "int \<Rightarrow> 'p \<Rightarrow> 'p"
  assumes keeps_ok: "ok p \<Longrightarrow> ok (add_read fd p)" "ok p \<Longrightarrow> ok (add_read_write fd p)"
      "ok p \<Longrightarrow> ok (mod_detach fd p)" "ok p \<Longrightarrow> ok (forget fd p)"
      "ok p \<Longrightarrow> fst (watches p fd) \<Longrightarrow> ok (mod_read fd p)"
      "ok p \<Longrightarrow> fst (watches p fd) \<Longrightarrow> ok (mod_read_write fd p)"
    and ok_watch: "ok p \<Longrightarrow> snd (watches p fd) \<Longrightarrow> fst (watches p fd)"
    and add_read_watch: "ok p \<Longrightarrow> \<not> fst (watches p fd) \<Longrightarrow>
      watches (add_read fd p) = (watches p)(fd := (True, False))"
    and add_read_write_watch: "watches (add_read_write fd p) = (watches p)(fd := (True, True))"
    and mod_read_watch: "fst (watches p fd) \<Longrightarrow> watches (mod_read fd p) = (watches p)(fd := (True, False))"
    and mod_read_write_watch: "fst (watches p fd) \<Longrightarrow>
      watches (mod_read_write fd p) = (watches p)(fd := (True, True))"
    and mod_detach_watch: "watches (mod_detach fd p) = (watches p)(fd := (False, False))"
    and forget_watch: "watches (forget fd p) = (watches p)(fd := (False, False))"

definition watches :: "'note Poll \<Rightarrow> int \<Rightarrow> bool \<times> bool" where
  "watches p fd =
     (case p_set p fd of None \<Rightarrow> (False, False) | Some ev \<Rightarrow> (ev AND EPOLLIN > 0, ev AND EPOLLOUT > 0))"

definition poll_ok :: "'note Poll \<Rightarrow> bool" where
  "poll_ok p \<longleftrightarrow> (\<forall>fd ev. p_set p fd = Some ev \<longrightarrow> ev AND EPOLLIN > 0)"

definition kq_watches :: "'note KPoll \<Rightarrow> int \<Rightarrow> bool \<times> bool" where
  "kq_watches p fd =
     (let ws = fold kq_apply (kp_changes p) (kp_set p) in ((fd, EVFILT_READ) \<in> ws, (fd, EVFILT_WRITE) \<in> ws))"

definition kq_ok :: "'note KPoll \<Rightarrow> bool" where
  "kq_ok p \<longleftrightarrow> (\<forall>fd. snd (kq_watches p fd) \<longrightarrow> fst (kq_watches p fd))"

lemma poll_watched: "fst (watches p fd) \<Longrightarrow> \<exists>ev. p_set p fd = Some ev"
  by (auto simp: watches_def split: option.splits)

lemma poll_unwatched: "poll_ok p \<Longrightarrow> \<not> fst (watches p fd) \<Longrightarrow> p_set p fd = None"
  by (auto simp: watches_def poll_ok_def split: option.splits)

lemma watches_set:
  "watches (p\<lparr>p_set := (p_set p)(fd := e)\<rparr>) =
   (watches p)(fd := case e of None \<Rightarrow> (False, False) | Some ev \<Rightarrow> (ev AND EPOLLIN > 0, ev AND EPOLLOUT > 0))"
  by (rule ext) (simp add: watches_def)

lemma poll_ok_set:
  "poll_ok p \<Longrightarrow> ev AND EPOLLIN > 0 \<Longrightarrow> poll_ok (p\<lparr>p_set := (p_set p)(fd \<mapsto> ev)\<rparr>)"
  "poll_ok p \<Longrightarrow> poll_ok (p\<lparr>p_set := (p_set p)(fd := None)\<rparr>)"
  by (simp_all add: poll_ok_def)

text \<open>What the calls do to the interest list, without the error cases.\<close>

lemma ModRead_eq:
  "p_set p fd \<noteq> None \<Longrightarrow> ModRead fd p = p\<lparr>p_set := (p_set p)(fd \<mapsto> 0x2011)\<rparr>"
  by (auto simp: ModRead_def EpollCtl_def)

lemma ModReadWrite_eq:
  "p_set p fd \<noteq> None \<Longrightarrow> ModReadWrite fd p = p\<lparr>p_set := (p_set p)(fd \<mapsto> 0x2015)\<rparr>"
  by (auto simp: ModReadWrite_def EpollCtl_def)

lemma ModDetach_eq: "ModDetach fd p = p\<lparr>p_set := (p_set p)(fd := None)\<rparr>"
  by (simp add: ModDetach_def EpollCtl_def fun_upd_idem)

lemma AddRead_eq: "p_set p fd = None \<Longrightarrow> AddRead fd p = p\<lparr>p_set := (p_set p)(fd \<mapsto> 0x2011)\<rparr>"
  by (simp add: AddRead_def EpollCtl_def)

lemma AddRead_watched: "p_set p fd \<noteq> None \<Longrightarrow> AddRead fd p = p"
  by (auto simp: AddRead_def EpollCtl_def)

lemma AddReadWrite_eq: "AddReadWrite fd p = p\<lparr>p_set := (p_set p)(fd \<mapsto> 0x2015)\<rparr>"
  by (simp add: AddReadWrite_def ModReadWrite_def EpollCtl_def)

interpretation epoll: poller watches poll_ok AddRead AddReadWrite ModRead ModReadWrite ModDetach poll_forget
proof unfold_locales
  fix p :: "'note Poll" and fd
  show "poll_ok (AddReadWrite fd p)" if "poll_ok p"
    using that by (simp add: AddReadWrite_eq poll_ok_set)
  show "poll_ok (ModDetach fd p)" if "poll_ok p"
    using that by (simp add: ModDetach_eq poll_ok_set)
  show "poll_ok (poll_forget fd p)" if "poll_ok p"
    using that by (simp add: poll_forget_def poll_ok_set)
  show "poll_ok (AddRead fd p)" if "poll_ok p"
    using that by (cases "p_set p fd") (simp_all add: AddRead_eq AddRead_watched poll_ok_set)
  show "poll_ok (ModRead fd p)" if "poll_ok p" "fst (watches p fd)"
    using that poll_watched [OF that(2)] by (auto simp: ModRead_eq poll_ok_set)
  show "poll_ok (ModReadWrite fd p)" if "poll_ok p" "fst (watches p fd)"
    using that poll_watched [OF that(2)] by (auto simp: ModReadWrite_eq poll_ok_set)
  show "fst (watches p fd)" if "poll_ok p" "snd (watches p fd)"
    using that by (auto simp: poll_ok_def watches_def split: option.splits)
  show "watches (AddRead fd p) = (watches p)(fd := (True, False))" if "poll_ok p" "\<not> fst (watches p fd)"
    using poll_unwatched [OF that] by (simp add: AddRead_eq watches_set)
  show "watches (AddReadWrite fd p) = (watches p)(fd := (True, True))"
    by (simp add: AddReadWrite_eq watches_set)
  show "watches (ModRead fd p) = (watches p)(fd := (True, False))" if "fst (watches p fd)"
    using poll_watched [OF that] by (auto simp: ModRead_eq watches_set)
  show "watches (ModReadWrite fd p) = (watches p)(fd := (True, True))" if "fst (watches p fd)"
    using poll_watched [OF that] by (auto simp: ModReadWrite_eq watches_set)
  show "watches (ModDetach fd p) = (watches p)(fd := (False, False))"
    by (simp add: ModDetach_eq watches_set)
  show "watches (poll_forget fd p) = (watches p)(fd := (False, False))"
    by (simp add: poll_forget_def watches_set)
qed

lemma kq_forget_fold:
  "fold kq_apply (filter (\<lambda>ch. kv_Ident ch \<noteq> fd) chs) {w \<in> ws. fst w \<noteq> fd} = {w \<in> fold kq_apply chs ws. fst w \<noteq> fd}"
proof (induction chs arbitrary: ws)
  case (Cons ch chs)
  show ?case
  proof (cases "kv_Ident ch = fd")
    case True
    then have "{w \<in> kq_apply ch ws. fst w \<noteq> fd} = {w \<in> ws. fst w \<noteq> fd}"
      by (auto simp: kq_apply_def split: kq_flags.splits)
    with True Cons.IH [of "kq_apply ch ws"] show ?thesis by simp
  next
    case False
    then have "kq_apply ch {w \<in> ws. fst w \<noteq> fd} = {w \<in> kq_apply ch ws. fst w \<noteq> fd}"
      by (auto simp: kq_apply_def split: kq_flags.splits)
    with False Cons.IH [of "kq_apply ch ws"] show ?thesis by simp
  qed
qed simp

lemma kq_AddRead_watch: "kq_watches (kq_AddRead fd p) = (kq_watches p)(fd := (True, snd (kq_watches p fd)))"
  by (rule ext) (simp add: kq_watches_def kq_AddRead_def kq_apply_def Let_def)

lemma kq_AddReadWrite_watch: "kq_watches (kq_AddReadWrite fd p) = (kq_watches p)(fd := (True, True))"
  by (rule ext) (simp add: kq_watches_def kq_AddReadWrite_def kq_apply_def Let_def)

lemma kq_ModRead_watch: "kq_watches (kq_ModRead fd p) = (kq_watches p)(fd := (fst (kq_watches p fd), False))"
  by (rule ext) (simp add: kq_watches_def kq_ModRead_def kq_apply_def Let_def)

lemma kq_ModReadWrite_watch: "kq_watches (kq_ModReadWrite fd p) = (kq_watches p)(fd := (fst (kq_watches p fd), True))"
  by (rule ext) (simp add: kq_watches_def kq_ModReadWrite_def kq_apply_def Let_def)

lemma kq_ModDetach_watch: "kq_watches (kq_ModDetach fd p) = (kq_watches p)(fd := (False, False))"
  by (rule ext) (simp add: kq_watches_def kq_ModDetach_def kq_apply_def Let_def)

lemma kq_forget_watch: "kq_watches (kq_forget fd p) = (kq_watches p)(fd := (False, False))"
  by (rule ext) (simp add: kq_watches_def kq_forget_def kq_forget_fold Let_def)

lemmas kq_watch = kq_AddRead_watch kq_AddReadWrite_watch kq_ModRead_watch kq_ModReadWrite_watch
  kq_ModDetach_watch kq_forget_watch

interpretation kqueue: poller kq_watches kq_ok kq_AddRead kq_AddReadWrite kq_ModRead kq_ModReadWrite
  kq_ModDetach kq_forget
proof unfold_locales
  show "kq_watches (kq_AddRead fd p) = (kq_watches p)(fd := (True, False))"
    if "kq_ok p" "\<not> fst (kq_watches p fd)" for p :: "'note KPoll" and fd
  proof -
    from that have "snd (kq_watches p fd) = False" by (auto simp: kq_ok_def)
    then show ?thesis by (simp add: kq_AddRead_watch)
  qed
qed (auto simp: kq_ok_def kq_watch)

end
