(* ===== verification/Event_Loop.thy ===== *)
theory Event_Loop
  imports Evio_Types Net_Addr Poll
begin

text \<open>
  \<^verbatim>\<open>evio_unix.go\<close>: the event loop. The state is the server with its loops, each with its poller and
  its table of connections; connections are objects in a heap, since the table, the notes and the
  clients' connection managers share them. The results of system calls come from a \<open>kernel\<close>, a
  parameter: each call is numbered by a clock, so that repeated calls may answer differently.
  The ghost component \<open>s_wire\<close> records the bytes the kernel accepted on each descriptor.

  The event handlers are functions on the whole state: they may set the context of a connection,
  send on connections and connect out. A result \<open>None\<close> is a run-time panic.

  Every operation, \<^verbatim>\<open>Send\<close> included, is one step: other goroutines act between the operations of a loop
  and not inside them. For one \<^verbatim>\<open>loopRead\<close> the kernel answers with finitely many packets before it
  reports that the input is drained.
\<close>

subsection \<open>System calls\<close>

text \<open>
  A failed \<^verbatim>\<open>syscall.Write\<close> returns the count -1 besides the error. A read ends with an error, of which
  \<^verbatim>\<open>EAGAIN\<close> means that the input is drained, or with the end of the stream.
\<close>

datatype read_end = ReadErr errno | ReadEOF

record kernel =
  k_write :: "nat \<Rightarrow> int \<Rightarrow> bytes \<Rightarrow> nat + errno"
  k_reads :: "nat \<Rightarrow> int \<Rightarrow> bytes list \<times> read_end"
  k_accept :: "nat \<Rightarrow> int \<Rightarrow> (int \<times> sockaddr) + errno"
  k_nonblock :: "nat \<Rightarrow> int \<Rightarrow> errno option"
  k_recvfrom :: "nat \<Rightarrow> int \<Rightarrow> (bytes \<times> sockaddr) + errno"
  k_socket :: "nat \<Rightarrow> int"
  k_connect :: "nat \<Rightarrow> int \<Rightarrow> sockaddr \<Rightarrow> errno option"
  k_trigger :: "nat \<Rightarrow> errno option"
  k_lookup :: "gostring \<Rightarrow> bytes option"
  k_ifname :: "u32 \<Rightarrow> gostring option"
  k_intn :: "nat \<Rightarrow> nat \<Rightarrow> nat"

subsection \<open>Data\<close>

datatype ev_error = errClosing | errCloseConns | SysError errno

type_synonym cid = nat

record 'x conn =
  c_fd :: int
  c_lnidx :: int
  c_loop :: "nat option"
  c_out :: "bytes option"
  c_sa :: "sockaddr option"
  c_reuse :: bool
  c_opened :: bool
  c_action :: Action
  c_ctx :: "'x option"
  c_addrIndex :: int
  c_localAddr :: "netaddr option"
  c_remoteAddr :: "netaddr option"

definition new_conn :: "'x conn" where
  "new_conn = \<lparr>c_fd = 0, c_lnidx = 0, c_loop = None, c_out = None, c_sa = None, c_reuse = False,
     c_opened = False, c_action = NoAction, c_ctx = None, c_addrIndex = 0, c_localAddr = None,
     c_remoteAddr = None\<rparr>"

text \<open>What is posted to a loop: a new outgoing connection, a tick, or an error to stop with.\<close>

datatype loop_note = NoteConn cid | NoteTick | NoteError ev_error

record loop =
  l_idx :: nat
  l_poll :: "loop_note Poll"
  l_fdconns :: "int \<rightharpoonup> cid"
  l_count :: "32 word"

datatype listener_kind = TCPListener | UnixListener | UDPConn

record listener =
  ln_kind :: listener_kind
  ln_lnaddr :: netaddr
  ln_fd :: int

record ('u, 'x) server =
  s_loops :: "loop list"
  s_lns :: "listener list"
  s_balance :: LoadBalance
  s_accepted :: "64 word"
  s_tch :: "int list"
  s_heap :: "cid \<rightharpoonup> 'x conn"
  s_next :: cid
  s_user :: 'u
  s_wire :: "int \<Rightarrow> bytes"
  s_clock :: nat

record ('u, 'x) Events =
  ev_NumLoops :: int
  ev_LoadBalance :: LoadBalance
  ev_Serving :: "(netaddr list \<Rightarrow> nat \<Rightarrow> ('u, 'x) server \<Rightarrow> (Action \<times> ('u, 'x) server) go) option"
  ev_Opened :: "(cid \<Rightarrow> ('u, 'x) server \<Rightarrow> (bytes \<times> Options \<times> Action \<times> ('u, 'x) server) go) option"
  ev_Closed :: "(cid \<Rightarrow> ev_error option \<Rightarrow> ('u, 'x) server \<Rightarrow> (Action \<times> ('u, 'x) server) go) option"
  ev_Detached :: "(cid \<Rightarrow> int \<Rightarrow> ('u, 'x) server \<Rightarrow> (Action \<times> ('u, 'x) server) go) option"
  ev_Data :: "(cid \<Rightarrow> bytes \<Rightarrow> ('u, 'x) server \<Rightarrow> (bytes \<times> Action \<times> ('u, 'x) server) go) option"
  ev_Tick :: "(('u, 'x) server \<Rightarrow> (int \<times> Action \<times> ('u, 'x) server) go) option"

text \<open>The zero value of a server.\<close>

definition new_server :: "'u \<Rightarrow> ('u, 'x) server" where
  "new_server u = \<lparr>s_loops = [], s_lns = [], s_balance = Random, s_accepted = 0, s_tch = [], s_heap = Map.empty,
     s_next = 0, s_user = u, s_wire = (\<lambda>_. []), s_clock = 0\<rparr>"

subsection \<open>Access to the state\<close>

definition upd_conn :: "cid \<Rightarrow> ('x conn \<Rightarrow> 'x conn) \<Rightarrow> ('u, 'x) server \<Rightarrow> ('u, 'x) server" where
  "upd_conn cid f s = s\<lparr>s_heap := (s_heap s)(cid := map_option f (s_heap s cid))\<rparr>"

definition upd_loop :: "nat \<Rightarrow> (loop \<Rightarrow> loop) \<Rightarrow> ('u, 'x) server \<Rightarrow> ('u, 'x) server" where
  "upd_loop i f s = s\<lparr>s_loops := (s_loops s)[i := f (s_loops s ! i)]\<rparr>"

definition upd_poll :: "nat \<Rightarrow> (loop_note Poll \<Rightarrow> loop_note Poll) \<Rightarrow> ('u, 'x) server \<Rightarrow> ('u, 'x) server" where
  "upd_poll i f = upd_loop i (\<lambda>l. l\<lparr>l_poll := f (l_poll l)\<rparr>)"

definition alloc_conn :: "'x conn \<Rightarrow> ('u, 'x) server \<Rightarrow> cid \<times> ('u, 'x) server" where
  "alloc_conn c s = (s_next s, s\<lparr>s_heap := (s_heap s)(s_next s \<mapsto> c), s_next := Suc (s_next s)\<rparr>)"

definition tick :: "('u, 'x) server \<Rightarrow> ('u, 'x) server" where
  "tick s = s\<lparr>s_clock := Suc (s_clock s)\<rparr>"

text \<open>Appending to a byte slice: appending nothing to nil gives nil.\<close>

definition append_out :: "bytes option \<Rightarrow> bytes \<Rightarrow> bytes option" where
  "append_out out data =
     (case out of None \<Rightarrow> if data = [] then None else Some data | Some o' \<Rightarrow> Some (o' @ data))"

definition out_bytes :: "bytes option \<Rightarrow> bytes" where
  "out_bytes out = (case out of None \<Rightarrow> [] | Some o' \<Rightarrow> o')"

definition sys_write :: "kernel \<Rightarrow> int \<Rightarrow> bytes \<Rightarrow> ('u, 'x) server \<Rightarrow> int \<times> errno option \<times> ('u, 'x) server" where
  "sys_write K fd data s =
     (case k_write K (s_clock s) fd data of
        Inl n \<Rightarrow> (int n, None, tick (s\<lparr>s_wire := (s_wire s)(fd := s_wire s fd @ take n data)\<rparr>))
      | Inr err \<Rightarrow> (-1, Some err, tick s))"

text \<open>Closing a connection's descriptor ends its watch; only the poller of its own loop has one.\<close>

definition sys_close :: "nat \<Rightarrow> int \<Rightarrow> ('u, 'x) server \<Rightarrow> ('u, 'x) server" where
  "sys_close i fd s = tick (upd_poll i (poll_forget fd) s)"

subsection \<open>conn\<close>

definition conn_Context :: "cid \<Rightarrow> ('u, 'x) server \<Rightarrow> 'x option go" where
  "conn_Context cid s = map_option c_ctx (s_heap s cid)"

definition conn_SetContext :: "'x option \<Rightarrow> cid \<Rightarrow> ('u, 'x) server \<Rightarrow> ('u, 'x) server" where
  "conn_SetContext ctx cid = upd_conn cid (\<lambda>c. c\<lparr>c_ctx := ctx\<rparr>)"

definition conn_AddrIndex :: "cid \<Rightarrow> ('u, 'x) server \<Rightarrow> int go" where
  "conn_AddrIndex cid s = map_option c_addrIndex (s_heap s cid)"

definition conn_LocalAddr :: "cid \<Rightarrow> ('u, 'x) server \<Rightarrow> netaddr option go" where
  "conn_LocalAddr cid s = map_option c_localAddr (s_heap s cid)"

definition conn_RemoteAddr :: "cid \<Rightarrow> ('u, 'x) server \<Rightarrow> netaddr option go" where
  "conn_RemoteAddr cid s = map_option c_remoteAddr (s_heap s cid)"

text \<open>
  \<^verbatim>\<open>Send\<close>: with output pending the data is appended to it, and then, since the branch does not
  return, written as well. Its result is always a nil error.
\<close>

definition conn_Send :: "kernel \<Rightarrow> cid \<Rightarrow> bytes \<Rightarrow> ('u, 'x) server \<Rightarrow> ('u, 'x) server go" where
  "conn_Send K cid data s = do {
     c \<leftarrow> s_heap s cid;
     let s = (if c_out c \<noteq> None then upd_conn cid (\<lambda>c. c\<lparr>c_out := append_out (c_out c) data\<rparr>) s else s);
     let (n, err, s) = sys_write K (c_fd c) data s;
     if err \<noteq> None then do {
       s \<leftarrow> (if err = Some EAGAIN then do {
              rest \<leftarrow> slice_from data n;
              Some (upd_conn cid (\<lambda>c. c\<lparr>c_out := append_out (c_out c) rest\<rparr>) s)
            }
            else Some s);
       i \<leftarrow> c_loop c;
       Some (upd_poll i (ModReadWrite (c_fd c)) s)
     }
     else if n = int (length data) then Some s
     else do {
       rest \<leftarrow> slice_from data n;
       let s = upd_conn cid (\<lambda>c. c\<lparr>c_out := append_out (c_out c) rest\<rparr>) s;
       i \<leftarrow> c_loop c;
       Some (upd_poll i (ModReadWrite (c_fd c)) s)
     }
   }"

subsection \<open>Closing and detaching\<close>

definition loopCloseConn ::
  "('u, 'x) Events \<Rightarrow> nat \<Rightarrow> cid \<Rightarrow> ev_error option \<Rightarrow> ('u, 'x) server \<Rightarrow> (ev_error option \<times> ('u, 'x) server) go" where
  "loopCloseConn Ev i cid err s = do {
     c \<leftarrow> s_heap s cid;
     let s = upd_loop i (\<lambda>l. l\<lparr>l_count := l_count l + (-1)\<rparr>) s;
     let s = upd_loop i (\<lambda>l. l\<lparr>l_fdconns := (l_fdconns l)(c_fd c := None)\<rparr>) s;
     let s = sys_close i (c_fd c) s;
     case ev_Closed Ev of
       None \<Rightarrow> Some (None, s)
     | Some closed \<Rightarrow> do {
         (action, s) \<leftarrow> closed cid err s;
         Some (if action = Shutdown then Some errClosing else None, s)
       }
   }"

definition loopDetachConn ::
  "kernel \<Rightarrow> ('u, 'x) Events \<Rightarrow> nat \<Rightarrow> cid \<Rightarrow> ev_error option \<Rightarrow> ('u, 'x) server \<Rightarrow>
   (ev_error option \<times> ('u, 'x) server) go" where
  "loopDetachConn K Ev i cid err s =
     (case ev_Detached Ev of
        None \<Rightarrow> loopCloseConn Ev i cid err s
      | Some detached \<Rightarrow> do {
          c \<leftarrow> s_heap s cid;
          let s = upd_poll i (ModDetach (c_fd c)) s;
          let s = upd_loop i (\<lambda>l. l\<lparr>l_count := l_count l + (-1)\<rparr>) s;
          let s = upd_loop i (\<lambda>l. l\<lparr>l_fdconns := (l_fdconns l)(c_fd c := None)\<rparr>) s;
          let err = k_nonblock K (s_clock s) (c_fd c);
          let s = tick s;
          if err \<noteq> None then Some (map_option SysError err, s)
          else do {
            (action, s) \<leftarrow> detached cid (c_fd c) s;
            Some (if action = Shutdown then Some errClosing else None, s)
          }
        })"

subsection \<open>Notes\<close>

text \<open>A tick without a \<^verbatim>\<open>Tick\<close> event would call a nil function.\<close>

definition loopNote ::
  "('u, 'x) Events \<Rightarrow> loop_note \<Rightarrow> ('u, 'x) server \<Rightarrow> (ev_error option \<times> ('u, 'x) server) go" where
  "loopNote Ev note s =
     (case note of
        NoteTick \<Rightarrow> do {
          tick' \<leftarrow> ev_Tick Ev;
          (delay, action, s) \<leftarrow> tick' s;
          let err = (if action = Shutdown then Some errClosing else None);
          Some (err, s\<lparr>s_tch := s_tch s @ [delay]\<rparr>)
        }
      | NoteError err \<Rightarrow> Some (Some err, s)
      | NoteConn cid \<Rightarrow> Some (None, s))"

subsection \<open>Opening, reading, writing\<close>

definition opened_addr :: "cid \<Rightarrow> ('u, 'x) server \<Rightarrow> ('u, 'x) server go" where
  "opened_addr cid s = do {
     c \<leftarrow> s_heap s cid;
     if c_lnidx c \<ge> 0 then do {
       ln \<leftarrow> index (s_lns s) (c_lnidx c);
       Some (upd_conn cid (\<lambda>c. c\<lparr>c_addrIndex := c_lnidx c, c_localAddr := Some (ln_lnaddr ln)\<rparr>) s)
     }
     else Some s
   }"

definition opened_event :: "('u, 'x) Events \<Rightarrow> cid \<Rightarrow> ('u, 'x) server \<Rightarrow> ('u, 'x) server go" where
  "opened_event Ev cid s =
     (case ev_Opened Ev of
        None \<Rightarrow> Some s
      | Some opened \<Rightarrow> do {
          (out, opts, action, s) \<leftarrow> opened cid s;
          let s = (if length out > 0 then upd_conn cid (\<lambda>c. c\<lparr>c_out := Some out\<rparr>) s else s);
          let s = upd_conn cid (\<lambda>c. c\<lparr>c_action := action, c_reuse := ReuseInputBuffer opts\<rparr>) s;
          if TCPKeepAlive opts > 0 then do {
            c \<leftarrow> s_heap s cid;
            ln \<leftarrow> index (s_lns s) (c_lnidx c);
            Some (if ln_kind ln = TCPListener then tick s else s)
          }
          else Some s
        })"

definition loopOpened ::
  "kernel \<Rightarrow> ('u, 'x) Events \<Rightarrow> nat \<Rightarrow> cid \<Rightarrow> ('u, 'x) server \<Rightarrow> (ev_error option \<times> ('u, 'x) server) go" where
  "loopOpened K Ev i cid s = do {
     let s = upd_conn cid (\<lambda>c. c\<lparr>c_opened := True\<rparr>) s;
     s \<leftarrow> opened_addr cid s;
     let s = upd_conn cid (\<lambda>c. c\<lparr>c_remoteAddr := SockaddrToAddr (k_ifname K) (c_sa c)\<rparr>) s;
     s \<leftarrow> opened_event Ev cid s;
     c \<leftarrow> s_heap s cid;
     Some (None, if length (out_bytes (c_out c)) = 0 \<and> c_action c = NoAction
                 then upd_poll i (ModRead (c_fd c)) s else s)
   }"

definition loopWrite ::
  "kernel \<Rightarrow> ('u, 'x) Events \<Rightarrow> nat \<Rightarrow> cid \<Rightarrow> ('u, 'x) server \<Rightarrow> (bool \<times> ev_error option \<times> ('u, 'x) server) go" where
  "loopWrite K Ev i cid s = do {
     c \<leftarrow> s_heap s cid;
     case c_out c of
       None \<Rightarrow> Some (False, None, upd_poll i (ModRead (c_fd c)) s)
     | Some out \<Rightarrow> do {
         let (n, err, s) = sys_write K (c_fd c) out s;
         if err \<noteq> None then
           if err = Some EAGAIN then Some (True, None, s)
           else do {
             (err, s) \<leftarrow> loopCloseConn Ev i cid (map_option SysError err) s;
             Some (True, err, s)
           }
         else do {
           out' \<leftarrow> (if n = int (length out) then Some None else map_option Some (slice_from out n));
           let s = upd_conn cid (\<lambda>c. c\<lparr>c_out := out'\<rparr>) s;
           Some (True, None, if length (out_bytes out') = 0 \<and> c_action c = NoAction
                             then upd_poll i (ModRead (c_fd c)) s else s)
         }
       }
   }"

definition loopAction ::
  "kernel \<Rightarrow> ('u, 'x) Events \<Rightarrow> nat \<Rightarrow> cid \<Rightarrow> ('u, 'x) server \<Rightarrow> (ev_error option \<times> ('u, 'x) server) go" where
  "loopAction K Ev i cid s = do {
     c \<leftarrow> s_heap s cid;
     case c_action c of
       Close \<Rightarrow> loopCloseConn Ev i cid None s
     | Shutdown \<Rightarrow> Some (Some errClosing, s)
     | Detach \<Rightarrow> loopDetachConn K Ev i cid None s
     | NoAction \<Rightarrow>
         let s = upd_conn cid (\<lambda>c. c\<lparr>c_action := NoAction\<rparr>) s in
         Some (None, if length (out_bytes (c_out c)) = 0 then upd_poll i (ModRead (c_fd c)) s else s)
   }"

text \<open>One packet of \<^verbatim>\<open>loopRead\<close>, and the loop over the packets that the kernel has.\<close>

definition read_event ::
  "('u, 'x) Events \<Rightarrow> nat \<Rightarrow> cid \<Rightarrow> bytes \<Rightarrow> ('u, 'x) server \<Rightarrow> ('u, 'x) server go" where
  "read_event Ev i cid packet s =
     (case ev_Data Ev of
        None \<Rightarrow> Some s
      | Some data \<Rightarrow> do {
          (out, action, s) \<leftarrow> data cid packet s;
          let s = upd_conn cid (\<lambda>c. c\<lparr>c_action := action\<rparr>) s;
          c \<leftarrow> s_heap s cid;
          Some (if length out > 0
                then upd_poll i (ModReadWrite (c_fd c)) (upd_conn cid (\<lambda>c. c\<lparr>c_out := append_out (c_out c) out\<rparr>) s)
                else s)
        })"

definition loopRead_packet ::
  "('u, 'x) Events \<Rightarrow> nat \<Rightarrow> cid \<Rightarrow> bytes \<Rightarrow> ('u, 'x) server \<Rightarrow> ('u, 'x) server go" where
  "loopRead_packet Ev i cid packet s = do {
     s \<leftarrow> read_event Ev i cid packet s;
     c \<leftarrow> s_heap s cid;
     Some (if c_action c \<noteq> NoAction then upd_poll i (ModReadWrite (c_fd c)) s else s)
   }"

fun loopRead_loop ::
  "('u, 'x) Events \<Rightarrow> nat \<Rightarrow> cid \<Rightarrow> bytes list \<Rightarrow> read_end \<Rightarrow> ('u, 'x) server \<Rightarrow>
   (ev_error option \<times> ('u, 'x) server) go" where
  "loopRead_loop Ev i cid [] fin s =
     (case fin of
        ReadErr err \<Rightarrow> if err = EAGAIN then Some (None, s) else loopCloseConn Ev i cid (Some (SysError err)) s
      | ReadEOF \<Rightarrow> loopCloseConn Ev i cid None s)"
| "loopRead_loop Ev i cid (packet # packets) fin s = do {
     s \<leftarrow> loopRead_packet Ev i cid packet s;
     loopRead_loop Ev i cid packets fin s
   }"

definition loopRead ::
  "kernel \<Rightarrow> ('u, 'x) Events \<Rightarrow> nat \<Rightarrow> cid \<Rightarrow> ('u, 'x) server \<Rightarrow> (ev_error option \<times> ('u, 'x) server) go" where
  "loopRead K Ev i cid s = do {
     c \<leftarrow> s_heap s cid;
     let (packets, fin) = k_reads K (s_clock s) (c_fd c);
     loopRead_loop Ev i cid packets fin (tick s)
   }"

subsection \<open>Accepting\<close>

text \<open>A UDP packet, answered from a connection object that lives for the one event.\<close>

definition udp_addr :: "sockaddr \<Rightarrow> sockaddr" where
  "udp_addr sa =
     (case sa of
        SockaddrInet4 a p \<Rightarrow> SockaddrInet6 (replicate 12 0 @ take 4 a) p 0
      | SockaddrInet6 a p z \<Rightarrow> SockaddrInet6 a p z
      | SockaddrUnix name \<Rightarrow> SockaddrInet6 (replicate 16 0) 0 0)"

definition loopUDPRead ::
  "kernel \<Rightarrow> ('u, 'x) Events \<Rightarrow> nat \<Rightarrow> nat \<Rightarrow> int \<Rightarrow> ('u, 'x) server \<Rightarrow> (ev_error option \<times> ('u, 'x) server) go" where
  "loopUDPRead K Ev i lnidx fd s =
     (case k_recvfrom K (s_clock s) fd of
        Inr err \<Rightarrow> Some (None, tick s)
      | Inl (packet, sa) \<Rightarrow>
          let s = tick s in
          if length packet = 0 then Some (None, s)
          else case ev_Data Ev of
            None \<Rightarrow> Some (None, s)
          | Some data \<Rightarrow> do {
              ln \<leftarrow> index (s_lns s) (int lnidx);
              let (cid, s) = alloc_conn (new_conn\<lparr>c_addrIndex := int lnidx, c_localAddr := Some (ln_lnaddr ln),
                c_remoteAddr := SockaddrToAddr (k_ifname K) (Some (udp_addr sa))\<rparr>) s;
              (out, action, s) \<leftarrow> data cid packet s;
              let s = (if length out > 0 then tick (s\<lparr>s_wire := (s_wire s)(fd := s_wire s fd @ out)\<rparr>) else s);
              Some (if action = Shutdown then Some errClosing else None, s)
            })"

text \<open>Go's remainder has the sign of the dividend.\<close>

definition go_rem :: "int \<Rightarrow> int \<Rightarrow> int" where
  "go_rem a b = (if a < 0 then - ((- a) mod b) else a mod b)"

text \<open>Whether loop \<open>i\<close> is to accept now, with the accept counter updated.\<close>

definition accept_balance :: "nat \<Rightarrow> ('u, 'x) server \<Rightarrow> bool \<times> ('u, 'x) server" where
  "accept_balance i s =
     (if length (s_loops s) > 1 then
        case s_balance s of
          LeastConnections \<Rightarrow>
            let n = l_count (s_loops s ! i) in
            (\<not> list_ex (\<lambda>lp. l_idx lp \<noteq> l_idx (s_loops s ! i) \<and> sint (l_count lp) < sint n) (s_loops s), s)
        | RoundRobin \<Rightarrow>
            if go_rem (sint (s_accepted s)) (int (length (s_loops s))) \<noteq> int (l_idx (s_loops s ! i)) then (False, s)
            else (True, s\<lparr>s_accepted := s_accepted s + 1\<rparr>)
        | Random \<Rightarrow> (True, s)
      else (True, s))"

fun accept_loop ::
  "kernel \<Rightarrow> ('u, 'x) Events \<Rightarrow> nat \<Rightarrow> int \<Rightarrow> nat \<Rightarrow> listener list \<Rightarrow> ('u, 'x) server \<Rightarrow>
   (ev_error option \<times> ('u, 'x) server) go" where
  "accept_loop K Ev i fd k [] s = Some (None, s)"
| "accept_loop K Ev i fd k (ln # lns) s =
     (if ln_fd ln = fd then
        let (ok, s) = accept_balance i s in
        if \<not> ok then Some (None, s)
        else if ln_kind ln = UDPConn then loopUDPRead K Ev i k fd s
        else case k_accept K (s_clock s) fd of
          Inr err \<Rightarrow> if err = EAGAIN then Some (None, tick s) else Some (Some (SysError err), tick s)
        | Inl (nfd, sa) \<Rightarrow>
            let s = tick s in
            case k_nonblock K (s_clock s) nfd of
              Some err \<Rightarrow> Some (Some (SysError err), tick s)
            | None \<Rightarrow>
                let s = (tick s)\<lparr>s_wire := (s_wire s)(nfd := [])\<rparr>;
                    (cid, s) = alloc_conn (new_conn\<lparr>c_fd := nfd, c_sa := Some sa, c_lnidx := int k, c_loop := Some i\<rparr>) s;
                    s = upd_loop i (\<lambda>l. l\<lparr>l_fdconns := (l_fdconns l)(nfd \<mapsto> cid)\<rparr>) s;
                    s = upd_poll i (AddReadWrite nfd) s
                in Some (None, upd_loop i (\<lambda>l. l\<lparr>l_count := l_count l + 1\<rparr>) s)
      else accept_loop K Ev i fd (Suc k) lns s)"

definition loopAccept ::
  "kernel \<Rightarrow> ('u, 'x) Events \<Rightarrow> nat \<Rightarrow> int \<Rightarrow> ('u, 'x) server \<Rightarrow> (ev_error option \<times> ('u, 'x) server) go" where
  "loopAccept K Ev i fd s = accept_loop K Ev i fd 0 (s_lns s) s"

subsection \<open>Connecting out\<close>

text \<open>The loop for an outgoing connection: the first with the fewest connections, the next one,
  or a random one.\<close>

fun least_loop :: "int \<Rightarrow> nat \<Rightarrow> nat \<Rightarrow> loop list \<Rightarrow> nat" where
  "least_loop minConn idx k [] = idx"
| "least_loop minConn idx k (l # ls) =
     (let count = sint (l_count l) in
      if count < minConn then least_loop count k (Suc k) ls else least_loop minConn idx (Suc k) ls)"

definition choose_loop :: "kernel \<Rightarrow> ('u, 'x) server \<Rightarrow> int \<times> ('u, 'x) server" where
  "choose_loop K s =
     (if length (s_loops s) > 1 then
        case s_balance s of
          LeastConnections \<Rightarrow> (int (least_loop 0x7FFFFFFF 0 0 (s_loops s)), s)
        | RoundRobin \<Rightarrow>
            let newCount = s_accepted s + 1;
                s = s\<lparr>s_accepted := newCount\<rparr>
            in (go_rem (sint newCount) (int (length (s_loops s))), s)
        | Random \<Rightarrow> (int (k_intn K (s_clock s) (length (s_loops s))), tick s)
      else (0, s))"

definition outConnect ::
  "kernel \<Rightarrow> gostring \<Rightarrow> int \<Rightarrow> 'x option \<Rightarrow> ('u, 'x) server \<Rightarrow>
   (cid option \<times> errno option \<times> ('u, 'x) server) go" where
  "outConnect K addr port ctx s = do {
     let fd = k_socket K (s_clock s);
     let s = tick s;
     let ip = (case k_lookup K addr of None \<Rightarrow> [] | Some ip \<Rightarrow> ip);
     let sa = SockaddrInet4 (copy_at 0 (take 4 ip) [0, 0, 0, 0]) port;
     let err = k_connect K (s_clock s) fd sa;
     let s = tick s;
     if err \<noteq> None then Some (None, err, s)
     else do {
       let err = k_nonblock K (s_clock s) fd;
       let s = (tick s)\<lparr>s_wire := (s_wire s)(fd := [])\<rparr>;
       let (idx, s) = choose_loop K s;
       l \<leftarrow> index (s_loops s) idx;
       let i = nat idx;
       let (cid, s) = alloc_conn (new_conn\<lparr>c_fd := fd, c_sa := Some sa, c_lnidx := -1, c_loop := Some i\<rparr>) s;
       let s = conn_SetContext ctx cid s;
       let s = upd_poll i (AddRead fd) s;
       let s = upd_poll i (\<lambda>p. snd (Trigger (k_trigger K (s_clock s)) (NoteConn cid) p)) s;
       Some (Some cid, err, tick s)
     }
   }"

subsection \<open>The loop\<close>

text \<open>The callback of \<^verbatim>\<open>loopRun\<close>. Descriptor 0 marks a note.\<close>

definition loop_event ::
  "kernel \<Rightarrow> ('u, 'x) Events \<Rightarrow> nat \<Rightarrow> int \<Rightarrow> loop_note option \<Rightarrow> nat \<Rightarrow> ('u, 'x) server \<Rightarrow>
   (ev_error option \<times> ('u, 'x) server) go" where
  "loop_event K Ev i fd note event s =
     (if fd = 0 then
        case note of
          Some (NoteConn cid) \<Rightarrow> do {
            c \<leftarrow> s_heap s cid;
            let s = upd_loop i (\<lambda>l. l\<lparr>l_fdconns := (l_fdconns l)(c_fd c \<mapsto> cid)\<rparr>) s;
            Some (None, upd_poll i (AddReadWrite (c_fd c)) s)
          }
        | Some n \<Rightarrow> loopNote Ev n s
        | None \<Rightarrow> Some (None, s)
      else case l_fdconns (s_loops s ! i) fd of
          None \<Rightarrow> loopAccept K Ev i fd s
        | Some cid \<Rightarrow> do {
            c \<leftarrow> s_heap s cid;
            if \<not> c_opened c then loopOpened K Ev i cid s
            else if event AND PollEvent_Write \<noteq> 0 then do {
              (sendFlag, err, s) \<leftarrow> loopWrite K Ev i cid s;
              if \<not> sendFlag then loopRead K Ev i cid s else Some (err, s)
            }
            else if c_action c \<noteq> NoAction then loopAction K Ev i cid s
            else loopRead K Ev i cid s
          })"

text \<open>The notes of a loop's poller, as \<^verbatim>\<open>ForEach\<close> reaches them.\<close>

definition loop_notes :: "nat \<Rightarrow> ('u, 'x) server \<Rightarrow> loop_note noteQueue" where
  "loop_notes i s = p_notes (l_poll (s_loops s ! i))"

definition put_notes :: "nat \<Rightarrow> loop_note noteQueue \<Rightarrow> ('u, 'x) server \<Rightarrow> ('u, 'x) server" where
  "put_notes i q = upd_poll i (\<lambda>p. p\<lparr>p_notes := q\<rparr>)"

text \<open>\<^verbatim>\<open>loopRun\<close>: \<^verbatim>\<open>Wait\<close> with this callback over the successive answers of the poller.\<close>

definition loopRun ::
  "kernel \<Rightarrow> ('u, 'x) Events \<Rightarrow> nat \<Rightarrow> (epoll_event list + errno) list \<Rightarrow> ('u, 'x) server \<Rightarrow>
   (ev_error wait_result \<times> ('u, 'x) server) go" where
  "loopRun K Ev i rounds s =
     Wait (loop_notes i) (put_notes i) (p_wfd (l_poll (s_loops s ! i))) SysError (loop_event K Ev i) rounds s"

text \<open>\<^verbatim>\<open>loopTicker\<close> posts a tick and sleeps for the delay the tick returned; one round.\<close>

definition loopTicker_round :: "kernel \<Rightarrow> nat \<Rightarrow> ('u, 'x) server \<Rightarrow> errno option \<times> ('u, 'x) server" where
  "loopTicker_round K i s =
     (k_trigger K (s_clock s), tick (upd_poll i (\<lambda>p. snd (Trigger (k_trigger K (s_clock s)) NoteTick p)) s))"

subsection \<open>serve\<close>

definition serve_numLoops :: "nat \<Rightarrow> int \<Rightarrow> nat" where
  "serve_numLoops ncpu n = (if n \<le> 0 then if n = 0 then 1 else ncpu else nat n)"

definition new_loop :: "listener list \<Rightarrow> nat \<Rightarrow> int \<times> int \<Rightarrow> loop" where
  "new_loop lns i fds =
     \<lparr>l_idx = i, l_poll = fold (\<lambda>ln. AddRead (ln_fd ln)) lns (OpenPoll (fst fds) (snd fds)),
      l_fdconns = Map.empty, l_count = 0\<rparr>"

text \<open>
  The start of \<^verbatim>\<open>serve\<close>: \<open>Inl\<close> when the \<^verbatim>\<open>Serving\<close> event stopped it, otherwise the running server; \<open>fds\<close> are
  the poll and wake descriptors of the loops.
\<close>

definition serve_start ::
  "nat \<Rightarrow> (nat \<Rightarrow> int \<times> int) \<Rightarrow> ('u, 'x) Events \<Rightarrow> listener list \<Rightarrow> ('u, 'x) server \<Rightarrow>
   (('u, 'x) server + ('u, 'x) server) go" where
  "serve_start ncpu fds Ev lns s = do {
     let numLoops = serve_numLoops ncpu (ev_NumLoops Ev);
     let s = s\<lparr>s_lns := lns, s_balance := ev_LoadBalance Ev, s_tch := []\<rparr>;
     (action, s) \<leftarrow> (case ev_Serving Ev of
         None \<Rightarrow> Some (NoAction, s)
       | Some serving \<Rightarrow> serving (map ln_lnaddr lns) numLoops s);
     if action = Shutdown then Some (Inl s)
     else Some (Inr (s\<lparr>s_loops := s_loops s @ map (\<lambda>i. new_loop lns i (fds i)) [0..<numLoops]\<rparr>))
   }"

text \<open>The deferred end of \<^verbatim>\<open>serve\<close>: every loop is told to stop, and when all have, every connection
  left is closed; \<open>conns\<close> lists a loop's connections in the order of the map iteration.\<close>

definition serve_stop :: "kernel \<Rightarrow> ('u, 'x) server \<Rightarrow> ('u, 'x) server" where
  "serve_stop K s =
     fold (\<lambda>i s. tick (upd_poll i (\<lambda>p. snd (Trigger (k_trigger K (s_clock s)) (NoteError errClosing) p)) s))
       [0..<length (s_loops s)] s"

fun close_conns :: "('u, 'x) Events \<Rightarrow> (nat \<times> cid) list \<Rightarrow> ('u, 'x) server \<Rightarrow> ('u, 'x) server go" where
  "close_conns Ev [] s = Some s"
| "close_conns Ev ((i, cid) # conns) s = do {
     (err, s) \<leftarrow> loopCloseConn Ev i cid None s;
     close_conns Ev conns s
   }"

subsection \<open>detachedConn\<close>

text \<open>
  \<^verbatim>\<open>Write\<close> writes until all is out, over the successive answers of the kernel: the error, the bytes
  that went out. \<open>None\<close> means that it waits for one more answer. It returns the full length, also
  together with an error.
\<close>

fun detached_Write_loop :: "(nat + errno) list \<Rightarrow> bytes \<Rightarrow> (errno option \<times> bytes) option" where
  "detached_Write_loop [] p = (if length p > 0 then None else Some (None, []))"
| "detached_Write_loop (r # rs) p =
     (if length p > 0 then
        case r of
          Inr err \<Rightarrow> Some (Some err, [])
        | Inl nn \<Rightarrow> map_option (\<lambda>(err, w). (err, take nn p @ w)) (detached_Write_loop rs (drop nn p))
      else Some (None, []))"

definition detached_Write :: "(nat + errno) list \<Rightarrow> bytes \<Rightarrow> (nat \<times> errno option \<times> bytes) option" where
  "detached_Write rs p =
     (let n = length p in map_option (\<lambda>(err, w). (n, err, w)) (detached_Write_loop rs p))"

record detachedConn =
  dc_fd :: int

text \<open>\<open>close\<close> is the result of the system call.\<close>

definition detached_Close :: "(int \<Rightarrow> errno option) \<Rightarrow> detachedConn \<Rightarrow> errno option \<times> detachedConn" where
  "detached_Close close c =
     (case close (dc_fd c) of
        Some err \<Rightarrow> (Some err, c)
      | None \<Rightarrow> (None, c\<lparr>dc_fd := -1\<rparr>))"

end
