(* ===== verification/Loop_Invariant.thy ===== *)
theory Loop_Invariant
  imports Event_Loop
begin

text \<open>
  The invariant of the event loop and that every operation keeps it. The table of a loop lists
  live connection objects of that loop under their own descriptors, every listed descriptor is
  watched for reading, and one with pending output is watched for writing, so that the output
  is tried again. The event handlers are the assumptions of the locale \<open>callbacks\<close>.
\<close>

subsection \<open>The invariant\<close>

text \<open>A connection wants to write when it has output, and before it was opened.\<close>

definition wants_write :: "'x conn \<Rightarrow> bool" where
  "wants_write c \<longleftrightarrow> c_out c \<noteq> None \<or> \<not> c_opened c"

definition conn_ok :: "nat \<Rightarrow> loop_note Poll \<Rightarrow> (cid \<rightharpoonup> 'x conn) \<Rightarrow> int \<Rightarrow> cid \<Rightarrow> bool" where
  "conn_ok i p h fd cid =
     (case h cid of
        None \<Rightarrow> False
      | Some c \<Rightarrow> c_fd c = fd \<and> c_loop c = Some i \<and> fst (watches p fd) \<and>
          (wants_write c \<longrightarrow> snd (watches p fd)))"

definition note_ok :: "nat \<Rightarrow> (cid \<rightharpoonup> 'x conn) \<Rightarrow> loop_note \<Rightarrow> bool" where
  "note_ok i h n = (case n of NoteConn cid \<Rightarrow> \<exists>c. h cid = Some c \<and> c_loop c = Some i | _ \<Rightarrow> True)"

definition loop_ok :: "(cid \<rightharpoonup> 'x conn) \<Rightarrow> nat \<Rightarrow> loop \<Rightarrow> bool" where
  "loop_ok h i l \<longleftrightarrow> l_idx l = i \<and> poll_ok (l_poll l) \<and>
     (\<forall>fd cid. l_fdconns l fd = Some cid \<longrightarrow> conn_ok i (l_poll l) h fd cid) \<and>
     (\<forall>n\<in>set (nq_notes (p_notes (l_poll l))). note_ok i h n)"

definition heap_ok :: "(cid \<rightharpoonup> 'x conn) \<Rightarrow> cid \<Rightarrow> bool" where
  "heap_ok h k \<longleftrightarrow> (\<forall>cid c. h cid = Some c \<longrightarrow> cid < k \<and> c_out c \<noteq> Some [])"

definition ev_inv :: "('u, 'x) server \<Rightarrow> bool" where
  "ev_inv s \<longleftrightarrow> heap_ok (s_heap s) (s_next s) \<and>
     (\<forall>i < length (s_loops s). loop_ok (s_heap s) i (s_loops s ! i))"

text \<open>
  What an operation leaves alone: connection objects stay, with their descriptor and loop, opened
  ones stay opened, and no loop disappears. The event handlers moreover leave the tables alone and
  take no write watch away.
\<close>

definition heap_keeps :: "(cid \<rightharpoonup> 'x conn) \<Rightarrow> (cid \<rightharpoonup> 'x conn) \<Rightarrow> bool" where
  "heap_keeps h h' \<longleftrightarrow> (\<forall>cid c. h cid = Some c \<longrightarrow>
     (\<exists>c'. h' cid = Some c' \<and> c_fd c' = c_fd c \<and> c_loop c' = c_loop c \<and> (c_opened c \<longrightarrow> c_opened c')))"

definition grows :: "('u, 'x) server \<Rightarrow> ('u, 'x) server \<Rightarrow> bool" where
  "grows s s' \<longleftrightarrow> ev_inv s' \<and> heap_keeps (s_heap s) (s_heap s') \<and> length (s_loops s') = length (s_loops s)"

definition keeps_loop :: "loop \<Rightarrow> loop \<Rightarrow> bool" where
  "keeps_loop l l' \<longleftrightarrow> l_fdconns l' = l_fdconns l \<and>
     (\<forall>fd. snd (watches (l_poll l) fd) \<longrightarrow> snd (watches (l_poll l') fd))"

definition keeps :: "('u, 'x) server \<Rightarrow> ('u, 'x) server \<Rightarrow> bool" where
  "keeps s s' \<longleftrightarrow> grows s s' \<and> (\<forall>i < length (s_loops s). keeps_loop (s_loops s ! i) (s_loops s' ! i))"

text \<open>A connection in the table of its loop.\<close>

definition listed :: "nat \<Rightarrow> cid \<Rightarrow> ('u, 'x) server \<Rightarrow> bool" where
  "listed i cid s \<longleftrightarrow> i < length (s_loops s) \<and>
     (\<exists>c. s_heap s cid = Some c \<and> c_loop c = Some i \<and> l_fdconns (s_loops s ! i) (c_fd c) = Some cid)"

subsection \<open>State access\<close>

lemma upd_conn_simps [simp]:
  "s_loops (upd_conn cid f s) = s_loops s" "s_next (upd_conn cid f s) = s_next s"
  "s_heap (upd_conn cid f s) = (s_heap s)(cid := map_option f (s_heap s cid))"
  "s_lns (upd_conn cid f s) = s_lns s" "s_wire (upd_conn cid f s) = s_wire s"
  "s_clock (upd_conn cid f s) = s_clock s" "s_user (upd_conn cid f s) = s_user s"
  by (simp_all add: upd_conn_def)

lemma upd_loop_simps [simp]:
  "s_loops (upd_loop i g s) = (s_loops s)[i := g (s_loops s ! i)]" "s_next (upd_loop i g s) = s_next s"
  "s_heap (upd_loop i g s) = s_heap s" "s_lns (upd_loop i g s) = s_lns s" "s_wire (upd_loop i g s) = s_wire s"
  "s_clock (upd_loop i g s) = s_clock s" "s_user (upd_loop i g s) = s_user s"
  by (simp_all add: upd_loop_def)

lemma upd_poll_simps [simp]:
  "s_loops (upd_poll i g s) = (s_loops s)[i := (s_loops s ! i)\<lparr>l_poll := g (l_poll (s_loops s ! i))\<rparr>]"
  "s_next (upd_poll i g s) = s_next s" "s_heap (upd_poll i g s) = s_heap s" "s_lns (upd_poll i g s) = s_lns s"
  "s_wire (upd_poll i g s) = s_wire s" "s_clock (upd_poll i g s) = s_clock s" "s_user (upd_poll i g s) = s_user s"
  by (simp_all add: upd_poll_def)

lemma tick_simps [simp]:
  "s_loops (tick s) = s_loops s" "s_next (tick s) = s_next s" "s_heap (tick s) = s_heap s"
  "s_lns (tick s) = s_lns s" "s_wire (tick s) = s_wire s" "s_user (tick s) = s_user s"
  "s_clock (tick s) = Suc (s_clock s)"
  by (simp_all add: tick_def)

lemma alloc_conn_simps:
  "alloc_conn c s = (cid, s') \<Longrightarrow> cid = s_next s \<and> s_heap s' = (s_heap s)(s_next s \<mapsto> c) \<and>
     s_next s' = Suc (s_next s) \<and> s_loops s' = s_loops s \<and> s_lns s' = s_lns s \<and> s_wire s' = s_wire s \<and>
     s_clock s' = s_clock s \<and> s_user s' = s_user s"
  by (auto simp: alloc_conn_def)

lemma sys_write_simps:
  "sys_write K fd data s = (n, err, s') \<Longrightarrow> s_heap s' = s_heap s \<and> s_loops s' = s_loops s \<and> s_next s' = s_next s \<and>
     s_lns s' = s_lns s \<and> s_user s' = s_user s"
  by (auto simp: sys_write_def split: sum.splits)

text \<open>The invariant looks at the loops, the heap and the next object only.\<close>

lemma ev_inv_cong:
  "s_loops s' = s_loops s \<Longrightarrow> s_heap s' = s_heap s \<Longrightarrow> s_next s' = s_next s \<Longrightarrow> ev_inv s' = ev_inv s"
  by (simp add: ev_inv_def)

lemma heap_keeps_refl [simp]: "heap_keeps h h"
  by (simp add: heap_keeps_def)

lemma heap_keeps_trans: "heap_keeps h h' \<Longrightarrow> heap_keeps h' h'' \<Longrightarrow> heap_keeps h h''"
  unfolding heap_keeps_def by metis

lemma grows_refl: "ev_inv s \<Longrightarrow> grows s s"
  by (simp add: grows_def)

lemma grows_trans [trans]: "grows s s' \<Longrightarrow> grows s' s'' \<Longrightarrow> grows s s''"
  by (auto simp: grows_def intro: heap_keeps_trans)

lemma grows_inv: "grows s s' \<Longrightarrow> ev_inv s'"
  by (simp add: grows_def)

lemma keeps_refl: "ev_inv s \<Longrightarrow> keeps s s"
  by (simp add: keeps_def grows_refl keeps_loop_def)

lemma keeps_trans [trans]: "keeps s s' \<Longrightarrow> keeps s' s'' \<Longrightarrow> keeps s s''"
  by (auto simp: keeps_def keeps_loop_def grows_def intro: heap_keeps_trans)

lemma keeps_grows: "keeps s s' \<Longrightarrow> grows s s'"
  by (simp add: keeps_def)

lemma keeps_inv: "keeps s s' \<Longrightarrow> ev_inv s'"
  by (simp add: keeps_def grows_def)

lemma keeps_grows_trans [trans]: "keeps s s' \<Longrightarrow> grows s' s'' \<Longrightarrow> grows s s''"
  by (rule grows_trans [OF keeps_grows])

lemma keeps_length: "keeps s s' \<Longrightarrow> length (s_loops s') = length (s_loops s)"
  by (simp add: keeps_def grows_def)

lemma keeps_heap: "keeps s s' \<Longrightarrow> s_heap s cid = Some c \<Longrightarrow>
    \<exists>c'. s_heap s' cid = Some c' \<and> c_fd c' = c_fd c \<and> c_loop c' = c_loop c \<and> (c_opened c \<longrightarrow> c_opened c')"
  by (auto simp: keeps_def grows_def heap_keeps_def)

lemma keeps_listed: "keeps s s' \<Longrightarrow> listed i cid s \<Longrightarrow> listed i cid s'"
  using keeps_heap [of s s' cid]
  by (fastforce simp: listed_def keeps_def grows_def keeps_loop_def)

lemma keeps_other:
  assumes "ev_inv s" and "s_loops s' = s_loops s" and "s_heap s' = s_heap s" and "s_next s' = s_next s"
  shows "keeps s s'"
  using assms ev_inv_cong [OF assms(2-4)] by (simp add: keeps_def grows_def keeps_loop_def)

lemma conn_ok_iff: "conn_ok i p h fd cid \<longleftrightarrow> (\<exists>c. h cid = Some c \<and> c_fd c = fd \<and> c_loop c = Some i \<and>
    fst (watches p fd) \<and> (wants_write c \<longrightarrow> snd (watches p fd)))"
  by (auto simp: conn_ok_def split: option.splits)

lemma ev_inv_loop: "ev_inv s \<Longrightarrow> i < length (s_loops s) \<Longrightarrow> loop_ok (s_heap s) i (s_loops s ! i)"
  by (simp add: ev_inv_def)

lemma ev_inv_listed:
  assumes "ev_inv s" and "i < length (s_loops s)" and "l_fdconns (s_loops s ! i) fd = Some cid"
  shows "listed i cid s" and "\<exists>c. s_heap s cid = Some c \<and> c_fd c = fd"
proof -
  from ev_inv_loop [OF assms(1,2)] assms(3) have "conn_ok i (l_poll (s_loops s ! i)) (s_heap s) fd cid"
    by (simp add: loop_ok_def)
  then obtain c where "s_heap s cid = Some c" "c_fd c = fd" "c_loop c = Some i" by (auto simp: conn_ok_iff)
  with assms(2,3) show "listed i cid s" "\<exists>c. s_heap s cid = Some c \<and> c_fd c = fd"
    by (auto simp: listed_def)
qed

lemma listed_watch:
  assumes "ev_inv s" and "listed i cid s" and "s_heap s cid = Some c" and "wants_write c"
  shows "snd (watches (l_poll (s_loops s ! i)) (c_fd c))"
proof -
  from assms(2,3) have i: "i < length (s_loops s)" and t: "l_fdconns (s_loops s ! i) (c_fd c) = Some cid"
    by (auto simp: listed_def)
  from ev_inv_loop [OF assms(1) i] t have "conn_ok i (l_poll (s_loops s ! i)) (s_heap s) (c_fd c) cid"
    by (simp add: loop_ok_def)
  with assms(3,4) show ?thesis by (auto simp: conn_ok_iff)
qed

lemma listed_upd_poll [simp]: "listed i cid (upd_poll j g s) = listed i cid s"
  by (cases "i = j"; cases "i < length (s_loops s)") (auto simp: listed_def list_update_beyond)

lemma ev_inv_out: "ev_inv s \<Longrightarrow> s_heap s cid = Some c \<Longrightarrow> c_out c \<noteq> Some []"
  by (auto simp: ev_inv_def heap_ok_def)

subsection \<open>Single updates\<close>

lemma ModReadWrite_watches:
  assumes "poll_ok p"
  shows "poll_ok (ModReadWrite fd p)" and "p_notes (ModReadWrite fd p) = p_notes p"
    and "watches (ModReadWrite fd p) = (if fst (watches p fd) then (watches p)(fd := (True, True)) else watches p)"
proof -
  have unwatched: "ModReadWrite fd p = p" if "\<not> fst (watches p fd)"
    using poll_unwatched [OF assms that] by (simp add: ModReadWrite_def EpollCtl_def)
  show "poll_ok (ModReadWrite fd p)"
    using assms unwatched epoll.keeps_ok(6) [OF assms, of fd] by fastforce
  show "p_notes (ModReadWrite fd p) = p_notes p" by (simp add: ModReadWrite_def)
  show "watches (ModReadWrite fd p) = (if fst (watches p fd) then (watches p)(fd := (True, True)) else watches p)"
    using unwatched by (simp add: epoll.mod_read_write_watch)
qed

lemma ModRead_watches:
  assumes "poll_ok p"
  shows "poll_ok (ModRead fd p)" and "p_notes (ModRead fd p) = p_notes p"
    and "watches (ModRead fd p) = (if fst (watches p fd) then (watches p)(fd := (True, False)) else watches p)"
proof -
  have unwatched: "ModRead fd p = p" if "\<not> fst (watches p fd)"
    using poll_unwatched [OF assms that] by (simp add: ModRead_def EpollCtl_def)
  show "poll_ok (ModRead fd p)"
    using assms unwatched epoll.keeps_ok(5) [OF assms, of fd] by fastforce
  show "p_notes (ModRead fd p) = p_notes p" by (simp add: ModRead_def)
  show "watches (ModRead fd p) = (if fst (watches p fd) then (watches p)(fd := (True, False)) else watches p)"
    using unwatched by (simp add: epoll.mod_read_watch)
qed

lemma AddRead_watches:
  assumes "poll_ok p"
  shows "poll_ok (AddRead fd p)" and "p_notes (AddRead fd p) = p_notes p"
    and "watches (AddRead fd p) = (if fst (watches p fd) then watches p else (watches p)(fd := (True, False)))"
proof -
  show "poll_ok (AddRead fd p)" using assms by (rule epoll.keeps_ok(1))
  show "p_notes (AddRead fd p) = p_notes p" by (simp add: AddRead_def)
  have "AddRead fd p = p" if "fst (watches p fd)"
    using poll_watched [OF that] by (intro AddRead_watched) auto
  then show "watches (AddRead fd p) = (if fst (watches p fd) then watches p else (watches p)(fd := (True, False)))"
    using epoll.add_read_watch [OF assms, of fd] by simp
qed

text \<open>
  A loop stays well-formed when its notes come from before and every entry of its table either
  was there, with the same watches, or is well-formed by itself.
\<close>

lemma loop_okI:
  assumes "loop_ok h i l" and "l_idx l' = l_idx l" and "poll_ok (l_poll l')"
    and "set (nq_notes (p_notes (l_poll l'))) \<subseteq> set (nq_notes (p_notes (l_poll l)))"
    and "\<And>fd cid. l_fdconns l' fd = Some cid \<Longrightarrow>
      l_fdconns l fd = Some cid \<and> watches (l_poll l') fd = watches (l_poll l) fd \<or> conn_ok i (l_poll l') h fd cid"
  shows "loop_ok h i l'"
  unfolding loop_ok_def
proof (intro conjI allI impI ballI)
  show "l_idx l' = i" using assms(1,2) by (simp add: loop_ok_def)
  show "poll_ok (l_poll l')" by (fact assms(3))
next
  fix fd cid assume "l_fdconns l' fd = Some cid"
  then consider "l_fdconns l fd = Some cid" "watches (l_poll l') fd = watches (l_poll l) fd"
    | "conn_ok i (l_poll l') h fd cid"
    using assms(5) by blast
  then show "conn_ok i (l_poll l') h fd cid"
  proof cases
    case 1
    with assms(1) have "conn_ok i (l_poll l) h fd cid" by (simp add: loop_ok_def)
    with 1 show ?thesis by (simp add: conn_ok_iff)
  qed simp
next
  fix n assume "n \<in> set (nq_notes (p_notes (l_poll l')))"
  with assms(1,4) show "note_ok i h n" by (auto simp: loop_ok_def)
qed

lemma loop_ok_heap:
  assumes "loop_ok h i l" and "heap_keeps h h'"
    and "\<And>cid c c'. h cid = Some c \<Longrightarrow> h' cid = Some c' \<Longrightarrow> c_loop c = Some i \<Longrightarrow>
      l_fdconns l (c_fd c) = Some cid \<Longrightarrow> wants_write c' \<Longrightarrow> wants_write c \<or> snd (watches (l_poll l) (c_fd c))"
  shows "loop_ok h' i l"
  unfolding loop_ok_def
proof (intro conjI allI impI ballI)
  show "l_idx l = i" "poll_ok (l_poll l)" using assms(1) by (simp_all add: loop_ok_def)
next
  fix fd cid assume t: "l_fdconns l fd = Some cid"
  with assms(1) have ok: "conn_ok i (l_poll l) h fd cid" by (simp add: loop_ok_def)
  then obtain c where c: "h cid = Some c" by (auto simp: conn_ok_iff)
  with assms(2) obtain c' where "h' cid = Some c'" "c_fd c' = c_fd c" "c_loop c' = c_loop c"
    by (auto simp: heap_keeps_def)
  with ok c t assms(3) [of cid c c'] show "conn_ok i (l_poll l) h' fd cid" by (auto simp: conn_ok_def)
next
  fix n assume "n \<in> set (nq_notes (p_notes (l_poll l)))"
  with assms(1) have "note_ok i h n" by (simp add: loop_ok_def)
  with assms(2) show "note_ok i h' n"
    by (cases n) (auto simp: note_ok_def heap_keeps_def, metis)
qed

lemma ev_invI_upd:
  assumes "ev_inv s" and "s_heap s' = s_heap s" and "s_next s' = s_next s"
    and "s_loops s' = (s_loops s)[i := l]" and "i < length (s_loops s) \<Longrightarrow> loop_ok (s_heap s) i l"
  shows "ev_inv s'"
proof -
  have "loop_ok (s_heap s) j ((s_loops s)[i := l] ! j)" if "j < length (s_loops s)" for j
    using that assms(1,5) by (cases "j = i") (simp_all add: ev_inv_def)
  with assms show ?thesis by (simp add: ev_inv_def)
qed

lemma grows_upd_loop:
  assumes "ev_inv s" and "i < length (s_loops s) \<Longrightarrow> loop_ok (s_heap s) i (g (s_loops s ! i))"
  shows "grows s (upd_loop i g s)"
  using ev_invI_upd [OF assms(1), of "upd_loop i g s" i "g (s_loops s ! i)"] assms(2)
  by (simp add: grows_def)

lemma keeps_upd_loop:
  assumes "ev_inv s" and "i < length (s_loops s) \<Longrightarrow>
      loop_ok (s_heap s) i (g (s_loops s ! i)) \<and> keeps_loop (s_loops s ! i) (g (s_loops s ! i))"
  shows "keeps s (upd_loop i g s)"
proof -
  have "keeps_loop (s_loops s ! j) ((s_loops s)[i := g (s_loops s ! i)] ! j)" if "j < length (s_loops s)" for j
    using that assms(2) by (cases "j = i") (simp_all add: keeps_loop_def)
  moreover have "grows s (upd_loop i g s)" using assms by (intro grows_upd_loop) auto
  ultimately show ?thesis by (simp add: keeps_def)
qed

lemma loop_ok_count [simp]: "loop_ok h i (l\<lparr>l_count := n\<rparr>) = loop_ok h i l"
  by (simp add: loop_ok_def)

lemma keeps_count: "ev_inv s \<Longrightarrow> keeps s (upd_loop i (\<lambda>l. l\<lparr>l_count := g l\<rparr>) s)"
  by (rule keeps_upd_loop) (simp_all add: ev_inv_loop keeps_loop_def)

lemma keeps_upd_poll:
  assumes "ev_inv s" and "\<And>l. i < length (s_loops s) \<Longrightarrow> l = s_loops s ! i \<Longrightarrow> loop_ok (s_heap s) i l \<Longrightarrow> poll_ok (l_poll l) \<Longrightarrow>
      loop_ok (s_heap s) i (l\<lparr>l_poll := g (l_poll l)\<rparr>) \<and>
      (\<forall>fd. snd (watches (l_poll l) fd) \<longrightarrow> snd (watches (g (l_poll l)) fd))"
  shows "keeps s (upd_poll i g s)"
  unfolding upd_poll_def
proof (rule keeps_upd_loop [OF assms(1)])
  assume i: "i < length (s_loops s)"
  from ev_inv_loop [OF assms(1) i] assms(2) [OF i refl]
  show "loop_ok (s_heap s) i ((s_loops s ! i)\<lparr>l_poll := g (l_poll (s_loops s ! i))\<rparr>) \<and>
      keeps_loop (s_loops s ! i) ((s_loops s ! i)\<lparr>l_poll := g (l_poll (s_loops s ! i))\<rparr>)"
    by (simp add: loop_ok_def keeps_loop_def)
qed

text \<open>Watching more keeps the invariant; watching for reading only needs that the output is out.\<close>

lemma keeps_ModReadWrite: "ev_inv s \<Longrightarrow> keeps s (upd_poll i (ModReadWrite fd) s)"
proof (rule keeps_upd_poll)
  fix l assume ok: "loop_ok (s_heap s) i l" and p: "poll_ok (l_poll l)"
  note w = ModReadWrite_watches [OF p, of fd]
  have "conn_ok i (ModReadWrite fd (l_poll l)) (s_heap s) fd' cid" if "l_fdconns l fd' = Some cid" for fd' cid
    using that ok w(3) by (auto simp: loop_ok_def conn_ok_def split: option.splits)
  then show "loop_ok (s_heap s) i (l\<lparr>l_poll := ModReadWrite fd (l_poll l)\<rparr>) \<and>
      (\<forall>fd'. snd (watches (l_poll l) fd') \<longrightarrow> snd (watches (ModReadWrite fd (l_poll l)) fd'))"
    using w by (auto intro!: loop_okI [OF ok])
qed

lemma grows_ModRead:
  assumes "ev_inv s"
    and "\<And>cid c. i < length (s_loops s) \<Longrightarrow> l_fdconns (s_loops s ! i) fd = Some cid \<Longrightarrow> s_heap s cid = Some c \<Longrightarrow>
      \<not> wants_write c"
  shows "grows s (upd_poll i (ModRead fd) s)"
  unfolding upd_poll_def
proof (rule grows_upd_loop [OF assms(1)])
  assume i: "i < length (s_loops s)"
  let ?l = "s_loops s ! i"
  from ev_inv_loop [OF assms(1) i] have ok: "loop_ok (s_heap s) i ?l" .
  then have p: "poll_ok (l_poll ?l)" by (simp add: loop_ok_def)
  note w = ModRead_watches [OF p, of fd]
  have "conn_ok i (ModRead fd (l_poll ?l)) (s_heap s) fd' cid" if "l_fdconns ?l fd' = Some cid" for fd' cid
    using that ok w(3) assms(2) [OF i, of cid] by (auto simp: loop_ok_def conn_ok_def split: option.splits)
  then show "loop_ok (s_heap s) i (?l\<lparr>l_poll := ModRead fd (l_poll ?l)\<rparr>)"
    using w by (auto intro!: loop_okI [OF ok])
qed

lemma grows_ModRead_listed:
  assumes "ev_inv s" and "listed i cid s" and "s_heap s cid = Some c" and "c_out c = None" and "c_opened c"
  shows "grows s (upd_poll i (ModRead (c_fd c)) s)"
  using assms by (intro grows_ModRead) (auto simp: listed_def wants_write_def)

lemma keeps_upd_conn:
  assumes "ev_inv s"
    and "\<And>c. s_heap s cid = Some c \<Longrightarrow> c_fd (f c) = c_fd c \<and> c_loop (f c) = c_loop c \<and>
      (c_opened c \<longrightarrow> c_opened (f c)) \<and> c_out (f c) \<noteq> Some []"
    and "\<And>c i. s_heap s cid = Some c \<Longrightarrow> listed i cid s \<Longrightarrow> wants_write (f c) \<Longrightarrow>
      wants_write c \<or> snd (watches (l_poll (s_loops s ! i)) (c_fd c))"
  shows "keeps s (upd_conn cid f s)"
proof -
  have heap: "heap_keeps (s_heap s) ((s_heap s)(cid := map_option f (s_heap s cid)))"
    using assms(2) by (auto simp: heap_keeps_def)
  have "loop_ok ((s_heap s)(cid := map_option f (s_heap s cid))) i (s_loops s ! i)" if i: "i < length (s_loops s)" for i
  proof (rule loop_ok_heap [OF ev_inv_loop [OF assms(1) i] heap])
    fix cid' c c'
    assume "s_heap s cid' = Some c" "((s_heap s)(cid := map_option f (s_heap s cid))) cid' = Some c'"
      "c_loop c = Some i" "l_fdconns (s_loops s ! i) (c_fd c) = Some cid'" "wants_write c'"
    with assms(3) [of c i] i show "wants_write c \<or> snd (watches (l_poll (s_loops s ! i)) (c_fd c))"
      by (cases "cid' = cid") (auto simp: listed_def)
  qed
  moreover have "heap_ok ((s_heap s)(cid := map_option f (s_heap s cid))) (s_next s)"
    using assms(1,2) by (auto simp: ev_inv_def heap_ok_def)
  ultimately show ?thesis
    using heap by (simp add: keeps_def grows_def ev_inv_def keeps_loop_def)
qed

lemma upd_poll_conn: "upd_poll i g (upd_conn cid f s) = upd_conn cid f (upd_poll i g s)"
  by (simp add: upd_poll_def upd_loop_def upd_conn_def)

lemma append_out_ok: "out \<noteq> Some [] \<Longrightarrow> append_out out d \<noteq> Some []"
  by (auto simp: append_out_def split: option.splits if_splits)

text \<open>Queueing output and watching for writing go together.\<close>

lemma keeps_queue_out:
  assumes "ev_inv s" and "s_heap s cid = Some c" and "c_loop c = Some i"
  shows "keeps s (upd_poll i (ModReadWrite (c_fd c)) (upd_conn cid (\<lambda>c. c\<lparr>c_out := append_out (c_out c) d\<rparr>) s))"
  unfolding upd_poll_conn
proof (rule keeps_trans)
  let ?s = "upd_poll i (ModReadWrite (c_fd c)) s"
  show k: "keeps s ?s" using assms(1) by (rule keeps_ModReadWrite)
  show "keeps ?s (upd_conn cid (\<lambda>c. c\<lparr>c_out := append_out (c_out c) d\<rparr>) ?s)"
  proof (rule keeps_upd_conn [OF keeps_inv [OF k]])
    fix c' assume "s_heap ?s cid = Some c'"
    with assms(1,2) have "c_out c' \<noteq> Some []" by (auto dest: ev_inv_out)
    then show "c_fd (c'\<lparr>c_out := append_out (c_out c') d\<rparr>) = c_fd c' \<and>
        c_loop (c'\<lparr>c_out := append_out (c_out c') d\<rparr>) = c_loop c' \<and>
        (c_opened c' \<longrightarrow> c_opened (c'\<lparr>c_out := append_out (c_out c') d\<rparr>)) \<and>
        c_out (c'\<lparr>c_out := append_out (c_out c') d\<rparr>) \<noteq> Some []"
      by (simp add: append_out_ok)
  next
    fix c' j assume c': "s_heap ?s cid = Some c'" and l: "listed j cid ?s"
    with assms(2,3) have j: "c' = c" "j = i" "i < length (s_loops s)"
      and t: "l_fdconns (s_loops s ! i) (c_fd c) = Some cid"
      by (auto simp: listed_def)
    from ev_inv_loop [OF assms(1) j(3)] t have "fst (watches (l_poll (s_loops s ! i)) (c_fd c))"
      and p: "poll_ok (l_poll (s_loops s ! i))"
      by (auto simp: loop_ok_def conn_ok_iff)
    with ModReadWrite_watches(3) [OF p, of "c_fd c"] j
    have "snd (watches (l_poll (s_loops ?s ! j)) (c_fd c'))" by simp
    then show "wants_write c' \<or> snd (watches (l_poll (s_loops ?s ! j)) (c_fd c'))" ..
  qed
qed

text \<open>An update that leaves descriptor, loop, output and opening alone.\<close>

lemma keeps_upd_fields:
  assumes "ev_inv s" and "\<And>c. c_fd (f c) = c_fd c \<and> c_loop (f c) = c_loop c \<and> c_opened (f c) = c_opened c \<and> c_out (f c) = c_out c"
  shows "keeps s (upd_conn cid f s)"
  using assms by (intro keeps_upd_conn) (auto simp: wants_write_def dest: ev_inv_out)

lemma keeps_tick: "ev_inv s \<Longrightarrow> keeps s (tick s)"
  by (rule keeps_other) simp_all

lemma keeps_then_tick: "keeps s s' \<Longrightarrow> keeps s (tick s')"
  by (rule keeps_trans [OF _ keeps_tick]) (auto intro: keeps_inv)

lemma keeps_sys_write: "ev_inv s \<Longrightarrow> sys_write K fd data s = (n, err, s') \<Longrightarrow> keeps s s'"
  by (rule keeps_other) (simp_all add: sys_write_simps)

lemma conn_Send_keeps:
  assumes "ev_inv s" and "conn_Send K cid data s = Some s'"
  shows "keeps s s'"
proof -
  from assms(2) obtain c where c: "s_heap s cid = Some c" by (auto simp: conn_Send_def split: bind_splits)
  define s1 where "s1 = (if c_out c \<noteq> None then upd_conn cid (\<lambda>c. c\<lparr>c_out := append_out (c_out c) data\<rparr>) s else s)"
  obtain n err s2 where w: "sys_write K (c_fd c) data s1 = (n, err, s2)" by (cases "sys_write K (c_fd c) data s1")
  have "append_out (c_out c) data \<noteq> Some []" using ev_inv_out [OF assms(1) c] by (rule append_out_ok)
  then have k1: "keeps s s1"
    using assms(1) c unfolding s1_def
    by (auto intro!: keeps_refl keeps_upd_conn simp: wants_write_def)
  have k2: "keeps s s2" using k1 keeps_sys_write [OF keeps_inv [OF k1] w] by (rule keeps_trans)
  from keeps_heap [OF k2 c] obtain c2 where c2: "s_heap s2 cid = Some c2" "c_fd c2 = c_fd c" "c_loop c2 = c_loop c"
    by blast
  have q: "keeps s (upd_poll i (ModReadWrite (c_fd c)) (upd_conn cid (\<lambda>c. c\<lparr>c_out := append_out (c_out c) d\<rparr>) s2))"
    if "c_loop c = Some i" for i d
    using keeps_queue_out [OF keeps_inv [OF k2] c2(1), of i d] c2 that keeps_trans [OF k2] by simp
  have m: "keeps s (upd_poll i (ModReadWrite (c_fd c)) s2)" for i
    using k2 keeps_ModReadWrite [OF keeps_inv [OF k2]] by (rule keeps_trans)
  from assms(2) c w k2 q m show ?thesis
    unfolding s1_def
    by (cases "c_out c = None") (auto simp: conn_Send_def Let_def split: bind_splits if_splits)
qed

subsection \<open>Connecting out\<close>

lemma keeps_alloc:
  assumes "ev_inv s" and "alloc_conn c s = (cid, s')" and "c_out c = None"
  shows "keeps s s'" and "s_heap s' cid = Some c" and "length (s_loops s') = length (s_loops s)"
proof -
  note a = alloc_conn_simps [OF assms(2)]
  have fresh: "s_heap s (s_next s) = None"
  proof (cases "s_heap s (s_next s)")
    case (Some d)
    with assms(1) show ?thesis by (auto simp: ev_inv_def heap_ok_def)
  qed
  have heap: "heap_keeps (s_heap s) ((s_heap s)(s_next s \<mapsto> c))"
    using fresh by (auto simp: heap_keeps_def)
  have "loop_ok ((s_heap s)(s_next s \<mapsto> c)) i (s_loops s ! i)" if i: "i < length (s_loops s)" for i
    using fresh by (intro loop_ok_heap [OF ev_inv_loop [OF assms(1) i] heap]) (auto split: if_splits)
  moreover have "heap_ok ((s_heap s)(s_next s \<mapsto> c)) (Suc (s_next s))"
    using assms(1,3) by (auto simp: ev_inv_def heap_ok_def less_Suc_eq)
  ultimately show "keeps s s'"
    using heap a by (simp add: keeps_def grows_def ev_inv_def keeps_loop_def)
  from a show "s_heap s' cid = Some c" "length (s_loops s') = length (s_loops s)" by simp_all
qed

lemma keeps_AddRead: "ev_inv s \<Longrightarrow> keeps s (upd_poll i (AddRead fd) s)"
proof (rule keeps_upd_poll)
  fix l assume ok: "loop_ok (s_heap s) i l" and p: "poll_ok (l_poll l)"
  note w = AddRead_watches [OF p, of fd]
  have unlisted: "watches (AddRead fd (l_poll l)) fd' = watches (l_poll l) fd'" if "l_fdconns l fd' = Some cid" for fd' cid
    using that ok w(3) by (auto simp: loop_ok_def conn_ok_iff)
  have "snd (watches (l_poll l) fd') \<longrightarrow> snd (watches (AddRead fd (l_poll l)) fd')" for fd'
    using w(3) epoll.ok_watch [OF p, of fd] by auto
  with unlisted w show "loop_ok (s_heap s) i (l\<lparr>l_poll := AddRead fd (l_poll l)\<rparr>) \<and>
      (\<forall>fd'. snd (watches (l_poll l) fd') \<longrightarrow> snd (watches (AddRead fd (l_poll l)) fd'))"
    by (auto intro!: loop_okI [OF ok])
qed

lemma keeps_Trigger:
  assumes "ev_inv s" and "i < length (s_loops s) \<Longrightarrow> note_ok i (s_heap s) n"
  shows "keeps s (upd_poll i (\<lambda>p. snd (Trigger err n p)) s)"
proof (rule keeps_upd_poll [OF assms(1)])
  fix l assume i: "i < length (s_loops s)" and ok: "loop_ok (s_heap s) i l"
  obtain b q where a: "nq_Add n (p_notes (l_poll l)) = (b, q)" by fastforce
  then have "nq_notes q = nq_notes (p_notes (l_poll l)) @ [n]" by (auto simp: nq_Add_def Let_def)
  with a show "loop_ok (s_heap s) i (l\<lparr>l_poll := snd (Trigger err n (l_poll l))\<rparr>) \<and>
      (\<forall>fd. snd (watches (l_poll l) fd) \<longrightarrow> snd (watches (snd (Trigger err n (l_poll l))) fd))"
    using ok assms(2) [OF i]
    by (auto simp: loop_ok_def Trigger_def watches_def conn_ok_iff poll_ok_def)
qed

lemma choose_loop_keeps: "ev_inv s \<Longrightarrow> choose_loop K s = (idx, s') \<Longrightarrow> keeps s s'"
  by (rule keeps_other) (auto simp: choose_loop_def Let_def split: if_splits LoadBalance.splits)

lemma outConnect_keeps:
  assumes "ev_inv s" and "outConnect K addr port ctx s = Some (res, err, s')"
  shows "keeps s s'"
proof -
  define fd where "fd = k_socket K (s_clock s)"
  define sa where "sa = SockaddrInet4 (copy_at 0 (take 4 (case k_lookup K addr of None \<Rightarrow> [] | Some ip \<Rightarrow> ip)) [0, 0, 0, 0]) port"
  define s1 where "s1 = (tick (tick (tick s)))\<lparr>s_wire := (s_wire (tick (tick (tick s))))(fd := [])\<rparr>"
  obtain idx s2 where ch: "choose_loop K s1 = (idx, s2)" by (cases "choose_loop K s1")
  obtain cid s3 where al: "alloc_conn (new_conn\<lparr>c_fd := fd, c_sa := Some sa, c_lnidx := -1, c_loop := Some (nat idx)\<rparr>) s2 = (cid, s3)"
    by (cases "alloc_conn (new_conn\<lparr>c_fd := fd, c_sa := Some sa, c_lnidx := -1, c_loop := Some (nat idx)\<rparr>) s2")
  define s4 where "s4 = upd_poll (nat idx) (AddRead fd) (conn_SetContext ctx cid s3)"
  define s5 where "s5 = tick (upd_poll (nat idx) (\<lambda>p. snd (Trigger (k_trigger K (s_clock s4)) (NoteConn cid) p)) s4)"
  have k1: "keeps s s1" using assms(1) by (intro keeps_other) (simp_all add: s1_def)
  have k2: "keeps s s2" using k1 choose_loop_keeps [OF keeps_inv [OF k1] ch] by (rule keeps_trans)
  note k3 = keeps_alloc [OF keeps_inv [OF k2] al]
  have k4: "keeps s3 s4"
    unfolding s4_def conn_SetContext_def
    using keeps_upd_fields [OF keeps_inv [OF k3(1)], of "\<lambda>c. c\<lparr>c_ctx := ctx\<rparr>" cid]
    by (auto intro: keeps_trans keeps_AddRead keeps_inv simp: new_conn_def)
  have "note_ok (nat idx) (s_heap s4) (NoteConn cid)"
    using keeps_heap [OF k4 k3(2)] by (auto simp: note_ok_def new_conn_def)
  then have k5: "keeps s4 s5"
    unfolding s5_def using keeps_inv [OF k4] by (blast intro: keeps_trans keeps_Trigger keeps_tick keeps_inv)
  have full: "keeps s s5" using keeps_trans [OF keeps_trans [OF keeps_trans [OF k2 k3(1)] k4] k5] by (simp add: new_conn_def)
  have failed: "keeps s (tick (tick s))" using assms(1) by (intro keeps_other) simp_all
  show ?thesis
  proof (cases "k_connect K (s_clock (tick s)) fd sa")
    case None
    with assms(2) ch al have "s' = s5"
      unfolding s5_def s4_def s1_def fd_def sa_def by (auto simp: outConnect_def Let_def split: bind_splits)
    with full show ?thesis by simp
  next
    case (Some e)
    with assms(2) have "s' = tick (tick s)"
      by (auto simp: outConnect_def Let_def fd_def [symmetric] sa_def [symmetric])
    with failed show ?thesis by simp
  qed
qed

lemma note_ok_grows: "grows s s' \<Longrightarrow> note_ok i (s_heap s) n \<Longrightarrow> note_ok i (s_heap s') n"
  by (cases n) (auto simp: note_ok_def grows_def heap_keeps_def, metis)

lemma serve_stop_keeps:
  assumes "ev_inv s"
  shows "keeps s (serve_stop K s)"
proof -
  have "keeps s (fold (\<lambda>i s. tick (upd_poll i (\<lambda>p. snd (Trigger (k_trigger K (s_clock s)) (NoteError errClosing) p)) s)) is s)"
    if "ev_inv s" for "is" and s :: "('u, 'x) server"
    using that
  proof (induction "is" arbitrary: s)
    case Nil
    then show ?case by (simp add: keeps_refl)
  next
    case (Cons i "is")
    let ?s = "upd_poll i (\<lambda>p. snd (Trigger (k_trigger K (s_clock s)) (NoteError errClosing) p)) s"
    have k: "keeps s (tick ?s)"
      using Cons.prems by (intro keeps_then_tick keeps_Trigger) (simp_all add: note_ok_def)
    with Cons.IH [OF keeps_inv [OF k]] show ?case by (auto intro: keeps_trans)
  qed
  with assms show ?thesis by (simp add: serve_stop_def)
qed

subsection \<open>Tables\<close>

lemma upd_poll_loop: "upd_poll i g (upd_loop i f s) = upd_loop i (\<lambda>l. (f l)\<lparr>l_poll := g (l_poll (f l))\<rparr>) s"
  by (cases "i < length (s_loops s)") (simp_all add: upd_poll_def upd_loop_def list_update_beyond)

text \<open>Leaving the table and ending the watch of a descriptor go together.\<close>

lemma grows_remove:
  assumes "ev_inv s" and "g = poll_forget fd \<or> g = ModDetach fd"
  shows "grows s (upd_loop i (\<lambda>l. l\<lparr>l_fdconns := (l_fdconns l)(fd := None), l_poll := g (l_poll l)\<rparr>) s)"
proof (rule grows_upd_loop [OF assms(1)])
  assume i: "i < length (s_loops s)"
  let ?l = "s_loops s ! i"
  from ev_inv_loop [OF assms(1) i] have ok: "loop_ok (s_heap s) i ?l" .
  then have p: "poll_ok (l_poll ?l)" by (simp add: loop_ok_def)
  have "poll_ok (g (l_poll ?l)) \<and> p_notes (g (l_poll ?l)) = p_notes (l_poll ?l) \<and>
      watches (g (l_poll ?l)) = (watches (l_poll ?l))(fd := (False, False))"
    using assms(2) epoll.keeps_ok(3,4) [OF p] epoll.mod_detach_watch epoll.forget_watch
    by (auto simp: poll_forget_def ModDetach_def)
  then show "loop_ok (s_heap s) i (?l\<lparr>l_fdconns := (l_fdconns ?l)(fd := None), l_poll := g (l_poll ?l)\<rparr>)"
    by (intro loop_okI [OF ok]) (auto split: if_splits)
qed

lemma grows_insert:
  assumes "ev_inv s" and "s_heap s cid = Some c" and "c_loop c = Some i"
  shows "grows s (upd_poll i (AddReadWrite (c_fd c)) (upd_loop i (\<lambda>l. l\<lparr>l_fdconns := (l_fdconns l)(c_fd c \<mapsto> cid)\<rparr>) s))"
  unfolding upd_poll_loop
proof (rule grows_upd_loop [OF assms(1)])
  assume i: "i < length (s_loops s)"
  let ?l = "s_loops s ! i" and ?p = "l_poll (s_loops s ! i)"
  from ev_inv_loop [OF assms(1) i] have ok: "loop_ok (s_heap s) i ?l" .
  then have "poll_ok ?p" by (simp add: loop_ok_def)
  then have "poll_ok (AddReadWrite (c_fd c) ?p)" by (rule epoll.keeps_ok(2))
  moreover have "p_notes (AddReadWrite (c_fd c) ?p) = p_notes ?p" by (simp add: AddReadWrite_eq)
  ultimately show "loop_ok (s_heap s) i (?l\<lparr>l_fdconns := (l_fdconns ?l)(c_fd c \<mapsto> cid),
      l_poll := AddReadWrite (c_fd c) (l_poll (?l\<lparr>l_fdconns := (l_fdconns ?l)(c_fd c \<mapsto> cid)\<rparr>))\<rparr>)"
    using assms(2,3) epoll.add_read_write_watch [of "c_fd c" ?p]
    by (intro loop_okI [OF ok]) (auto simp: conn_ok_iff split: if_splits)
qed

lemma new_loop_ok: "loop_ok h i (new_loop lns i fds)"
proof -
  have "poll_ok (fold (\<lambda>ln. AddRead (ln_fd ln)) lns p) \<and>
      p_notes (fold (\<lambda>ln. AddRead (ln_fd ln)) lns p) = p_notes p" if "poll_ok p" for p :: "loop_note Poll"
    using that by (induction lns arbitrary: p) (simp_all add: AddRead_watches)
  moreover have e: "poll_ok (\<lparr>p_fd = a, p_wfd = b, p_notes = new_noteQueue, p_set = Map.empty\<rparr> :: loop_note Poll)" for a b
    by (simp add: poll_ok_def)
  have "poll_ok (OpenPoll a b :: loop_note Poll)" "p_notes (OpenPoll a b :: loop_note Poll) = new_noteQueue" for a b
    using AddRead_watches(1,2) [OF e, of b a b] by (simp_all add: OpenPoll_def)
  ultimately show ?thesis by (simp add: loop_ok_def new_loop_def new_noteQueue_def)
qed

subsection \<open>Steps of a running server\<close>

text \<open>
  What happens in a running server, in any order: a loop runs through its notes or handles one
  event, another goroutine sends on a connection or connects out, the ticker posts, the stop is
  announced. A run of \<^verbatim>\<open>loopRun\<close> is a sequence of the first two.
\<close>

inductive ev_step :: "kernel \<Rightarrow> ('u, 'x) Events \<Rightarrow> ('u, 'x) server \<Rightarrow> ('u, 'x) server \<Rightarrow> bool" for K Ev where
  run_notes: "i < length (s_loops s) \<Longrightarrow>
    nq_ForEach (loop_notes i) (put_notes i) (\<lambda>n. loop_event K Ev i 0 (Some n) 0) s = Some (err, s') \<Longrightarrow> ev_step K Ev s s'"
| event: "i < length (s_loops s) \<Longrightarrow> loop_event K Ev i fd None ev s = Some (err, s') \<Longrightarrow> ev_step K Ev s s'"
| send: "conn_Send K cid data s = Some s' \<Longrightarrow> ev_step K Ev s s'"
| connect: "outConnect K addr port ctx s = Some (res, err, s') \<Longrightarrow> ev_step K Ev s s'"
| ticker: "loopTicker_round K i s = (err, s') \<Longrightarrow> ev_step K Ev s s'"
| stop: "ev_step K Ev s (serve_stop K s)"

subsection \<open>The event loop under well-behaved handlers\<close>

text \<open>
  The contract of the event handlers: each keeps the invariant, the tables and the write watches. They may
  use everything a connection offers, and connect out.
\<close>

locale callbacks =
  fixes Ev :: "('u, 'x) Events"
  assumes serving_keeps: "ev_Serving Ev = Some f0 \<Longrightarrow> ev_inv s \<Longrightarrow> f0 addrs n s = Some (a, s') \<Longrightarrow> keeps s s'"
    and opened_keeps: "ev_Opened Ev = Some f1 \<Longrightarrow> ev_inv s \<Longrightarrow> f1 cid s = Some (out, opts, a, s') \<Longrightarrow> keeps s s'"
    and closed_keeps: "ev_Closed Ev = Some f2 \<Longrightarrow> ev_inv s \<Longrightarrow> f2 cid e s = Some (a, s') \<Longrightarrow> keeps s s'"
    and detached_keeps: "ev_Detached Ev = Some f3 \<Longrightarrow> ev_inv s \<Longrightarrow> f3 cid fd s = Some (a, s') \<Longrightarrow> keeps s s'"
    and data_keeps: "ev_Data Ev = Some f4 \<Longrightarrow> ev_inv s \<Longrightarrow> f4 cid packet s = Some (out, a, s') \<Longrightarrow> keeps s s'"
    and tick_keeps: "ev_Tick Ev = Some f5 \<Longrightarrow> ev_inv s \<Longrightarrow> f5 s = Some (delay, a, s') \<Longrightarrow> keeps s s'"
begin

lemma loopCloseConn_grows:
  assumes "ev_inv s" and "loopCloseConn Ev i cid e s = Some (err, s')"
  shows "grows s s'"
proof -
  from assms(2) obtain c where c: "s_heap s cid = Some c" by (auto simp: loopCloseConn_def split: bind_splits)
  define s1 where "s1 = upd_loop i (\<lambda>l. l\<lparr>l_count := l_count l + (-1)\<rparr>) s"
  define s2 where "s2 = sys_close i (c_fd c) (upd_loop i (\<lambda>l. l\<lparr>l_fdconns := (l_fdconns l)(c_fd c := None)\<rparr>) s1)"
  have k1: "keeps s s1" unfolding s1_def using assms(1) by (rule keeps_count)
  have g1: "grows s1 (upd_loop i (\<lambda>l. l\<lparr>l_fdconns := (l_fdconns l)(c_fd c := None), l_poll := poll_forget (c_fd c) (l_poll l)\<rparr>) s1)"
    using keeps_inv [OF k1] by (rule grows_remove) simp
  have "grows s1 s2"
    using grows_trans [OF g1 keeps_grows [OF keeps_tick [OF grows_inv [OF g1]]]]
    by (simp add: s2_def sys_close_def upd_poll_loop)
  with k1 have g: "grows s s2" by (rule keeps_grows_trans)
  show ?thesis
  proof (cases "ev_Closed Ev")
    case None
    with assms(2) c g show ?thesis
      by (simp add: loopCloseConn_def Let_def s1_def s2_def)
  next
    case (Some f)
    with assms(2) c obtain a where "f cid e s2 = Some (a, s')"
      by (auto simp: loopCloseConn_def Let_def s1_def s2_def split: bind_splits)
    from closed_keeps [OF Some grows_inv [OF g] this] have "grows s2 s'" by (rule keeps_grows)
    with g show ?thesis by (rule grows_trans)
  qed
qed

lemma loopDetachConn_grows:
  assumes "ev_inv s" and "loopDetachConn K Ev i cid e s = Some (err, s')"
  shows "grows s s'"
proof (cases "ev_Detached Ev")
  case None
  with assms show ?thesis by (auto simp: loopDetachConn_def intro: loopCloseConn_grows)
next
  case (Some f)
  with assms(2) obtain c where c: "s_heap s cid = Some c" by (auto simp: loopDetachConn_def split: bind_splits)
  define s1 where "s1 = upd_loop i (\<lambda>l. l\<lparr>l_fdconns := (l_fdconns l)(c_fd c := None), l_poll := ModDetach (c_fd c) (l_poll l)\<rparr>) s"
  define s2 where "s2 = tick (upd_loop i (\<lambda>l. l\<lparr>l_fdconns := (l_fdconns l)(c_fd c := None)\<rparr>)
    (upd_loop i (\<lambda>l. l\<lparr>l_count := l_count l + (-1)\<rparr>) (upd_poll i (ModDetach (c_fd c)) s)))"
  have g1: "grows s s1" unfolding s1_def using assms(1) by (rule grows_remove) simp
  have "s2 = tick (upd_loop i (\<lambda>l. l\<lparr>l_count := l_count l + (-1)\<rparr>) s1)"
    unfolding s1_def s2_def
    by (cases "i < length (s_loops s)"; cases "s_loops s ! i")
      (simp_all add: upd_poll_def upd_loop_def list_update_beyond)
  then have "keeps s1 s2"
    using keeps_then_tick [OF keeps_count [OF grows_inv [OF g1]]] by simp
  with g1 have g: "grows s s2" by (blast intro: grows_trans keeps_grows)
  have d: "grows s s'" if "f cid (c_fd c) s2 = Some (a, s')" for a s'
    using g keeps_grows [OF detached_keeps [OF Some grows_inv [OF g] that]] by (rule grows_trans)
  from Some assms(2) c g d show ?thesis
    unfolding s2_def by (auto simp: loopDetachConn_def Let_def split: bind_splits if_splits)
qed

lemma loopNote_grows:
  assumes "ev_inv s" and "loopNote Ev n s = Some (err, s')"
  shows "grows s s'"
proof (cases "n = NoteTick")
  case True
  with assms(2) obtain f delay a s1 where f: "ev_Tick Ev = Some f" "f s = Some (delay, a, s1)"
    and s': "s' = s1\<lparr>s_tch := s_tch s1 @ [delay]\<rparr>"
    by (auto simp: loopNote_def Let_def split: bind_splits)
  have k: "keeps s s1" using f(1) assms(1) f(2) by (rule tick_keeps)
  have "keeps s1 s'" unfolding s' using keeps_inv [OF k] by (rule keeps_other) simp_all
  with k show ?thesis by (blast intro: keeps_trans keeps_grows)
next
  case False
  with assms show ?thesis by (auto simp: loopNote_def grows_refl split: loop_note.splits)
qed

lemma opened_event_keeps:
  assumes "ev_inv s" and "listed i cid s" and "snd (watches (l_poll (s_loops s ! i)) (c_fd (the (s_heap s cid))))"
    and "opened_event Ev cid s = Some s'"
  shows "keeps s s'"
proof (cases "ev_Opened Ev")
  case None
  with assms show ?thesis by (simp add: opened_event_def keeps_refl)
next
  case (Some f)
  with assms(4) obtain out opts a s1 where f: "f cid s = Some (out, opts, a, s1)"
    by (auto simp: opened_event_def split: bind_splits)
  have k1: "keeps s s1" using Some assms(1) f by (rule opened_keeps)
  have l1: "listed i cid s1" using k1 assms(2) by (rule keeps_listed)
  from assms(2) obtain c where c: "s_heap s cid = Some c" and i: "i < length (s_loops s)" by (auto simp: listed_def)
  from keeps_heap [OF k1 c] obtain c1 where c1: "s_heap s1 cid = Some c1" "c_fd c1 = c_fd c" "c_loop c1 = c_loop c"
    by blast
  have w: "snd (watches (l_poll (s_loops s1 ! i)) (c_fd c1))"
    using k1 assms(3) c c1 i by (simp add: keeps_def keeps_loop_def)
  have only_i: "j = i" if "listed j cid s1" for j using that l1 by (auto simp: listed_def)
  define s2 where "s2 = (if length out > 0 then upd_conn cid (\<lambda>c. c\<lparr>c_out := Some out\<rparr>) s1 else s1)"
  define s3 where "s3 = upd_conn cid (\<lambda>c. c\<lparr>c_action := a, c_reuse := ReuseInputBuffer opts\<rparr>) s2"
  have k2: "keeps s1 s2"
    unfolding s2_def using keeps_inv [OF k1] c1(1) w only_i
    by (auto intro!: keeps_upd_conn keeps_refl)
  have k3: "keeps s s3"
    unfolding s3_def using keeps_trans [OF k1 k2] keeps_upd_fields [OF keeps_inv [OF k2]]
    by (rule keeps_trans) simp
  from Some f assms(4) have "s' = s3 \<or> s' = tick s3"
    unfolding s3_def s2_def by (auto simp: opened_event_def Let_def split: bind_splits if_splits)
  with k3 show ?thesis by (auto intro: keeps_then_tick)
qed

lemma loopOpened_grows:
  assumes "ev_inv s" and "listed i cid s" and "\<not> c_opened (the (s_heap s cid))"
    and "loopOpened K Ev i cid s = Some (err, s')"
  shows "grows s s'"
proof -
  from assms(2) obtain c where c: "s_heap s cid = Some c" and i: "i < length (s_loops s)"
    and t: "l_fdconns (s_loops s ! i) (c_fd c) = Some cid"
    by (auto simp: listed_def)
  have w: "snd (watches (l_poll (s_loops s ! i)) (c_fd c))"
    using listed_watch [OF assms(1,2) c] assms(3) c by (simp add: wants_write_def)
  define s1 where "s1 = upd_conn cid (\<lambda>c. c\<lparr>c_opened := True\<rparr>) s"
  from assms(4) obtain s2 where s2: "opened_addr cid s1 = Some s2"
    by (auto simp: loopOpened_def Let_def s1_def split: bind_splits)
  define s3 where "s3 = upd_conn cid (\<lambda>c. c\<lparr>c_remoteAddr := SockaddrToAddr (k_ifname K) (c_sa c)\<rparr>) s2"
  from assms(4) s2 obtain s4 c4 where s4: "opened_event Ev cid s3 = Some s4" and c4: "s_heap s4 cid = Some c4"
    and s': "s' = (if length (out_bytes (c_out c4)) = 0 \<and> c_action c4 = NoAction
      then upd_poll i (ModRead (c_fd c4)) s4 else s4)"
    by (auto simp: loopOpened_def Let_def s1_def s3_def split: bind_splits)
  have k1: "keeps s s1"
    unfolding s1_def using assms(1) ev_inv_out [OF assms(1) c] c
    by (intro keeps_upd_conn) (auto simp: wants_write_def)
  have k2: "keeps s1 s2"
    using keeps_inv [OF k1] s2
    by (auto simp: opened_addr_def split: bind_splits if_splits intro: keeps_refl keeps_upd_fields)
  have "keeps s2 s3" unfolding s3_def using keeps_inv [OF k2] by (rule keeps_upd_fields) simp
  with k1 k2 have k3: "keeps s s3" by (blast intro: keeps_trans)
  from keeps_heap [OF k3 c] have "snd (watches (l_poll (s_loops s3 ! i)) (c_fd (the (s_heap s3 cid))))"
    using k3 w i by (auto simp: keeps_def keeps_loop_def)
  with keeps_inv [OF k3] keeps_listed [OF k3 assms(2)] have k4: "keeps s3 s4"
    using s4 by (rule opened_event_keeps)
  have k: "keeps s s4" using k3 k4 by (rule keeps_trans)
  have "keeps s1 s4" using k2 \<open>keeps s2 s3\<close> k4 by (blast intro: keeps_trans)
  from keeps_heap [OF this, of cid "c\<lparr>c_opened := True\<rparr>"] c c4 have o4: "c_opened c4"
    by (auto simp: s1_def)
  have out: "c_out c4 = None" if "length (out_bytes (c_out c4)) = 0"
    using that ev_inv_out [OF keeps_inv [OF k] c4] by (auto simp: out_bytes_def split: option.splits)
  show ?thesis
  proof (cases "length (out_bytes (c_out c4)) = 0 \<and> c_action c4 = NoAction")
    case True
    with out have "grows s4 s'"
      using grows_ModRead_listed [OF keeps_inv [OF k] keeps_listed [OF k assms(2)] c4 _ o4] s' by simp
    with k show ?thesis by (rule keeps_grows_trans)
  next
    case False
    with s' have "s' = s4" by auto
    with k show ?thesis by (simp add: keeps_grows)
  qed
qed

lemma loopWrite_grows:
  assumes "ev_inv s" and "listed i cid s" and "c_opened (the (s_heap s cid))"
    and "loopWrite K Ev i cid s = Some (sent, err, s')"
  shows "grows s s'" and "\<not> sent \<Longrightarrow> listed i cid s'"
proof -
  from assms(2,3) obtain c where c: "s_heap s cid = Some c" and op: "c_opened c" by (auto simp: listed_def)
  have "grows s s' \<and> (\<not> sent \<longrightarrow> listed i cid s')"
  proof (cases "c_out c")
    case None
    with assms(4) c have "s' = upd_poll i (ModRead (c_fd c)) s" by (simp add: loopWrite_def)
    with grows_ModRead_listed [OF assms(1,2) c None op] assms(2) show ?thesis by simp
  next
    case (Some out)
    obtain n e s1 where w: "sys_write K (c_fd c) out s = (n, e, s1)" by (cases "sys_write K (c_fd c) out s")
    have k1: "keeps s s1" using assms(1) w by (rule keeps_sys_write)
    have c1: "s_heap s1 cid = Some c" using sys_write_simps [OF w] c by simp
    show ?thesis
    proof (cases e)
      case None
      with assms(4) c Some w obtain out' where sent
        and out': "(if n = int (length out) then Some None else map_option Some (slice_from out n)) = Some out'"
        and s': "s' = (if length (out_bytes out') = 0 \<and> c_action c = NoAction
          then upd_poll i (ModRead (c_fd c)) (upd_conn cid (\<lambda>c. c\<lparr>c_out := out'\<rparr>) s1)
          else upd_conn cid (\<lambda>c. c\<lparr>c_out := out'\<rparr>) s1)"
        by (auto simp: loopWrite_def Let_def split: bind_splits if_splits)
      have ne: "out' \<noteq> Some []"
        using out' by (auto split: if_splits simp: slice_from_Some_iff)
      define s2 where "s2 = upd_conn cid (\<lambda>c. c\<lparr>c_out := out'\<rparr>) s1"
      have k2: "keeps s1 s2"
        unfolding s2_def using keeps_inv [OF k1] c1 Some ne
        by (intro keeps_upd_conn) (auto simp: wants_write_def)
      have k: "keeps s s2" using k1 k2 by (rule keeps_trans)
      have c2: "s_heap s2 cid = Some (c\<lparr>c_out := out'\<rparr>)" using c1 by (simp add: s2_def)
      have "grows s2 s'"
      proof (cases "length (out_bytes out') = 0 \<and> c_action c = NoAction")
        case True
        with ne have "out' = None" by (auto simp: out_bytes_def split: option.splits)
        with grows_ModRead_listed [OF keeps_inv [OF k] keeps_listed [OF k assms(2)] c2] op True s'
        show ?thesis by (simp add: s2_def)
      next
        case False
        with s' have "s' = s2" by (auto simp: s2_def)
        with k show ?thesis by (simp add: grows_refl keeps_inv)
      qed
      with k \<open>sent\<close> show ?thesis by (blast intro: keeps_grows_trans)
    next
      case (Some er)
      with assms(4) c \<open>c_out c = Some out\<close> w have "sent"
        and "s' = s1 \<or> (\<exists>err. loopCloseConn Ev i cid (Some (SysError er)) s1 = Some (err, s'))"
        by (auto simp: loopWrite_def split: bind_splits if_splits)
      with k1 show ?thesis
        by (auto intro: keeps_grows keeps_grows_trans dest: loopCloseConn_grows [OF keeps_inv [OF k1]])
    qed
  qed
  then show "grows s s'" and "\<not> sent \<Longrightarrow> listed i cid s'" by simp_all
qed

lemma loopAction_grows:
  assumes "ev_inv s" and "listed i cid s" and "c_opened (the (s_heap s cid))"
    and "loopAction K Ev i cid s = Some (err, s')"
  shows "grows s s'"
proof -
  from assms(2,3) obtain c where c: "s_heap s cid = Some c" and op: "c_opened c" by (auto simp: listed_def)
  show ?thesis
  proof (cases "c_action c = NoAction")
    case True
    let ?s = "upd_conn cid (\<lambda>c. c\<lparr>c_action := NoAction\<rparr>) s"
    have k: "keeps s ?s" using assms(1) by (rule keeps_upd_fields) simp
    have c': "s_heap ?s cid = Some (c\<lparr>c_action := NoAction\<rparr>)" using c by simp
    from assms(4) c True have s': "s' = (if length (out_bytes (c_out c)) = 0 then upd_poll i (ModRead (c_fd c)) ?s else ?s)"
      by (simp add: loopAction_def Let_def)
    have "c_out c = None" if "length (out_bytes (c_out c)) = 0"
      using that ev_inv_out [OF assms(1) c] by (auto simp: out_bytes_def split: option.splits)
    with grows_ModRead_listed [OF keeps_inv [OF k] keeps_listed [OF k assms(2)] c'] op s' keeps_inv [OF k]
    have "grows ?s s'" by (auto simp: grows_refl)
    with k show ?thesis by (rule keeps_grows_trans)
  next
    case False
    with assms(1,4) c show ?thesis
      by (auto simp: loopAction_def grows_refl split: Action.splits
          intro: loopCloseConn_grows loopDetachConn_grows)
  qed
qed

lemma read_event_keeps:
  assumes "ev_inv s" and "listed i cid s" and "read_event Ev i cid packet s = Some s'"
  shows "keeps s s'"
proof (cases "ev_Data Ev")
  case None
  with assms(1,3) show ?thesis by (simp add: read_event_def keeps_refl)
next
  case (Some f)
  with assms(3) obtain out a s1 where f: "f cid packet s = Some (out, a, s1)"
    by (auto simp: read_event_def split: bind_splits)
  define s2 where "s2 = upd_conn cid (\<lambda>c. c\<lparr>c_action := a\<rparr>) s1"
  have k1: "keeps s s1" using Some assms(1) f by (rule data_keeps)
  have k2: "keeps s s2"
    using k1 keeps_upd_fields [OF keeps_inv [OF k1], of "\<lambda>c. c\<lparr>c_action := a\<rparr>" cid]
    unfolding s2_def by (auto intro: keeps_trans)
  from keeps_listed [OF k2 assms(2)] obtain c where c: "s_heap s2 cid = Some c" "c_loop c = Some i"
    by (auto simp: listed_def)
  from assms(3) Some f c have "s' = s2 \<or>
      s' = upd_poll i (ModReadWrite (c_fd c)) (upd_conn cid (\<lambda>c. c\<lparr>c_out := append_out (c_out c) out\<rparr>) s2)"
    by (auto simp: read_event_def Let_def s2_def split: if_splits)
  with k2 keeps_trans [OF k2 keeps_queue_out [OF keeps_inv [OF k2] c]] show ?thesis by auto
qed

lemma loopRead_packet_keeps:
  assumes "ev_inv s" and "listed i cid s" and "loopRead_packet Ev i cid packet s = Some s'"
  shows "keeps s s'"
proof -
  from assms(3) obtain s1 where s1: "read_event Ev i cid packet s = Some s1"
    and s': "s' = s1 \<or> (\<exists>fd. s' = upd_poll i (ModReadWrite fd) s1)"
    by (auto simp: loopRead_packet_def split: bind_splits if_splits)
  have k: "keeps s s1" using assms(1,2) s1 by (rule read_event_keeps)
  with s' keeps_trans [OF k keeps_ModReadWrite [OF keeps_inv [OF k]]] show ?thesis by auto
qed

lemma loopRead_loop_grows:
  assumes "ev_inv s" and "listed i cid s" and "loopRead_loop Ev i cid packets fin s = Some (err, s')"
  shows "grows s s'"
  using assms
proof (induction packets arbitrary: s)
  case Nil
  then show ?case
    by (auto simp: grows_refl split: read_end.splits if_splits intro: loopCloseConn_grows)
next
  case (Cons packet packets)
  then obtain s1 where s1: "loopRead_packet Ev i cid packet s = Some s1"
    and rest: "loopRead_loop Ev i cid packets fin s1 = Some (err, s')"
    by (auto split: bind_splits)
  have k: "keeps s s1" using Cons.prems(1,2) s1 by (rule loopRead_packet_keeps)
  have "grows s1 s'" using keeps_inv [OF k] keeps_listed [OF k Cons.prems(2)] rest by (rule Cons.IH)
  with k show ?case by (rule keeps_grows_trans)
qed

lemma loopRead_grows:
  assumes "ev_inv s" and "listed i cid s" and "loopRead K Ev i cid s = Some (err, s')"
  shows "grows s s'"
proof -
  have k: "keeps s (tick s)" using assms(1) by (rule keeps_tick)
  from assms(3) obtain packets fin where "loopRead_loop Ev i cid packets fin (tick s) = Some (err, s')"
    by (auto simp: loopRead_def split: bind_splits prod.splits)
  with keeps_inv [OF k] keeps_listed [OF k assms(2)] have "grows (tick s) s'" by (rule loopRead_loop_grows)
  with k show ?thesis by (rule keeps_grows_trans)
qed

lemma loopUDPRead_grows:
  assumes "ev_inv s" and "loopUDPRead K Ev i lnidx fd s = Some (err, s')"
  shows "grows s s'"
proof (cases "k_recvfrom K (s_clock s) fd")
  case (Inl r)
  obtain packet sa where r: "r = (packet, sa)" by fastforce
  have k1: "keeps s (tick s)" using assms(1) by (rule keeps_tick)
  show ?thesis
  proof (cases "packet = [] \<or> ev_Data Ev = None")
    case True
    with assms(2) Inl r keeps_grows [OF k1] show ?thesis
      by (auto simp: loopUDPRead_def Let_def split: option.splits)
  next
    case False
    then obtain f where f: "ev_Data Ev = Some f" by auto
    from assms(2) Inl r False f obtain ln where ln: "index (s_lns (tick s)) (int lnidx) = Some ln"
      by (auto simp: loopUDPRead_def Let_def split: bind_splits)
    let ?c = "new_conn\<lparr>c_addrIndex := int lnidx, c_localAddr := Some (ln_lnaddr ln),
      c_remoteAddr := SockaddrToAddr (k_ifname K) (Some (udp_addr sa))\<rparr>"
    obtain cid s1 where al: "alloc_conn ?c (tick s) = (cid, s1)" by fastforce
    have k2: "keeps (tick s) s1" using keeps_inv [OF k1] al by (rule keeps_alloc) (simp add: new_conn_def)
    from assms(2) Inl r False f ln al obtain out a s2 where d: "f cid packet s1 = Some (out, a, s2)"
      and s': "s' = s2 \<or> s' = tick (s2\<lparr>s_wire := (s_wire s2)(fd := s_wire s2 fd @ out)\<rparr>)"
      by (auto simp: loopUDPRead_def Let_def split: bind_splits if_splits)
    have k3: "keeps s1 s2" using f keeps_inv [OF k2] d by (rule data_keeps)
    have "keeps s2 s'" using s' keeps_inv [OF k3] by (auto intro: keeps_other keeps_refl)
    with k1 k2 k3 show ?thesis by (blast intro: keeps_trans keeps_grows)
  qed
next
  case (Inr e)
  with assms keeps_tick show ?thesis by (auto simp: loopUDPRead_def intro: keeps_grows)
qed

lemma accept_balance_keeps: "ev_inv s \<Longrightarrow> accept_balance i s = (ok, s') \<Longrightarrow> keeps s s'"
  by (rule keeps_other) (auto simp: accept_balance_def Let_def split: if_splits LoadBalance.splits)

lemma accept_conn_grows:
  assumes "ev_inv s" and "alloc_conn (new_conn\<lparr>c_fd := nfd, c_sa := Some sa, c_lnidx := int k, c_loop := Some i\<rparr>) s = (cid, s1)"
  shows "grows s (upd_loop i (\<lambda>l. l\<lparr>l_count := l_count l + 1\<rparr>) (upd_poll i (AddReadWrite nfd)
    (upd_loop i (\<lambda>l. l\<lparr>l_fdconns := (l_fdconns l)(nfd \<mapsto> cid)\<rparr>) s1)))"
proof -
  note a = keeps_alloc [OF assms]
  have k: "keeps s s1" by (rule a(1)) (simp add: new_conn_def)
  have "s_heap s1 cid = Some (new_conn\<lparr>c_fd := nfd, c_sa := Some sa, c_lnidx := int k, c_loop := Some i\<rparr>)"
    by (rule a(2)) (simp add: new_conn_def)
  from grows_insert [OF keeps_inv [OF k] this]
  have g: "grows s1 (upd_poll i (AddReadWrite nfd) (upd_loop i (\<lambda>l. l\<lparr>l_fdconns := (l_fdconns l)(nfd \<mapsto> cid)\<rparr>) s1))"
    by simp
  show ?thesis
    using grows_trans [OF keeps_grows [OF k] grows_trans [OF g keeps_grows [OF keeps_count [OF grows_inv [OF g]]]]] .
qed

lemma accept_loop_grows:
  assumes "ev_inv s" and "accept_loop K Ev i fd k lns s = Some (err, s')"
  shows "grows s s'"
  using assms(2)
proof (induction lns arbitrary: k)
  case Nil
  with assms(1) show ?case by (simp add: grows_refl)
next
  case (Cons ln lns)
  obtain ok s1 where b: "accept_balance i s = (ok, s1)" by fastforce
  have k1: "keeps s s1" using assms(1) b by (rule accept_balance_keeps)
  have k2: "keeps s (tick s1)" "keeps s (tick (tick s1))" using k1 by (simp_all add: keeps_then_tick)
  have conn: "grows s (upd_loop i (\<lambda>l. l\<lparr>l_count := l_count l + 1\<rparr>) (upd_poll i (AddReadWrite nfd)
      (upd_loop i (\<lambda>l. l\<lparr>l_fdconns := (l_fdconns l)(nfd \<mapsto> cid)\<rparr>) s3)))"
    if "alloc_conn (new_conn\<lparr>c_fd := nfd, c_sa := Some sa, c_lnidx := int k, c_loop := Some i\<rparr>)
      ((tick (tick s1))\<lparr>s_wire := w\<rparr>) = (cid, s3)" for nfd sa w cid s3
  proof -
    have "keeps (tick (tick s1)) ((tick (tick s1))\<lparr>s_wire := w\<rparr>)"
      using keeps_inv [OF k2(2)] by (rule keeps_other) simp_all
    with k2(2) have k3: "keeps s ((tick (tick s1))\<lparr>s_wire := w\<rparr>)" by (rule keeps_trans)
    show ?thesis using k3 accept_conn_grows [OF keeps_inv [OF k3] that] by (rule keeps_grows_trans)
  qed
  have udp: "grows s s'" if "loopUDPRead K Ev i k fd s1 = Some (err, s')"
    using k1 loopUDPRead_grows [OF keeps_inv [OF k1] that] by (rule keeps_grows_trans)
  show ?case
  proof (cases "ln_fd ln = fd")
    case True
    with Cons.prems b udp conn keeps_grows [OF k1] keeps_grows [OF k2(1)] keeps_grows [OF k2(2)] show ?thesis
      by (auto simp: Let_def split: if_splits sum.splits option.splits prod.splits)
  next
    case False
    with Cons show ?thesis by simp
  qed
qed

text \<open>Every event of a loop keeps the invariant.\<close>

lemma loop_event_grows:
  assumes "ev_inv s" and i: "i < length (s_loops s)" and "\<And>n. nt = Some n \<Longrightarrow> note_ok i (s_heap s) n"
    and "loop_event K Ev i fd nt event s = Some (err, s')"
  shows "grows s s'"
proof (cases "fd = 0")
  case True
  show ?thesis
  proof (cases nt)
    case None
    with True assms(1,4) show ?thesis by (simp add: loop_event_def grows_refl)
  next
    case (Some n)
    show ?thesis
    proof (cases n)
      case (NoteConn cid)
      with assms(3) [OF Some] obtain c where c: "s_heap s cid = Some c" "c_loop c = Some i" by (auto simp: note_ok_def)
      with assms(4) True Some NoteConn grows_insert [OF assms(1) c] show ?thesis
        by (simp add: loop_event_def Let_def)
    qed (use True Some assms(1,4) in \<open>auto simp: loop_event_def intro: loopNote_grows\<close>)
  qed
next
  case False
  show ?thesis
  proof (cases "l_fdconns (s_loops s ! i) fd")
    case None
    with False assms(1,4) show ?thesis by (auto simp: loop_event_def loopAccept_def intro: accept_loop_grows)
  next
    case (Some cid)
    from ev_inv_listed [OF assms(1) i Some] obtain c where l: "listed i cid s" and c: "s_heap s cid = Some c" by blast
    show ?thesis
    proof (cases "c_opened c \<and> event AND PollEvent_Write \<noteq> 0")
      case True
      with False Some c assms(4) obtain sent e s1 where w: "loopWrite K Ev i cid s = Some (sent, e, s1)"
        and rest: "(if \<not> sent then loopRead K Ev i cid s1 else Some (e, s1)) = Some (err, s')"
        by (auto simp: loop_event_def split: bind_splits)
      have "c_opened (the (s_heap s cid))" using True c by simp
      note g = loopWrite_grows [OF assms(1) l this w]
      with rest show ?thesis
        by (auto split: if_splits intro: grows_trans [OF g(1)] loopRead_grows [OF grows_inv [OF g(1)]])
    next
      case no_write: False
      with False Some c l assms(1,4) show ?thesis
        by (auto simp: loop_event_def split: if_splits intro: loopOpened_grows loopAction_grows loopRead_grows)
    qed
  qed
qed

lemma iter_notes_grows:
  assumes "ev_inv s" and "i < length (s_loops s)" and "\<And>n. n \<in> set ns \<Longrightarrow> note_ok i (s_heap s) n"
    and "iter_notes (\<lambda>n. loop_event K Ev i 0 (Some n) 0) ns s = Some (err, s')"
  shows "grows s s'"
  using assms
proof (induction ns arbitrary: s)
  case Nil
  then show ?case by (simp add: grows_refl)
next
  case (Cons n ns)
  then obtain e s1 where s1: "loop_event K Ev i 0 (Some n) 0 s = Some (e, s1)"
    and rest: "(if e \<noteq> None then Some (e, s1) else iter_notes (\<lambda>n. loop_event K Ev i 0 (Some n) 0) ns s1) = Some (err, s')"
    by (auto split: bind_splits)
  have g: "grows s s1" by (rule loop_event_grows [OF Cons.prems(1,2) _ s1]) (simp add: Cons.prems(3))
  have "note_ok i (s_heap s1) n'" if "n' \<in> set ns" for n'
    using Cons.prems(3) [of n'] that g note_ok_grows by auto
  with Cons.IH [of s1] Cons.prems(2) rest g show ?case
    by (auto simp: grows_def split: if_splits intro: heap_keeps_trans)
qed

lemma foreach_grows:
  assumes "ev_inv s" and "i < length (s_loops s)"
    and "nq_ForEach (loop_notes i) (put_notes i) (\<lambda>n. loop_event K Ev i 0 (Some n) 0) s = Some (err, s')"
  shows "grows s s'"
proof -
  obtain ns q where t: "nq_take (loop_notes i s) = (ns, q)" by fastforce
  then have sub: "set ns \<subseteq> set (nq_notes (loop_notes i s))" "set (nq_notes q) \<subseteq> set (nq_notes (loop_notes i s))"
    by (auto simp: nq_take_def Let_def split: if_splits)
  have k: "keeps s (put_notes i q s)"
    unfolding put_notes_def
  proof (rule keeps_upd_poll [OF assms(1)])
    fix l assume l: "l = s_loops s ! i" "loop_ok (s_heap s) i l"
    with sub(2) show "loop_ok (s_heap s) i (l\<lparr>l_poll := l_poll l\<lparr>p_notes := q\<rparr>\<rparr>) \<and>
        (\<forall>fd. snd (watches (l_poll l) fd) \<longrightarrow> snd (watches (l_poll l\<lparr>p_notes := q\<rparr>) fd))"
      by (auto simp: loop_ok_def conn_ok_iff watches_def poll_ok_def loop_notes_def)
  qed
  have "note_ok i (s_heap (put_notes i q s)) n" if "n \<in> set ns" for n
    using ev_inv_loop [OF assms(1,2)] sub(1) that by (auto simp: loop_ok_def loop_notes_def put_notes_def)
  with keeps_inv [OF k] assms(2,3) t keeps_length [OF k]
  have "grows (put_notes i q s) s'" by (intro iter_notes_grows) (auto simp: nq_ForEach_def)
  with k show ?thesis by (rule keeps_grows_trans)
qed

lemma ev_step_grows:
  assumes "ev_inv s" and "ev_step K Ev s s'"
  shows "grows s s'"
  using assms(2)
proof cases
  case (run_notes i err)
  with assms(1) show ?thesis by (rule foreach_grows)
next
  case (event i fd ev err)
  show ?thesis by (rule loop_event_grows [OF assms(1) event(1) _ event(2)]) simp
next
  case (send cid data)
  with assms(1) show ?thesis by (blast intro: conn_Send_keeps keeps_grows)
next
  case (connect addr port ctx res err)
  with assms(1) show ?thesis by (blast intro: outConnect_keeps keeps_grows)
next
  case (ticker i err)
  have "keeps s (upd_poll i (\<lambda>p. snd (Trigger (k_trigger K (s_clock s)) NoteTick p)) s)"
    using assms(1) by (rule keeps_Trigger) (simp add: note_ok_def)
  with ticker show ?thesis by (auto simp: loopTicker_round_def intro: keeps_grows keeps_then_tick)
next
  case stop
  with assms(1) show ?thesis by (auto intro: keeps_grows serve_stop_keeps)
qed

lemma ev_steps_grow:
  assumes "(ev_step K Ev)\<^sup>*\<^sup>* s s'" and "ev_inv s"
  shows "grows s s'"
  using assms
proof (induction rule: rtranclp_induct)
  case base
  then show ?case by (rule grows_refl)
next
  case (step s1 s2)
  then show ?case by (blast intro: grows_trans ev_step_grows grows_inv)
qed

text \<open>A run of \<^verbatim>\<open>loopRun\<close> is a sequence of steps.\<close>

lemma dispatch_events_steps:
  assumes "ev_inv s" and "i < length (s_loops s)"
    and "dispatch_events wfd (loop_event K Ev i) evs s = Some (err, s')"
  shows "(ev_step K Ev)\<^sup>*\<^sup>* s s'"
  using assms
proof (induction evs arbitrary: s)
  case (Cons ev evs)
  show ?case
  proof (cases "ee_Fd ev = wfd")
    case True
    with Cons show ?thesis by simp
  next
    case False
    with Cons.prems(3) obtain e s1 where s1: "loop_event K Ev i (ee_Fd ev) None (event_bits (ee_Events ev)) s = Some (e, s1)"
      and rest: "(if e \<noteq> None then Some (e, s1) else dispatch_events wfd (loop_event K Ev i) evs s1) = Some (err, s')"
      by (auto split: bind_splits)
    from Cons.prems(2) s1 have step: "ev_step K Ev s s1" by (rule ev_step.event)
    with Cons.prems(1) have "grows s s1" by (rule ev_step_grows)
    with Cons rest have "(ev_step K Ev)\<^sup>*\<^sup>* s1 s'" by (auto simp: grows_def split: if_splits)
    with step show ?thesis by (rule converse_rtranclp_into_rtranclp)
  qed
qed simp

lemma Wait_round_steps:
  assumes "ev_inv s" and "i < length (s_loops s)"
    and "Wait_round (loop_notes i) (put_notes i) wfd (loop_event K Ev i) evs s = Some (err, s')"
  shows "(ev_step K Ev)\<^sup>*\<^sup>* s s'"
proof -
  from assms(3) obtain e s1
    where s1: "nq_ForEach (loop_notes i) (put_notes i) (\<lambda>n. loop_event K Ev i 0 (Some n) 0) s = Some (e, s1)"
    and rest: "(if e \<noteq> None then Some (e, s1) else dispatch_events wfd (loop_event K Ev i) evs s1) = Some (err, s')"
    by (auto simp: Wait_round_def split: bind_splits)
  from assms(2) s1 have step: "ev_step K Ev s s1" by (rule ev_step.run_notes)
  from assms(1) step have "grows s s1" by (rule ev_step_grows)
  with assms(2) rest have "(ev_step K Ev)\<^sup>*\<^sup>* s1 s'"
    by (auto simp: grows_def split: if_splits intro: dispatch_events_steps)
  with step show ?thesis by (rule converse_rtranclp_into_rtranclp)
qed

lemma Wait_steps:
  assumes "ev_inv s" and "i < length (s_loops s)"
    and "Wait (loop_notes i) (put_notes i) wfd SysError (loop_event K Ev i) rounds s = Some (r, s')"
  shows "(ev_step K Ev)\<^sup>*\<^sup>* s s'"
  using assms
proof (induction rounds arbitrary: s)
  case (Cons res rounds)
  have go: "(ev_step K Ev)\<^sup>*\<^sup>* s s'"
    if "Wait_round (loop_notes i) (put_notes i) wfd (loop_event K Ev i) evs s = Some (e, s1)"
      and "(if e \<noteq> None then Some (WaitReturned (the e), s1)
            else Wait (loop_notes i) (put_notes i) wfd SysError (loop_event K Ev i) rounds s1) = Some (r, s')"
    for evs e s1
  proof -
    from Cons.prems(1,2) that(1) have steps: "(ev_step K Ev)\<^sup>*\<^sup>* s s1" by (rule Wait_round_steps)
    from ev_steps_grow [OF this Cons.prems(1)] Cons.prems(2) have "ev_inv s1" "i < length (s_loops s1)"
      by (simp_all add: grows_def)
    with Cons.IH [of s1] that(2) have "(ev_step K Ev)\<^sup>*\<^sup>* s1 s'" by (cases e) auto
    with steps show ?thesis by (rule rtranclp_trans)
  qed
  show ?case
  proof (cases res)
    case (Inl evs)
    with Cons.prems(3) obtain e s1 where
      "Wait_round (loop_notes i) (put_notes i) wfd (loop_event K Ev i) evs s = Some (e, s1)"
      "(if e \<noteq> None then Some (WaitReturned (the e), s1)
        else Wait (loop_notes i) (put_notes i) wfd SysError (loop_event K Ev i) rounds s1) = Some (r, s')"
      by (auto simp: bind_eq_Some_conv)
    then show ?thesis by (rule go)
  next
    case (Inr e0)
    show ?thesis
    proof (cases "e0 = EINTR")
      case True
      with Inr Cons.prems(3) obtain e s1 where
        "Wait_round (loop_notes i) (put_notes i) wfd (loop_event K Ev i) [] s = Some (e, s1)"
        "(if e \<noteq> None then Some (WaitReturned (the e), s1)
          else Wait (loop_notes i) (put_notes i) wfd SysError (loop_event K Ev i) rounds s1) = Some (r, s')"
        by (auto simp: bind_eq_Some_conv)
      then show ?thesis by (rule go)
    next
      case False
      with Inr Cons.prems(3) show ?thesis by simp
    qed
  qed
qed simp

lemma loopRun_steps:
  "ev_inv s \<Longrightarrow> i < length (s_loops s) \<Longrightarrow> loopRun K Ev i rounds s = Some (r, s') \<Longrightarrow> (ev_step K Ev)\<^sup>*\<^sup>* s s'"
  unfolding loopRun_def by (rule Wait_steps)

text \<open>The server that \<^verbatim>\<open>serve\<close> starts satisfies the invariant, and so does everything it reaches.\<close>

lemma serve_start_inv:
  assumes "ev_inv s" and "s_loops s = []" and "serve_start ncpu fds Ev lns s = Some (Inr s')"
  shows "ev_inv s'"
proof -
  let ?n = "serve_numLoops ncpu (ev_NumLoops Ev)"
  let ?s0 = "s\<lparr>s_lns := lns, s_balance := ev_LoadBalance Ev, s_tch := []\<rparr>"
  have inv0: "ev_inv ?s0" using assms(1) ev_inv_cong [of ?s0 s] by simp
  have "\<exists>s1. s' = s1\<lparr>s_loops := s_loops s1 @ map (\<lambda>i. new_loop lns i (fds i)) [0..<?n]\<rparr> \<and> keeps ?s0 s1"
  proof (cases "ev_Serving Ev")
    case None
    with assms(3) keeps_refl [OF inv0] show ?thesis by (intro exI [of _ ?s0]) (simp add: serve_start_def)
  next
    case (Some f)
    with assms(3) obtain a s1 where "f (map ln_lnaddr lns) ?n ?s0 = Some (a, s1)"
      and "s' = s1\<lparr>s_loops := s_loops s1 @ map (\<lambda>i. new_loop lns i (fds i)) [0..<?n]\<rparr>"
      by (auto simp: serve_start_def Let_def split: bind_splits if_splits)
    with serving_keeps [OF Some inv0] show ?thesis by blast
  qed
  then obtain s1 where s': "s' = s1\<lparr>s_loops := s_loops s1 @ map (\<lambda>i. new_loop lns i (fds i)) [0..<?n]\<rparr>"
    and s1: "keeps ?s0 s1"
    by blast
  have "s_loops s1 = []" using keeps_length [OF s1] assms(2) by simp
  with s' keeps_inv [OF s1] show ?thesis by (simp add: ev_inv_def new_loop_ok)
qed

lemma serve_reach_inv:
  assumes "ev_inv s0" and "s_loops s0 = []" and "serve_start ncpu fds Ev lns s0 = Some (Inr s)"
    and "(ev_step K Ev)\<^sup>*\<^sup>* s s'"
  shows "ev_inv s'"
  using ev_steps_grow [OF assms(4) serve_start_inv [OF assms(1-3)]] by (rule grows_inv)

end

end
