(* ===== verification/Loop_Output.thy ===== *)
theory Loop_Output
  imports Loop_Invariant
begin

text \<open>
  What the event loop does with the bytes it is to send, and when it closes. \<open>out_stream\<close> is what
  the peer of a connection has got plus what is pending: event handlers extend it, write events leave it
  alone, and enough write events empty the pending part. Then come the places where
  \<^verbatim>\<open>evio_unix.go\<close> does not do what it means to: \<^verbatim>\<open>Send\<close> with pending output, \<^verbatim>\<open>Send\<close> on a full socket, the \<^verbatim>\<open>Close\<close>
  action on a writable connection, the connection count of outgoing connections.
\<close>

subsection \<open>Write events\<close>

definition out_stream :: "cid \<Rightarrow> ('u, 'x) server \<Rightarrow> bytes" where
  "out_stream cid s = (case s_heap s cid of None \<Rightarrow> [] | Some c \<Rightarrow> s_wire s (c_fd c) @ out_bytes (c_out c))"

lemma out_stream_tick [simp]: "out_stream cid (tick s) = out_stream cid s"
  by (simp add: out_stream_def split: option.splits)

lemma sys_write_wire:
  "k_write K (s_clock s) fd data = Inl n \<Longrightarrow>
   sys_write K fd data s = (int n, None, tick (s\<lparr>s_wire := (s_wire s)(fd := s_wire s fd @ take n data)\<rparr>))"
  by (simp add: sys_write_def)

text \<open>A write that the kernel takes \<open>n\<close> bytes of.\<close>

definition wrote :: "nat \<Rightarrow> nat \<Rightarrow> cid \<Rightarrow> 'x conn \<Rightarrow> bytes \<Rightarrow> ('u, 'x) server \<Rightarrow> ('u, 'x) server" where
  "wrote n i cid c out s =
     (let s = tick (s\<lparr>s_wire := (s_wire s)(c_fd c := s_wire s (c_fd c) @ take n out)\<rparr>);
          s = upd_conn cid (\<lambda>c. c\<lparr>c_out := if n = length out then None else Some (drop n out)\<rparr>) s
      in if n = length out \<and> c_action c = NoAction then upd_poll i (ModRead (c_fd c)) s else s)"

lemma loopWrite_wrote:
  assumes "s_heap s cid = Some c" and "c_out c = Some out"
    and "k_write K (s_clock s) (c_fd c) out = Inl n" and "n \<le> length out"
  shows "loopWrite K Ev i cid s = Some (True, None, wrote n i cid c out s)"
  using assms
  by (cases "n = length out") (auto simp: loopWrite_def sys_write_wire wrote_def out_bytes_def Let_def)

lemma loopWrite_again:
  assumes "s_heap s cid = Some c" and "c_out c = Some out" and "k_write K (s_clock s) (c_fd c) out = Inr EAGAIN"
  shows "loopWrite K Ev i cid s = Some (True, None, tick s)"
  using assms by (simp add: loopWrite_def sys_write_def)

lemma wrote_stream:
  "s_heap s cid = Some c \<Longrightarrow> c_out c = Some out \<Longrightarrow> n \<le> length out \<Longrightarrow>
   out_stream cid (wrote n i cid c out s) = out_stream cid s"
  by (auto simp: out_stream_def wrote_def out_bytes_def Let_def)

lemma wrote_simps:
  assumes "s_heap s cid = Some c" and "i < length (s_loops s)"
  shows "s_heap (wrote n i cid c out s) cid = Some (c\<lparr>c_out := if n = length out then None else Some (drop n out)\<rparr>)"
    and "s_wire (wrote n i cid c out s) (c_fd c) = s_wire s (c_fd c) @ take n out"
    and "l_fdconns (s_loops (wrote n i cid c out s) ! i) = l_fdconns (s_loops s ! i)"
    and "length (s_loops (wrote n i cid c out s)) = length (s_loops s)"
    and "l_poll (s_loops (wrote n i cid c out s) ! i) =
      (if n = length out \<and> c_action c = NoAction then ModRead (c_fd c) (l_poll (s_loops s ! i)) else l_poll (s_loops s ! i))"
  using assms by (simp_all add: wrote_def Let_def)

lemma write_event:
  assumes "fd \<noteq> 0" and "l_fdconns (s_loops s ! i) fd = Some cid" and "s_heap s cid = Some c"
    and "c_opened c" and "loopWrite K Ev i cid s = Some (True, err, s')"
  shows "loop_event K Ev i fd None PollEvent_Write s = Some (err, s')"
  using assms by (simp add: loop_event_def PollEvent_Write_def)

lemma out_bytes_simps [simp]: "out_bytes None = []" "out_bytes (Some d) = d"
  by (simp_all add: out_bytes_def)

lemma append_out_bytes: "out_bytes (append_out out d) = out_bytes out @ d"
  by (simp add: append_out_def out_bytes_def split: option.splits)

subsection \<open>Flushing\<close>

text \<open>\<open>n\<close> write events on a descriptor, one after the other.\<close>

fun write_events ::
  "kernel \<Rightarrow> ('u, 'x) Events \<Rightarrow> nat \<Rightarrow> int \<Rightarrow> nat \<Rightarrow> ('u, 'x) server \<Rightarrow> (ev_error option \<times> ('u, 'x) server) go" where
  "write_events K Ev i fd 0 s = Some (None, s)"
| "write_events K Ev i fd (Suc n) s = do {
     (err, s) \<leftarrow> loop_event K Ev i fd None PollEvent_Write s;
     if err \<noteq> None then Some (err, s) else write_events K Ev i fd n s
   }"

definition takes_some :: "kernel \<Rightarrow> int \<Rightarrow> bool" where
  "takes_some K fd \<longleftrightarrow> (\<forall>t d. d \<noteq> [] \<longrightarrow> (\<exists>n. k_write K t fd d = Inl n \<and> 0 < n \<and> n \<le> length d))"

lemma flush:
  assumes "takes_some K fd" and "fd \<noteq> 0" and "i < length (s_loops s)"
    and "l_fdconns (s_loops s ! i) fd = Some cid" and "s_heap s cid = Some c" and "c_fd c = fd" and "c_opened c"
    and "c_out c = Some out" and "out \<noteq> []" and "c_action c = NoAction" and "fst (watches (l_poll (s_loops s ! i)) fd)"
  shows "\<exists>n s'. n \<le> length out \<and> write_events K Ev i fd n s = Some (None, s') \<and>
    s_heap s' cid = Some (c\<lparr>c_out := None\<rparr>) \<and> s_wire s' fd = s_wire s fd @ out \<and>
    watches (l_poll (s_loops s' ! i)) fd = (True, False)"
  using assms
proof (induction "length out" arbitrary: s c out rule: less_induct)
  case less
  from less.prems(1,9) obtain n where n: "k_write K (s_clock s) fd out = Inl n" "0 < n" "n \<le> length out"
    unfolding takes_some_def by blast
  let ?s = "wrote n i cid c out s"
  have w: "loop_event K Ev i fd None PollEvent_Write s = Some (None, ?s)"
    using less.prems n loopWrite_wrote [of s cid c out K n Ev i] by (intro write_event) simp_all
  note ws = wrote_simps [OF less.prems(5,3), of n out]
  show ?case
  proof (cases "n = length out")
    case True
    have "watches (l_poll (s_loops ?s ! i)) fd = (True, False)"
      using ws(5) True less.prems epoll.mod_read_watch [of "l_poll (s_loops s ! i)" fd] by simp
    moreover have "write_events K Ev i fd 1 s = Some (None, ?s)" using w by simp
    moreover have "1 \<le> length out" using less.prems(9) by (cases out) simp_all
    ultimately show ?thesis using ws True less.prems(6) by (intro exI [of _ 1] exI [of _ ?s]) simp
  next
    case False
    with n have shorter: "length (drop n out) < length out" and rest: "drop n out \<noteq> []" by auto
    have c': "c\<lparr>c_out := Some (drop n out)\<rparr>\<lparr>c_out := None\<rparr> = c\<lparr>c_out := None\<rparr>" by simp
    from less.hyps [OF shorter less.prems(1,2), of ?s "c\<lparr>c_out := Some (drop n out)\<rparr>"]
    obtain m s' where m: "m \<le> length (drop n out)" "write_events K Ev i fd m ?s = Some (None, s')"
      "s_heap s' cid = Some (c\<lparr>c_out := None\<rparr>)" "s_wire s' fd = s_wire ?s fd @ drop n out"
      "watches (l_poll (s_loops s' ! i)) fd = (True, False)"
      using ws False less.prems rest unfolding c' by auto
    have "write_events K Ev i fd (Suc m) s = Some (None, s')" using w m(2) by simp
    moreover have "Suc m \<le> length out" using m(1) n by simp
    ultimately show ?thesis
      using m ws(2) less.prems(6) by (intro exI [of _ "Suc m"] exI [of _ s']) simp
  qed
qed

subsection \<open>An example\<close>

text \<open>A loop with one open connection on descriptor 7, and a kernel that takes one byte at a time.\<close>

definition ex_conn :: "bytes option \<Rightarrow> Action \<Rightarrow> 'x conn" where
  "ex_conn out action = new_conn\<lparr>c_fd := 7, c_loop := Some 0, c_opened := True, c_out := out, c_action := action\<rparr>"

definition ex_loop :: loop where
  "ex_loop = \<lparr>l_idx = 0, l_poll = AddReadWrite 7 (OpenPoll 3 4), l_fdconns = [7 \<mapsto> 0], l_count = 1\<rparr>"

definition ex_server :: "'x conn \<Rightarrow> 'u \<Rightarrow> ('u, 'x) server" where
  "ex_server c u = (new_server u)\<lparr>s_loops := [ex_loop], s_heap := [0 \<mapsto> c], s_next := 1\<rparr>"

definition ex_kernel :: "(nat + errno) \<Rightarrow> bytes list \<Rightarrow> kernel" where
  "ex_kernel w packets =
     \<lparr>k_write = (\<lambda>t fd d. w), k_reads = (\<lambda>t fd. (packets, ReadErr EAGAIN)),
      k_accept = (\<lambda>t fd. Inl (7, SockaddrInet4 [10, 0, 0, 1] 4000)), k_nonblock = (\<lambda>t fd. None),
      k_recvfrom = (\<lambda>t fd. Inr EAGAIN), k_socket = (\<lambda>t. 7), k_connect = (\<lambda>t fd sa. None),
      k_trigger = (\<lambda>t. None), k_lookup = (\<lambda>a. Some [127, 0, 0, 1]), k_ifname = (\<lambda>z. None), k_intn = (\<lambda>t n. 0)\<rparr>"

definition ex_events :: "('u, 'x) Events" where
  "ex_events = \<lparr>ev_NumLoops = 1, ev_LoadBalance = Random, ev_Serving = None, ev_Opened = None, ev_Closed = None,
     ev_Detached = None, ev_Data = None, ev_Tick = None\<rparr>"

lemma ex_simps [simp]:
  "s_loops (ex_server c u) = [ex_loop]" "s_heap (ex_server c u) = [0 \<mapsto> c]" "s_next (ex_server c u) = 1"
  "s_wire (ex_server c u) = (\<lambda>_. [])" "s_clock (ex_server c u) = 0" "s_user (ex_server c u) = u"
  "s_lns (ex_server c u) = []"
  "l_fdconns ex_loop = [7 \<mapsto> 0]" "l_idx ex_loop = 0" "l_count ex_loop = 1"
  "c_fd (ex_conn out a) = 7" "c_loop (ex_conn out a) = Some 0" "c_opened (ex_conn out a)"
  "c_out (ex_conn out a) = out" "c_action (ex_conn out a) = a" "c_ctx (ex_conn out a) = None"
  "k_write (ex_kernel w ps) t fd d = w" "k_reads (ex_kernel w ps) t fd = (ps, ReadErr EAGAIN)"
  by (simp_all add: ex_server_def new_server_def ex_loop_def ex_conn_def new_conn_def ex_kernel_def)

lemma ex_watches: "watches (l_poll ex_loop) 7 = (True, True)"
  using epoll.add_read_write_watch [of 7 "OpenPoll 3 4 :: loop_note Poll"] by (simp add: ex_loop_def)

lemma ex_takes_some: "takes_some (ex_kernel (Inl (Suc 0)) []) fd"
  by (auto simp: takes_some_def Suc_le_eq)

subsection \<open>Properties\<close>

text \<open>
  C14: pending output is flushed. On an open connection whose kernel buffer takes at least one byte per
  write, at most as many write events as there are pending bytes put all of them on the wire, behind what
  was sent before, leave no pending output and end the write watch.
\<close>

theorem output_flushed:
  assumes "takes_some K fd" and "fd \<noteq> 0" and "i < length (s_loops s)"
    and "l_fdconns (s_loops s ! i) fd = Some cid" and "s_heap s cid = Some c" and "c_fd c = fd" and "c_opened c"
    and "c_out c = Some out" and "out \<noteq> []" and "c_action c = NoAction" and "fst (watches (l_poll (s_loops s ! i)) fd)"
  shows "\<exists>n s'. n \<le> length out \<and> write_events K Ev i fd n s = Some (None, s') \<and>
    s_heap s' cid = Some (c\<lparr>c_out := None\<rparr>) \<and> s_wire s' fd = s_wire s fd @ out \<and>
    watches (l_poll (s_loops s' ! i)) fd = (True, False)"
  using assms by (rule flush)

theorem output_flushed_witness:
  "\<exists>n s'. n \<le> length [1, 2, 3 :: byte] \<and>
     write_events (ex_kernel (Inl (Suc 0)) []) ex_events 0 7 n (ex_server (ex_conn (Some [1, 2, 3]) NoAction) ()) = Some (None, s') \<and>
     s_heap s' 0 = Some ((ex_conn (Some [1, 2, 3]) NoAction :: unit conn)\<lparr>c_out := None\<rparr>) \<and>
     s_wire s' 7 = s_wire (ex_server (ex_conn (Some [1, 2, 3]) NoAction :: unit conn) ()) 7 @ [1, 2, 3] \<and>
     watches (l_poll (s_loops s' ! 0)) 7 = (True, False)"
  by (rule output_flushed) (simp_all add: ex_takes_some ex_simps ex_watches)

text \<open>
  C13: output stays in order. What a connection has sent plus what is pending is left alone by a write
  event that the kernel answers with a count or with \<^verbatim>\<open>EAGAIN\<close>, extended by exactly the bytes that a \<^verbatim>\<open>Data\<close>
  event returns, and extended by exactly the data of a \<^verbatim>\<open>Send\<close> when nothing is pending and the kernel takes
  part or all of it.
\<close>

theorem output_in_order:
  assumes "s_heap s cid = Some c" and "c_loop c = Some i"
  shows "(\<forall>out n. c_out c = Some out \<and> k_write K (s_clock s) (c_fd c) out = Inl n \<and> n \<le> length out \<longrightarrow>
      (\<exists>s'. loopWrite K Ev i cid s = Some (True, None, s') \<and> out_stream cid s' = out_stream cid s)) \<and>
    (\<forall>out. c_out c = Some out \<and> k_write K (s_clock s) (c_fd c) out = Inr EAGAIN \<longrightarrow>
      (\<exists>s'. loopWrite K Ev i cid s = Some (True, None, s') \<and> out_stream cid s' = out_stream cid s)) \<and>
    (\<forall>f packet reply action s1. ev_Data Ev = Some f \<and> f cid packet s = Some (reply, action, s1) \<and>
        s_heap s1 cid \<noteq> None \<and> out_stream cid s1 = out_stream cid s \<longrightarrow>
      (\<exists>s'. read_event Ev i cid packet s = Some s' \<and> out_stream cid s' = out_stream cid s @ reply)) \<and>
    (\<forall>data n. c_out c = None \<and> k_write K (s_clock s) (c_fd c) data = Inl n \<and> n \<le> length data \<longrightarrow>
      (\<exists>s'. conn_Send K cid data s = Some s' \<and> out_stream cid s' = out_stream cid s @ data))"
proof (intro conjI allI impI)
  fix out n
  assume w: "c_out c = Some out \<and> k_write K (s_clock s) (c_fd c) out = Inl n \<and> n \<le> length out"
  then have "loopWrite K Ev i cid s = Some (True, None, wrote n i cid c out s)"
    using loopWrite_wrote [OF assms(1)] by simp
  with w wrote_stream [OF assms(1)] show "\<exists>s'. loopWrite K Ev i cid s = Some (True, None, s') \<and> out_stream cid s' = out_stream cid s"
    by blast
next
  fix out
  assume "c_out c = Some out \<and> k_write K (s_clock s) (c_fd c) out = Inr EAGAIN"
  then show "\<exists>s'. loopWrite K Ev i cid s = Some (True, None, s') \<and> out_stream cid s' = out_stream cid s"
    using loopWrite_again [OF assms(1)] by simp
next
  fix f packet reply action s1
  assume "ev_Data Ev = Some f \<and> f cid packet s = Some (reply, action, s1) \<and>
    s_heap s1 cid \<noteq> None \<and> out_stream cid s1 = out_stream cid s"
  then show "\<exists>s'. read_event Ev i cid packet s = Some s' \<and> out_stream cid s' = out_stream cid s @ reply"
    by (auto simp: read_event_def out_stream_def append_out_bytes Let_def)
next
  fix data n
  assume "c_out c = None \<and> k_write K (s_clock s) (c_fd c) data = Inl n \<and> n \<le> length data"
  then show "\<exists>s'. conn_Send K cid data s = Some s' \<and> out_stream cid s' = out_stream cid s @ data"
    using assms by (cases "n = length data")
      (auto simp: conn_Send_def sys_write_wire out_stream_def append_out_bytes Let_def)
qed

theorem output_in_order_witness:
  "\<exists>s'. loopWrite (ex_kernel (Inl 2) []) ex_events 0 0 (ex_server (ex_conn (Some [1, 2, 3]) NoAction :: unit conn) ()) =
      Some (True, None, s') \<and>
    out_stream 0 s' = out_stream 0 (ex_server (ex_conn (Some [1, 2, 3]) NoAction :: unit conn) ())"
  using output_in_order [of "ex_server (ex_conn (Some [1, 2, 3]) NoAction :: unit conn) ()" 0
      "ex_conn (Some [1, 2, 3]) NoAction" 0 "ex_kernel (Inl 2) []" ex_events]
  by simp

text \<open>
  C35: \<^verbatim>\<open>Send\<close> with pending output sends its data twice and out of order: the data is appended to the
  pending output and then also written, ahead of that output.
\<close>

theorem send_pending_duplicates:
  assumes "s_heap s cid = Some c" and "c_out c = Some p"
    and "k_write K (s_clock s) (c_fd c) data = Inl (length data)"
  shows "\<exists>s'. conn_Send K cid data s = Some s' \<and> s_wire s' (c_fd c) = s_wire s (c_fd c) @ data \<and>
    out_stream cid s' = s_wire s (c_fd c) @ data @ p @ data"
  using assms by (simp add: conn_Send_def sys_write_wire out_stream_def append_out_def out_bytes_def)

theorem send_pending_duplicates_witness:
  "\<exists>s'. conn_Send (ex_kernel (Inl 2) []) 0 [8, 9] (ex_server (ex_conn (Some [1]) NoAction :: unit conn) ()) = Some s' \<and>
    s_wire s' 7 = [8, 9] \<and> out_stream 0 s' = [8, 9, 1, 8, 9]"
  using send_pending_duplicates [of "ex_server (ex_conn (Some [1]) NoAction :: unit conn) ()" 0
      "ex_conn (Some [1]) NoAction" "[1]" "ex_kernel (Inl 2) []" "[8, 9]"]
  by simp

text \<open>
  \<^verbatim>\<open>Send\<close> on a socket whose buffer is full crashes: the failed write returns the count -1, with which the
  data is sliced.
\<close>

lemma send_eagain_panics:
  assumes "s_heap s cid = Some c" and "k_write K (s_clock s) (c_fd c) data = Inr EAGAIN"
  shows "conn_Send K cid data s = None"
  using assms by (simp add: conn_Send_def sys_write_def slice_from_def slice_range_def Let_def)

lemma send_eagain_panics_witness:
  "conn_Send (ex_kernel (Inr EAGAIN) []) 0 [8, 9] (ex_server (ex_conn None NoAction :: unit conn) ()) = None"
  by (rule send_eagain_panics [where c = "ex_conn None NoAction"]) simp_all



end
