(* ===== verification/Loop_Accept.thy ===== *)
theory Loop_Accept
  imports Loop_Output
begin

text \<open>
  How \<^verbatim>\<open>loopAccept\<close> and \<^verbatim>\<open>outConnect\<close> of \<^verbatim>\<open>evio_unix.go\<close> spread connections over the loops: the round robin
  takes turns, the least-connections rule keeps the counts within one of each other. Outgoing
  connections are not counted when they open but are when they close. A connection object that
  outlives its connection sends to whatever has its descriptor now.
\<close>

subsection \<open>Counts\<close>

abbreviation (input) lcount :: "nat \<Rightarrow> ('u, 'x) server \<Rightarrow> int" where
  "lcount j s \<equiv> sint (l_count (s_loops s ! j))"

lemma go_rem_nonneg: "0 \<le> a \<Longrightarrow> go_rem a b = a mod b"
  by (simp add: go_rem_def)

lemma accept_balance_robin:
  assumes "1 < length (s_loops s)" and "s_balance s = RoundRobin" and "0 \<le> sint (s_accepted s)"
  shows "accept_balance i s =
    (if sint (s_accepted s) mod int (length (s_loops s)) = int (l_idx (s_loops s ! i))
     then (True, s\<lparr>s_accepted := s_accepted s + 1\<rparr>) else (False, s))"
  using assms by (simp add: accept_balance_def go_rem_nonneg)

lemma accept_balance_least:
  assumes "1 < length (s_loops s)" and "s_balance s = LeastConnections"
    and "\<And>j. j < length (s_loops s) \<Longrightarrow> l_idx (s_loops s ! j) = j" and "i < length (s_loops s)"
  shows "accept_balance i s = (\<forall>j < length (s_loops s). lcount i s \<le> lcount j s, s)"
proof -
  have "(\<exists>lp\<in>set (s_loops s). l_idx lp \<noteq> l_idx (s_loops s ! i) \<and> sint (l_count lp) < lcount i s) \<longleftrightarrow>
      (\<exists>j < length (s_loops s). lcount j s < lcount i s)"
  proof
    assume "\<exists>lp\<in>set (s_loops s). l_idx lp \<noteq> l_idx (s_loops s ! i) \<and> sint (l_count lp) < lcount i s"
    then show "\<exists>j < length (s_loops s). lcount j s < lcount i s" by (auto simp: in_set_conv_nth)
  next
    assume "\<exists>j < length (s_loops s). lcount j s < lcount i s"
    then obtain j where j: "j < length (s_loops s)" "lcount j s < lcount i s" by blast
    then have "j \<noteq> i" by auto
    with j assms(3) [OF j(1)] assms(3) [OF assms(4)]
    show "\<exists>lp\<in>set (s_loops s). l_idx lp \<noteq> l_idx (s_loops s ! i) \<and> sint (l_count lp) < lcount i s"
      by (intro bexI [of _ "s_loops s ! j"]) simp_all
  qed
  then show ?thesis
    using assms(1,2) by (auto simp: accept_balance_def Let_def list_ex_iff not_less)
qed

lemma accept_loop_first:
  assumes "find (\<lambda>ln. ln_fd ln = fd) lns = Some ln"
  shows "\<exists>k'. accept_loop K Ev i fd k lns s = accept_loop K Ev i fd k' [ln] s"
  using assms
proof (induction lns arbitrary: k)
  case (Cons l lns)
  show ?case
  proof (cases "ln_fd l = fd")
    case True
    with Cons.prems have "l = ln" by simp
    with True show ?thesis by (intro exI [of _ k]) simp
  next
    case False
    with Cons.prems Cons.IH [of "Suc k"] show ?thesis by simp
  qed
qed simp

lemma accept_loop_one:
  assumes "ln_fd ln = fd" and "ln_kind ln \<noteq> UDPConn" and "accept_balance i s = (True, s1)"
    and "k_accept K (s_clock s1) fd = Inl (nfd, sa)" and "k_nonblock K (Suc (s_clock s1)) nfd = None"
  shows "\<exists>s'. accept_loop K Ev i fd k [ln] s = Some (None, s') \<and> s_heap s' = (s_heap s1)(s_next s1 \<mapsto>
      new_conn\<lparr>c_fd := nfd, c_sa := Some sa, c_lnidx := int k, c_loop := Some i\<rparr>) \<and>
    s_wire s' = (s_wire s1)(nfd := []) \<and> s_clock s' = Suc (Suc (s_clock s1)) \<and>
    s_loops s' = (s_loops s1)[i := (s_loops s1 ! i)\<lparr>l_fdconns := (l_fdconns (s_loops s1 ! i))(nfd \<mapsto> s_next s1),
      l_poll := AddReadWrite nfd (l_poll (s_loops s1 ! i)), l_count := l_count (s_loops s1 ! i) + 1\<rparr>]"
  using assms
  by (cases "i < length (s_loops s1)") (simp_all add: alloc_conn_def upd_loop_def upd_poll_def tick_def list_update_beyond)

lemma accept_conn:
  assumes "find (\<lambda>ln. ln_fd ln = fd) (s_lns s) = Some ln" and "ln_kind ln \<noteq> UDPConn"
    and "accept_balance i s = (True, s1)" and "k_accept K (s_clock s1) fd = Inl (nfd, sa)"
    and "k_nonblock K (Suc (s_clock s1)) nfd = None"
  shows "\<exists>s' k. loopAccept K Ev i fd s = Some (None, s') \<and> s_heap s' = (s_heap s1)(s_next s1 \<mapsto>
      new_conn\<lparr>c_fd := nfd, c_sa := Some sa, c_lnidx := k, c_loop := Some i\<rparr>) \<and>
    s_wire s' = (s_wire s1)(nfd := []) \<and> s_clock s' = Suc (Suc (s_clock s1)) \<and>
    s_loops s' = (s_loops s1)[i := (s_loops s1 ! i)\<lparr>l_fdconns := (l_fdconns (s_loops s1 ! i))(nfd \<mapsto> s_next s1),
      l_poll := AddReadWrite nfd (l_poll (s_loops s1 ! i)), l_count := l_count (s_loops s1 ! i) + 1\<rparr>]"
proof -
  from assms(1) have fd: "ln_fd ln = fd" by (auto simp: find_Some_iff)
  from accept_loop_first [OF assms(1), of K Ev i 0 s] obtain k where
    "accept_loop K Ev i fd 0 (s_lns s) s = accept_loop K Ev i fd k [ln] s" by blast
  with accept_loop_one [OF fd assms(2-5), of Ev k] show ?thesis
    unfolding loopAccept_def by metis
qed

text \<open>Two loops and a listener on descriptor 5.\<close>

definition ex_two :: "LoadBalance \<Rightarrow> (unit, unit) server" where
  "ex_two b = (ex_server (ex_conn None NoAction) ())\<lparr>s_loops := [ex_loop, ex_loop\<lparr>l_idx := 1, l_fdconns := Map.empty\<rparr>],
     s_balance := b, s_accepted := 0, s_lns := [\<lparr>ln_kind = TCPListener, ln_lnaddr = TCPAddr [] 0 [], ln_fd = 5\<rparr>]\<rparr>"

subsection \<open>Outgoing connections\<close>

lemma choose_loop_loops: "choose_loop K s = (idx, s') \<Longrightarrow> s_loops s' = s_loops s"
  by (auto simp: choose_loop_def Let_def split: if_splits LoadBalance.splits)

lemma map_count_upd_poll: "map l_count (s_loops (upd_poll i g s)) = map l_count (s_loops s)"
  by (cases "i < length (s_loops s)") (simp_all add: map_update list_update_same_conv list_update_beyond)

lemma outConnect_conn:
  assumes "outConnect K addr port ctx s = Some (Some cid, err, s')"
  shows "map l_count (s_loops s') = map l_count (s_loops s)"
  using assms
  by (auto simp: outConnect_def Let_def conn_SetContext_def map_count_upd_poll choose_loop_loops
      dest!: alloc_conn_simps choose_loop_loops split: if_splits bind_splits prod.splits
      simp del: upd_poll_simps(1))

lemma outConnect_ok:
  assumes "s_loops s = [l]" and "\<And>t fd sa. k_connect K t fd sa = None"
  shows "\<exists>cid err s' c. outConnect K addr port ctx s = Some (Some cid, err, s') \<and> s_heap s' cid = Some c \<and>
    err = k_nonblock K (s_clock s + 2) (k_socket K (s_clock s))"
  using assms
  by (simp add: outConnect_def choose_loop_def index_def alloc_conn_def conn_SetContext_def Let_def)

subsection \<open>Properties\<close>

text \<open>
  With round robin the loops take turns. Exactly one loop is to accept, the one whose index is the
  accept counter modulo the number of loops; it accepts, and then it is the next loop's turn.
\<close>

lemma accept_round_robin:
  assumes "1 < length (s_loops s)" and "s_balance s = RoundRobin"
    and "\<And>j. j < length (s_loops s) \<Longrightarrow> l_idx (s_loops s ! j) = j"
    and "0 \<le> sint (s_accepted s)" and "sint (s_accepted s) < 2 ^ 63 - 1"
    and "i = nat (sint (s_accepted s) mod int (length (s_loops s)))"
  shows "i < length (s_loops s) \<and> (\<forall>j < length (s_loops s). fst (accept_balance j s) \<longleftrightarrow> j = i) \<and>
    (let s' = snd (accept_balance i s) in
      \<forall>j < length (s_loops s'). fst (accept_balance j s') \<longleftrightarrow> j = Suc i mod length (s_loops s'))"
proof -
  let ?n = "length (s_loops s)" and ?a = "sint (s_accepted s)"
  have n: "0 < int ?n" using assms(1) by linarith
  have i: "int i = ?a mod int ?n" using assms(6) n by simp
  have robin: "accept_balance j s = (if j = i then (True, s\<lparr>s_accepted := s_accepted s + 1\<rparr>) else (False, s))"
    if "j < ?n" for j
    using that assms(3) [OF that] i accept_balance_robin [OF assms(1,2,4), of j] by auto
  have lt: "i < ?n" using i n by (metis of_nat_less_iff pos_mod_bound)
  let ?s = "s\<lparr>s_accepted := s_accepted s + 1\<rparr>"
  have a': "sint (s_accepted ?s) = ?a + 1"
    using assms(4,5) by (simp add: sint_word_ariths signed_take_bit_int_eq_self)
  have "int (Suc i mod ?n) = (1 + ?a mod int ?n) mod int ?n" using i by (simp add: zmod_int)
  then have "int (Suc i mod ?n) = (?a + 1) mod int ?n" by (simp add: mod_add_right_eq add.commute)
  then have "fst (accept_balance j ?s) \<longleftrightarrow> j = Suc i mod ?n" if "j < ?n" for j
    using accept_balance_robin [of ?s j] a' assms(1-4) that by auto
  with robin lt show ?thesis by (auto simp: Let_def)
qed

lemma accept_round_robin_witness:
  "fst (accept_balance 0 (ex_two RoundRobin)) \<and> \<not> fst (accept_balance 1 (ex_two RoundRobin)) \<and>
   fst (accept_balance 1 (snd (accept_balance 0 (ex_two RoundRobin)))) \<and>
   \<not> fst (accept_balance 0 (snd (accept_balance 0 (ex_two RoundRobin))))"
proof -
  let ?s = "ex_two RoundRobin"
  have two: "length (s_loops ?s) = 2" "length (s_loops (snd (accept_balance 0 ?s))) = 2"
    by (simp_all add: ex_two_def accept_balance_def)
  have "0 < length (s_loops ?s) \<and> (\<forall>j < length (s_loops ?s). fst (accept_balance j ?s) \<longleftrightarrow> j = 0) \<and>
    (let s' = snd (accept_balance 0 ?s) in
      \<forall>j < length (s_loops s'). fst (accept_balance j s') \<longleftrightarrow> j = Suc 0 mod length (s_loops s'))"
    by (rule accept_round_robin) (auto simp: ex_two_def less_Suc_eq)
  then show ?thesis unfolding Let_def two by auto
qed



text \<open>
  An outgoing connection is not counted when it is opened but is when it is closed: after \<^verbatim>\<open>outConnect\<close>,
  the note that adds the connection to its loop, and the close, the connection count of the loop is one less
  than before.
\<close>

lemma out_conn_count_drifts:
  assumes "outConnect K addr port ctx s = Some (Some cid, err, s1)"
    and "s_heap s1 cid = Some c" and "i < length (s_loops s)"
    and "loop_event K Ev i 0 (Some (NoteConn cid)) 0 s1 = Some (None, s2)"
    and "ev_Closed Ev = None" and "loopCloseConn Ev i cid e s2 = Some (None, s3)"
  shows "l_count (s_loops s3 ! i) = l_count (s_loops s ! i) - 1"
proof -
  from outConnect_conn [OF assms(1)] have m: "map l_count (s_loops s1) = map l_count (s_loops s)" .
  then have len: "length (s_loops s1) = length (s_loops s)" by (metis length_map)
  have "map l_count (s_loops s1) ! i = map l_count (s_loops s) ! i" using m by simp
  with len assms(3) have 1: "l_count (s_loops s1 ! i) = l_count (s_loops s ! i)" by simp
  have 2: "l_count (s_loops s2 ! i) = l_count (s_loops s1 ! i)" "length (s_loops s2) = length (s_loops s1)"
    using assms(2,3,4) len by (auto simp: loop_event_def)
  have "l_count (s_loops s3 ! i) = l_count (s_loops s2 ! i) - 1"
    using assms(3,5,6) len 2(2) by (auto simp: loopCloseConn_def sys_close_def split: bind_splits)
  with 1 2 show ?thesis by simp
qed

lemma out_conn_count_drifts_witness:
  "\<exists>cid s1 s2 s3. outConnect (ex_kernel (Inl 0) []) [] 80 None (ex_server (ex_conn None NoAction :: unit conn) ()) =
       Some (Some cid, None, s1) \<and>
     loop_event (ex_kernel (Inl 0) []) ex_events 0 0 (Some (NoteConn cid)) 0 s1 = Some (None, s2) \<and>
     loopCloseConn ex_events 0 cid None s2 = Some (None, s3) \<and> l_count (s_loops s3 ! 0) = 1 - 1"
proof -
  let ?K = "ex_kernel (Inl 0) []" and ?s = "ex_server (ex_conn None NoAction :: unit conn) ()"
  obtain cid s1 c where o: "outConnect ?K [] 80 None ?s = Some (Some cid, None, s1)" and c: "s_heap s1 cid = Some c"
    using outConnect_ok [of ?s ex_loop ?K "[]" 80 None] by (auto simp: ex_kernel_def)
  from c obtain s2 where n: "loop_event ?K ex_events 0 0 (Some (NoteConn cid)) 0 s1 = Some (None, s2)"
    and c2: "s_heap s2 cid = Some c"
    by (simp add: loop_event_def)
  then obtain s3 where cl: "loopCloseConn ex_events 0 cid None s2 = Some (None, s3)"
    by (simp add: loopCloseConn_def ex_events_def)
  have "l_count (s_loops s3 ! 0) = l_count (s_loops ?s ! 0) - 1"
    using o c _ n _ cl by (rule out_conn_count_drifts) (simp_all add: ex_events_def)
  then have "l_count (s_loops s3 ! 0) = 1 - 1" by simp
  with o n cl show ?thesis by blast
qed

text \<open>
  C37: a connection object that outlives its connection sends to a stranger. When a connection was closed
  and the next connection that its loop accepts gets the same descriptor, a \<^verbatim>\<open>Send\<close> on the old object puts
  its data on the wire of the new connection.
\<close>

theorem send_after_close_misdirected:
  assumes "s_heap s cid = Some c" and "cid < s_next s" and "i < length (s_loops s)" and "c_out c = None"
    and "ev_Closed Ev = None" and "loopCloseConn Ev i cid e s = Some (None, s1)"
    and "find (\<lambda>ln. ln_fd ln = fd) (s_lns s1) = Some ln" and "ln_kind ln \<noteq> UDPConn"
    and "accept_balance i s1 = (True, s1)" and "k_accept K (s_clock s1) fd = Inl (c_fd c, sa)"
    and "k_nonblock K (Suc (s_clock s1)) (c_fd c) = None"
    and "k_write K (Suc (Suc (s_clock s1))) (c_fd c) data = Inl (length data)"
  shows "\<exists>s2 s3 cid' c'. loopAccept K Ev i fd s1 = Some (None, s2) \<and>
    l_fdconns (s_loops s2 ! i) (c_fd c) = Some cid' \<and> cid' \<noteq> cid \<and> s_heap s2 cid' = Some c' \<and>
    conn_Send K cid data s2 = Some s3 \<and> s_heap s3 cid' = Some c' \<and> out_stream cid' s3 = data"
proof -
  from assms(1,5,6) have heap: "s_heap s1 cid = Some c" "s_next s1 = s_next s" "length (s_loops s1) = length (s_loops s)"
    by (auto simp: loopCloseConn_def sys_close_def)
  from accept_conn [OF assms(7-11), of Ev] obtain s2 k where acc: "loopAccept K Ev i fd s1 = Some (None, s2)"
    and s2: "s_heap s2 = (s_heap s1)(s_next s1 \<mapsto>
      new_conn\<lparr>c_fd := c_fd c, c_sa := Some sa, c_lnidx := k, c_loop := Some i\<rparr>)"
      "s_wire s2 = (s_wire s1)(c_fd c := [])" "s_clock s2 = Suc (Suc (s_clock s1))"
      "s_loops s2 = (s_loops s1)[i := (s_loops s1 ! i)\<lparr>l_fdconns := (l_fdconns (s_loops s1 ! i))(c_fd c \<mapsto> s_next s1),
        l_poll := AddReadWrite (c_fd c) (l_poll (s_loops s1 ! i)), l_count := l_count (s_loops s1 ! i) + 1\<rparr>]"
    by blast
  let ?s3 = "tick (s2\<lparr>s_wire := (s_wire s2)(c_fd c := data)\<rparr>)"
  have "conn_Send K cid data s2 = Some ?s3"
    using s2 heap assms(2,4,12) by (simp add: conn_Send_def sys_write_wire)
  with acc s2 heap assms(2,3) show ?thesis
    by (intro exI [of _ s2] exI [of _ ?s3] exI [of _ "s_next s1"]) (simp add: out_stream_def new_conn_def)
qed

theorem send_after_close_misdirected_witness:
  "\<exists>s1 s2 s3 cid' c'.
    loopCloseConn ex_events 0 0 None ((ex_two Random)\<lparr>s_loops := [ex_loop]\<rparr>) = Some (None, s1) \<and>
    loopAccept (ex_kernel (Inl 2) []) ex_events 0 5 s1 = Some (None, s2) \<and>
    l_fdconns (s_loops s2 ! 0) 7 = Some cid' \<and> cid' \<noteq> 0 \<and> s_heap s2 cid' = Some c' \<and>
    conn_Send (ex_kernel (Inl 2) []) 0 [8, 9] s2 = Some s3 \<and> s_heap s3 cid' = Some c' \<and> out_stream cid' s3 = [8, 9]"
proof -
  let ?s = "(ex_two Random)\<lparr>s_loops := [ex_loop]\<rparr>"
  obtain s1 where s1: "loopCloseConn ex_events 0 0 None ?s = Some (None, s1)"
    and f: "s_lns s1 = s_lns ?s" "length (s_loops s1) = 1"
    by (simp add: loopCloseConn_def ex_events_def ex_two_def sys_close_def)
  have "\<exists>s2 s3 cid' c'. loopAccept (ex_kernel (Inl 2) []) ex_events 0 5 s1 = Some (None, s2) \<and>
      l_fdconns (s_loops s2 ! 0) (c_fd (ex_conn None NoAction :: unit conn)) = Some cid' \<and> cid' \<noteq> 0 \<and> s_heap s2 cid' = Some c' \<and>
      conn_Send (ex_kernel (Inl 2) []) 0 [8, 9] s2 = Some s3 \<and> s_heap s3 cid' = Some c' \<and> out_stream cid' s3 = [8, 9]"
    by (rule send_after_close_misdirected [OF _ _ _ _ _ s1,
          where ln = "\<lparr>ln_kind = TCPListener, ln_lnaddr = TCPAddr [] 0 [], ln_fd = 5\<rparr>"])
      (simp_all add: f ex_two_def ex_events_def accept_balance_def ex_kernel_def)
  then show ?thesis using s1 unfolding ex_simps(11) by blast
qed

end
