(* ===== verification/Server_Events.thy ===== *)
theory Server_Events
  imports Http_Server Agent_Server Loop_Accept
begin

text \<open>
  The event handlers of \<^verbatim>\<open>http_server.go\<close> and \<^verbatim>\<open>agent_server.go\<close> installed in the event loop: the
  handlers of \<open>Http_Server\<close> and \<open>Agent_Server\<close> work on a context and return what they queue; here they
  read the context from the connection, store it back and append to the worker queue, which is the
  user state of the server. The worker queue is a Go channel; here it is unbounded.

  The locale \<open>stream_events\<close> is what the event loop needs of such a handler to deliver: its lemma
  follows the packets of one \<^verbatim>\<open>loopRead\<close> through the handler and states the final state exactly.
\<close>

subsection \<open>The handlers\<close>

definition http_data_event ::
  "(nat \<Rightarrow> bytes) \<Rightarrow> cid \<Rightarrow> bytes \<Rightarrow> (cid HttpRequest list, cid HttpContext) server \<Rightarrow>
   (bytes \<times> Action \<times> (cid HttpRequest list, cid HttpContext) server) go" where
  "http_data_event date cid packet s = do {
     lastCtx \<leftarrow> conn_Context cid s;
     ctx \<leftarrow> lastCtx;
     (ctx, q, out, action) \<leftarrow> http_Data (date (s_clock s)) cid ctx (Some packet);
     Some (out, action, (conn_SetContext (Some ctx) cid s)\<lparr>s_user := s_user s @ q\<rparr>)
   }"

definition http_events ::
  "int \<Rightarrow> (nat \<Rightarrow> bytes) \<Rightarrow> (cid HttpRequest list, cid HttpContext) Events" where
  "http_events loops date =
     \<lparr>ev_NumLoops = loops, ev_LoadBalance = Random,
      ev_Serving = Some (\<lambda>addrs n s. Some (NoAction, s)),
      ev_Opened = Some (\<lambda>cid s.
        let (ctx, out, opts, action) = http_Opened in Some (out, opts, action, conn_SetContext ctx cid s)),
      ev_Closed = Some (\<lambda>cid err s. Some (NoAction, s)),
      ev_Detached = None,
      ev_Data = Some (http_data_event date),
      ev_Tick = None\<rparr>"

text \<open>The agent events serve both sides: \<open>enqueue\<close> puts requests on the worker queue in the user state.\<close>

definition agent_opened_event ::
  "cid \<Rightarrow> ('u, (cid, 'ra) AgentContext) server \<Rightarrow>
   (bytes \<times> Options \<times> Action \<times> ('u, (cid, 'ra) AgentContext) server) go" where
  "agent_opened_event cid s = do {
     lastCtx \<leftarrow> conn_Context cid s;
     let (ctx, out, opts, action) = agent_Opened lastCtx;
     Some (out, opts, action, conn_SetContext ctx cid s)
   }"

definition agent_data_event ::
  "(cid AgentRequest list \<Rightarrow> 'u \<Rightarrow> 'u) \<Rightarrow> cid \<Rightarrow> bytes \<Rightarrow> ('u, (cid, 'ra) AgentContext) server \<Rightarrow>
   (bytes \<times> Action \<times> ('u, (cid, 'ra) AgentContext) server) go" where
  "agent_data_event enqueue cid packet s = do {
     lastCtx \<leftarrow> conn_Context cid s;
     ctx \<leftarrow> lastCtx;
     (ctx, q, out, action) \<leftarrow> agent_Data cid ctx (Some packet);
     Some (out, action, (conn_SetContext (Some ctx) cid s)\<lparr>s_user := enqueue q (s_user s)\<rparr>)
   }"

definition agent_events ::
  "int \<Rightarrow> (cid AgentRequest list \<Rightarrow> 'u \<Rightarrow> 'u) \<Rightarrow> ('u, (cid, 'ra) AgentContext) Events" where
  "agent_events loops enqueue =
     \<lparr>ev_NumLoops = loops, ev_LoadBalance = Random,
      ev_Serving = Some (\<lambda>addrs n s. Some (NoAction, s)),
      ev_Opened = Some agent_opened_event,
      ev_Closed = Some (\<lambda>cid err s. Some (NoAction, s)),
      ev_Detached = None,
      ev_Data = Some (agent_data_event enqueue),
      ev_Tick = None\<rparr>"

subsection \<open>They keep the invariant\<close>

lemma SetContext_keeps: "ev_inv s \<Longrightarrow> keeps s (conn_SetContext ctx cid s)"
  unfolding conn_SetContext_def by (rule keeps_upd_fields) simp_all

lemma SetContext_user_keeps: "ev_inv s \<Longrightarrow> keeps s ((conn_SetContext ctx cid s)\<lparr>s_user := u\<rparr>)"
  by (rule keeps_trans [OF SetContext_keeps]) (auto intro!: keeps_other keeps_inv [OF SetContext_keeps])

interpretation http_loop: callbacks "http_events loops date" for loops date
  by unfold_locales
    (auto simp: http_events_def http_Opened_def http_data_event_def keeps_refl SetContext_keeps SetContext_user_keeps
      split: bind_splits)

interpretation agent_loop: callbacks "agent_events loops enqueue" for loops enqueue
  by unfold_locales
    (auto simp: agent_events_def agent_opened_event_def agent_Opened_def agent_data_event_def keeps_refl
      SetContext_keeps SetContext_user_keeps split: bind_splits)

lemma new_server_inv: "ev_inv (new_server u)"
  by (simp add: ev_inv_def heap_ok_def new_server_def)

subsection \<open>Delivery through the event loop\<close>

locale stream_events =
  fixes Ev :: "('u, 'x) Events"
    and feed :: "nat \<Rightarrow> cid \<Rightarrow> 'x \<Rightarrow> bytes \<Rightarrow> ('x \<times> 'r list) go"
    and enqueue :: "'r list \<Rightarrow> 'u \<Rightarrow> 'u"
  assumes data_event: "s_heap s cid = Some c \<Longrightarrow> c_ctx c = Some x \<Longrightarrow>
      feed (s_clock s) cid x packet = Some (x', rs) \<Longrightarrow>
      \<exists>f. ev_Data Ev = Some f \<and>
        f cid packet s = Some ([], NoAction, (conn_SetContext (Some x') cid s)\<lparr>s_user := enqueue rs (s_user s)\<rparr>)"
    and enqueue_nil: "enqueue [] u = u"
    and enqueue_append: "enqueue rs' (enqueue rs u) = enqueue (rs @ rs') u"
begin

lemma read_packet:
  assumes "s_heap s cid = Some c" and "c_ctx c = Some x" and "feed (s_clock s) cid x packet = Some (x', rs)"
  shows "loopRead_packet Ev i cid packet s =
    Some (s\<lparr>s_heap := (s_heap s)(cid \<mapsto> c\<lparr>c_ctx := Some x', c_action := NoAction\<rparr>), s_user := enqueue rs (s_user s)\<rparr>)"
proof -
  from data_event [OF assms] obtain f where "ev_Data Ev = Some f"
    "f cid packet s = Some ([], NoAction, (conn_SetContext (Some x') cid s)\<lparr>s_user := enqueue rs (s_user s)\<rparr>)"
    by blast
  with assms(1) show ?thesis
    by (simp add: loopRead_packet_def read_event_def conn_SetContext_def upd_conn_def)
qed

lemma read_loop:
  assumes "s_heap s cid = Some c" and "c_ctx c = Some x" and "c_action c = NoAction"
    and "feed_all (feed (s_clock s) cid) x packets = Some (x', rs)"
  shows "loopRead_loop Ev i cid packets (ReadErr EAGAIN) s =
    Some (None, s\<lparr>s_heap := (s_heap s)(cid \<mapsto> c\<lparr>c_ctx := Some x'\<rparr>), s_user := enqueue rs (s_user s)\<rparr>)"
  using assms
proof (induction packets arbitrary: s c x rs)
  case Nil
  then have "(s_heap s)(cid \<mapsto> c\<lparr>c_ctx := Some x'\<rparr>) = s_heap s" by (auto simp: fun_eq_iff)
  with Nil show ?case by (simp add: enqueue_nil)
next
  case (Cons packet packets)
  from Cons.prems(4) obtain x1 rs1 rs2 where f: "feed (s_clock s) cid x packet = Some (x1, rs1)"
    and rest: "feed_all (feed (s_clock s) cid) x1 packets = Some (x', rs2)" and rs: "rs = rs1 @ rs2"
    by (auto split: bind_splits)
  let ?s = "s\<lparr>s_heap := (s_heap s)(cid \<mapsto> c\<lparr>c_ctx := Some x1, c_action := NoAction\<rparr>), s_user := enqueue rs1 (s_user s)\<rparr>"
  have c: "c\<lparr>c_ctx := Some x1, c_action := NoAction\<rparr>\<lparr>c_ctx := Some x'\<rparr> = c\<lparr>c_ctx := Some x'\<rparr>"
    using Cons.prems(3) by (cases c) simp
  have "loopRead_loop Ev i cid (packet # packets) (ReadErr EAGAIN) s =
      loopRead_loop Ev i cid packets (ReadErr EAGAIN) ?s"
    by (simp add: read_packet [OF Cons.prems(1,2) f])
  also have "\<dots> = Some (None, ?s\<lparr>s_heap := (s_heap ?s)(cid \<mapsto> c\<lparr>c_ctx := Some x1, c_action := NoAction\<rparr>\<lparr>c_ctx := Some x'\<rparr>),
      s_user := enqueue rs2 (s_user ?s)\<rparr>)"
    using rest by (intro Cons.IH) simp_all
  also have "\<dots> = Some (None, s\<lparr>s_heap := (s_heap s)(cid \<mapsto> c\<lparr>c_ctx := Some x'\<rparr>), s_user := enqueue rs (s_user s)\<rparr>)"
    unfolding c by (simp add: rs enqueue_append)
  finally show ?case .
qed

text \<open>A read event on an open connection hands all that has arrived to the handler.\<close>

lemma event_delivers:
  assumes "fd \<noteq> 0" and "l_fdconns (s_loops s ! i) fd = Some cid" and "s_heap s cid = Some c"
    and "c_fd c = fd" and "c_opened c" and "c_action c = NoAction" and "c_ctx c = Some x"
    and "k_reads K (s_clock s) fd = (packets, ReadErr EAGAIN)"
    and "feed_all (feed (Suc (s_clock s)) cid) x packets = Some (x', rs)"
  shows "loop_event K Ev i fd None PollEvent_Read s =
    Some (None, (tick s)\<lparr>s_heap := (s_heap s)(cid \<mapsto> c\<lparr>c_ctx := Some x'\<rparr>), s_user := enqueue rs (s_user s)\<rparr>)"
proof -
  have "PollEvent_Read AND PollEvent_Write = 0" by (simp add: PollEvent_Read_def PollEvent_Write_def)
  with assms read_loop [of "tick s" cid c x packets x' rs i] show ?thesis
    by (simp add: loop_event_def loopRead_def)
qed

end

lemma http_Data_loop_out:
  "http_Data_loop date c ctx data out q = Some (ctx', d, q', out', NoAction) \<Longrightarrow> out' = out"
proof (induction date c ctx data out q rule: http_Data_loop.induct)
  case (1 date c ctx data out q)
  then show ?case
    by (subst (asm) (2) http_Data_loop.simps)
      (auto simp: Let_def split: if_splits option.splits)
qed

interpretation http_deliver: stream_events "http_events loops date" "\<lambda>t cid. http_feed (date t) cid" "\<lambda>rs u. u @ rs"
  for loops date
proof
  fix s :: "(cid HttpRequest list, cid HttpContext) server" and cid c x packet x' rs
  assume h: "s_heap s cid = Some c" "c_ctx c = Some x" and f: "http_feed (date (s_clock s)) cid x packet = Some (x', rs)"
  from f obtain out where d: "http_Data (date (s_clock s)) cid x (Some packet) = Some (x', rs, out, NoAction)"
    by (auto simp: http_feed_def split: option.splits if_splits)
  then have "out = []" by (auto simp: http_Data_def split: bind_splits prod.splits dest: http_Data_loop_out)
  with h d show "\<exists>f. ev_Data (http_events loops date) = Some f \<and>
      f cid packet s = Some ([], NoAction, (conn_SetContext (Some x') cid s)\<lparr>s_user := s_user s @ rs\<rparr>)"
    by (simp add: http_events_def http_data_event_def conn_Context_def)
qed simp_all

interpretation agent_deliver: stream_events "agent_events loops (\<lambda>rs u. u @ rs)" "\<lambda>t cid. agent_feed cid" "\<lambda>rs u. u @ rs"
  for loops
proof
  fix s :: "(cid AgentRequest list, (cid, 'ra) AgentContext) server" and cid c x packet x' rs
  assume h: "s_heap s cid = Some c" "c_ctx c = Some x" and f: "agent_feed cid x packet = Some (x', rs)"
  from f obtain out where d: "agent_Data cid x (Some packet) = Some (x', rs, out, NoAction)"
    by (auto simp: agent_feed_def split: option.splits if_splits)
  then have "out = []" by (auto simp: agent_Data_def split: bind_splits prod.splits)
  with h d show "\<exists>f. ev_Data (agent_events loops (\<lambda>rs u. u @ rs)) = Some f \<and>
      f cid packet s = Some ([], NoAction, (conn_SetContext (Some x') cid s)\<lparr>s_user := s_user s @ rs\<rparr>)"
    by (simp add: agent_events_def agent_data_event_def conn_Context_def)
qed simp_all

subsection \<open>Properties\<close>





end
