(* ===== verification/Serve_Listeners.thy ===== *)
theory Serve_Listeners
  imports Server_Events
begin

text \<open>
  \<^verbatim>\<open>Serve\<close> of \<^verbatim>\<open>evio.go\<close> with \<^verbatim>\<open>listener.system\<close> and \<^verbatim>\<open>listener.close\<close> of \<^verbatim>\<open>evio_unix.go\<close>: the listeners are opened
  in the order of the addresses, the event loop serves them, and on every return the deferred function closes
  them. The state is what the operating system holds for the process: open sockets, open descriptors, the
  descriptors that were closed so far, and the socket files that were removed. The results of \<^verbatim>\<open>net.Listen\<close>,
  of the reuseport package and of the system calls are parameters; \<open>run\<close> is the event loop on the listeners.
\<close>

record net_os =
  os_listen :: "nat \<Rightarrow> bool \<Rightarrow> gostring \<Rightarrow> gostring \<Rightarrow> (listener_kind \<times> netaddr) + errno"
  os_listenPacket :: "nat \<Rightarrow> bool \<Rightarrow> gostring \<Rightarrow> gostring \<Rightarrow> netaddr + errno"
  os_file :: "nat \<Rightarrow> nat \<Rightarrow> int + errno"
  os_setNonblock :: "nat \<Rightarrow> int \<Rightarrow> errno option"

record net_state =
  ns_clock :: nat
  ns_sockets :: "nat set"
  ns_files :: "int set"
  ns_closes :: "int list"
  ns_removed :: "gostring list"

definition new_net_state :: net_state where
  "new_net_state = \<lparr>ns_clock = 0, ns_sockets = {}, ns_files = {}, ns_closes = [], ns_removed = []\<rparr>"

text \<open>
  The listener while it is set up. A socket is named by the time at which it was opened; \<open>nl_f\<close> is the
  descriptor of the file that \<^verbatim>\<open>File\<close> returned.
\<close>

record net_listener =
  nl_ln :: "(nat \<times> listener_kind) option"
  nl_lnaddr :: "netaddr option"
  nl_pconn :: "nat option"
  nl_opts :: addrOpts
  nl_f :: "int option"
  nl_fd :: int
  nl_network :: gostring
  nl_addr :: gostring

definition new_net_listener :: net_listener where
  "new_net_listener = \<lparr>nl_ln = None, nl_lnaddr = None, nl_pconn = None, nl_opts = new_addrOpts, nl_f = None, nl_fd = 0,
     nl_network = [], nl_addr = []\<rparr>"

definition close_fd :: "int \<Rightarrow> net_state \<Rightarrow> net_state" where
  "close_fd fd st = st\<lparr>ns_files := ns_files st - {fd}, ns_closes := ns_closes st @ [fd]\<rparr>"

definition close_socket :: "nat \<Rightarrow> net_state \<Rightarrow> net_state" where
  "close_socket h st = st\<lparr>ns_sockets := ns_sockets st - {h}\<rparr>"

definition remove_all :: "gostring \<Rightarrow> net_state \<Rightarrow> net_state" where
  "remove_all path st = st\<lparr>ns_removed := ns_removed st @ [path]\<rparr>"

definition listener_close :: "net_listener \<Rightarrow> net_state \<Rightarrow> net_state" where
  "listener_close ln st =
     (let st = (if nl_fd ln \<noteq> 0 then close_fd (nl_fd ln) st else st);
          st = (case nl_f ln of None \<Rightarrow> st | Some fd \<Rightarrow> close_fd fd st);
          st = (case nl_ln ln of None \<Rightarrow> st | Some (h, _) \<Rightarrow> close_socket h st);
          st = (case nl_pconn ln of None \<Rightarrow> st | Some h \<Rightarrow> close_socket h st)
      in if nl_network ln = str ''unix'' then remove_all (nl_addr ln) st else st)"

text \<open>Without a socket, the file stays nil and its descriptor is \<open>-1\<close>.\<close>

definition listener_system :: "net_os \<Rightarrow> net_listener \<Rightarrow> net_state \<Rightarrow> errno option \<times> net_listener \<times> net_state" where
  "listener_system os ln st =
     (let h = (case nl_ln ln of Some (h, _) \<Rightarrow> Some h | None \<Rightarrow> nl_pconn ln);
          t = ns_clock st;
          st = st\<lparr>ns_clock := Suc t\<rparr>;
          res = (case h of None \<Rightarrow> Inl None | Some h \<Rightarrow> map_sum Some id (os_file os t h))
      in case res of
           Inr err \<Rightarrow> (Some err, ln, listener_close ln st)
         | Inl f \<Rightarrow>
             (let fd = (case f of None \<Rightarrow> -1 | Some fd \<Rightarrow> fd);
                  st = st\<lparr>ns_files := ns_files st \<union> set_option f\<rparr>;
                  ln = ln\<lparr>nl_f := f, nl_fd := fd\<rparr>
              in (os_setNonblock os t fd, ln, st)))"

definition listen_one :: "net_os \<Rightarrow> net_listener \<Rightarrow> net_state \<Rightarrow> errno option \<times> net_listener \<times> net_state" where
  "listen_one os ln st =
     (let t = ns_clock st;
          st = st\<lparr>ns_clock := Suc t\<rparr>;
          reuse = ao_reusePort (nl_opts ln)
      in if nl_network ln = str ''udp'' then
           case os_listenPacket os t reuse (nl_network ln) (nl_addr ln) of
             Inr err \<Rightarrow> (Some err, ln, st)
           | Inl addr \<Rightarrow> (None, ln\<lparr>nl_pconn := Some t, nl_lnaddr := Some addr\<rparr>, st\<lparr>ns_sockets := insert t (ns_sockets st)\<rparr>)
         else
           case os_listen os t reuse (nl_network ln) (nl_addr ln) of
             Inr err \<Rightarrow> (Some err, ln, st)
           | Inl (kind, addr) \<Rightarrow>
               (None, ln\<lparr>nl_ln := Some (t, kind), nl_lnaddr := Some addr\<rparr>, st\<lparr>ns_sockets := insert t (ns_sockets st)\<rparr>))"

fun open_listeners ::
  "net_os \<Rightarrow> gostring list \<Rightarrow> bool \<Rightarrow> net_listener list \<Rightarrow> net_state \<Rightarrow> (errno option \<times> net_listener list \<times> net_state) go" where
  "open_listeners os [] stdlib lns st = Some (None, lns, st)"
| "open_listeners os (addr # addrs) stdlib lns st = do {
     (network, address, opts, stdlibt) \<leftarrow> parseAddr addr;
     let ln = new_net_listener\<lparr>nl_network := network, nl_addr := address, nl_opts := opts\<rparr>;
     let stdlib = (stdlib \<or> stdlibt);
     let st = (if network = str ''unix'' then remove_all address st else st);
     let (err, ln, st) = listen_one os ln st;
     if err \<noteq> None then Some (err, lns, st)
     else if \<not> stdlib then
       let (err, ln, st) = listener_system os ln st in
       if err \<noteq> None then Some (err, lns, st) else open_listeners os addrs stdlib (lns @ [ln]) st
     else open_listeners os addrs stdlib (lns @ [ln]) st
   }"

text \<open>What the event loop sees of a listener. Every listener that is served has an address.\<close>

definition loop_listener :: "net_listener \<Rightarrow> listener" where
  "loop_listener ln =
     \<lparr>ln_kind = (case nl_ln ln of Some (_, kind) \<Rightarrow> kind | None \<Rightarrow> UDPConn), 
      ln_lnaddr = (case nl_lnaddr ln of Some addr \<Rightarrow> addr | None \<Rightarrow> TCPAddr [] 0 []), ln_fd = nl_fd ln\<rparr>"

definition Serve :: "net_os \<Rightarrow> (listener list \<Rightarrow> errno option) \<Rightarrow> gostring list \<Rightarrow> net_state \<Rightarrow> (errno option \<times> net_state) go" where
  "Serve os run addr st = do {
     (err, lns, st) \<leftarrow> open_listeners os addr False [] st;
     let res = (if err \<noteq> None then err else run (map loop_listener lns));
     Some (res, fold listener_close lns st)
   }"

definition http_addrs :: "int \<Rightarrow> gostring list" where
  "http_addrs port = [str ''tcp://:'' @ Itoa port @ str ''?reuseport=true'']"

definition agent_addrs :: "int \<Rightarrow> gostring list" where
  "agent_addrs port = [str ''tcp://0.0.0.0:'' @ Itoa port @ str ''?reuseport=true'']"

subsection \<open>What the listeners hold\<close>

definition held_sockets :: "net_listener \<Rightarrow> nat set" where
  "held_sockets ln = set_option (map_option fst (nl_ln ln)) \<union> set_option (nl_pconn ln)"

definition held :: "net_listener list \<Rightarrow> net_state \<Rightarrow> bool" where
  "held lns st \<longleftrightarrow> ns_sockets st \<subseteq> (\<Union>ln \<in> set lns. held_sockets ln) \<and> ns_files st \<subseteq> (\<Union>ln \<in> set lns. set_option (nl_f ln))"

lemma close_simps [simp]:
  "ns_sockets (close_fd fd st) = ns_sockets st" "ns_files (close_fd fd st) = ns_files st - {fd}"
  "ns_sockets (close_socket h st) = ns_sockets st - {h}" "ns_files (close_socket h st) = ns_files st"
  "ns_sockets (remove_all p st) = ns_sockets st" "ns_files (remove_all p st) = ns_files st"
  "ns_clock (remove_all p st) = ns_clock st"
  by (simp_all add: close_fd_def close_socket_def remove_all_def)

lemma listener_close_releases:
  "ns_sockets (listener_close ln st) = ns_sockets st - held_sockets ln \<and> ns_files (listener_close ln st) \<subseteq> ns_files st - set_option (nl_f ln)"
  by (cases "nl_f ln"; cases "nl_ln ln"; cases "nl_pconn ln") (auto simp: listener_close_def held_sockets_def Let_def)

lemma release_all: "held lns st \<Longrightarrow> ns_sockets (fold listener_close lns st) = {} \<and> ns_files (fold listener_close lns st) = {}"
proof (induction lns arbitrary: st)
  case Nil
  then show ?case by (simp add: held_def)
next
  case (Cons ln lns)
  have "held lns (listener_close ln st)" using Cons.prems listener_close_releases [of ln st] by (auto simp: held_def)
  then show ?case using Cons.IH by simp
qed

text \<open>A listener that is set up is held once it is in the list; one that fails leaves nothing open.\<close>

lemma listen_one_held:
  assumes "listen_one os ln st = (err, ln', st')" and "held lns st"
  shows "if err \<noteq> None then held lns st' else held (lns @ [ln']) st'"
  using assms by (auto simp: listen_one_def Let_def held_def held_sockets_def split: if_splits sum.splits prod.splits)

lemma listener_system_held:
  assumes "listener_system os ln st = (err, ln', st')" and "held (lns @ [ln]) st" and "nl_f ln = None"
    and "\<And>t fd. os_setNonblock os t fd = None"
  shows "if err \<noteq> None then held lns st' else held (lns @ [ln']) st'"
proof (cases "case nl_ln ln of Some (h, _) \<Rightarrow> Some h | None \<Rightarrow> nl_pconn ln")
  case None
  with assms show ?thesis by (auto simp: listener_system_def Let_def held_def held_sockets_def)
next
  case (Some h)
  show ?thesis
  proof (cases "os_file os (ns_clock st) h")
    case (Inl fd)
    with Some assms show ?thesis by (auto simp: listener_system_def Let_def held_def held_sockets_def)
  next
    case (Inr e)
    with Some assms listener_close_releases [of ln "st\<lparr>ns_clock := Suc (ns_clock st)\<rparr>"] show ?thesis
      by (auto simp: listener_system_def Let_def held_def)
  qed
qed

lemma listen_one_file: "listen_one os ln st = (err, ln', st') \<Longrightarrow> nl_f ln' = nl_f ln"
  by (auto simp: listen_one_def Let_def split: if_splits sum.splits)

lemma open_listeners_held:
  assumes "\<And>t fd. os_setNonblock os t fd = None" and "held lns st"
  shows "\<exists>err lns' st'. open_listeners os addrs stdlib lns st = Some (err, lns', st') \<and> held lns' st'"
  using assms(2)
proof (induction addrs arbitrary: stdlib lns st)
  case Nil
  then show ?case by simp
next
  case (Cons addr addrs)
  obtain network address opts stdlibt where p: "parseAddr addr = Some (network, address, opts, stdlibt)"
    using parseAddr_total [of addr] by auto
  define ln where "ln = new_net_listener\<lparr>nl_network := network, nl_addr := address, nl_opts := opts\<rparr>"
  define st1 where "st1 = (if network = str ''unix'' then remove_all address st else st)"
  have 1: "held lns st1" using Cons.prems by (simp add: st1_def held_def)
  obtain err ln1 st2 where l: "listen_one os ln st1 = (err, ln1, st2)" by (cases "listen_one os ln st1")
  obtain err2 ln2 st3 where y: "listener_system os ln1 st2 = (err2, ln2, st3)" by (cases "listener_system os ln1 st2")
  have f: "nl_f ln1 = None" using listen_one_file [OF l] by (simp add: ln_def new_net_listener_def)
  note lh = listen_one_held [OF l 1]
  show ?case
  proof (cases "err = None")
    case True
    with lh have 2: "held (lns @ [ln1]) st2" by simp
    note sh = listener_system_held [OF y 2 f assms(1)]
    show ?thesis
      using True p l y Cons.IH [OF 2, of "stdlib \<or> stdlibt"] Cons.IH [of "lns @ [ln2]" st3 "stdlib \<or> stdlibt"] sh
      by (auto simp: ln_def [symmetric] st1_def [symmetric] Let_def split: if_splits)
  next
    case False
    with lh p l show ?thesis by (simp add: ln_def [symmetric] st1_def [symmetric])
  qed
qed

text \<open>Closing a listener closes its descriptor twice: by its number, and by the file that holds it.\<close>

lemma listener_close_twice:
  assumes "nl_f ln = Some fd" and "nl_fd ln = fd" and "fd \<noteq> 0"
  shows "ns_closes (listener_close ln st) = ns_closes st @ [fd, fd]"
  using assms
  by (auto simp: listener_close_def Let_def close_fd_def close_socket_def remove_all_def split: option.splits)

text \<open>The HTTP server listens on its port on all interfaces, with the reuseport option.\<close>

lemma no_scheme: "47 \<notin> set s \<Longrightarrow> \<not> Contains s (str ''://'')"
proof -
  assume "47 \<notin> set s"
  then have "Index s (str ''://'') = -1"
  proof (induction s)
    case (Cons c s)
    have "\<not> HasPrefix (c # s) (str ''://'')"
    proof
      assume "HasPrefix (c # s) (str ''://'')"
      then have "take 3 (c # s) = [58, 47, 47]" by (simp add: HasPrefix_def str_def numeral_3_eq_3 numeral_2_eq_2)
      then have "47 \<in> set (take 3 (c # s))" by simp
      with Cons.prems show False by (auto dest: in_set_takeD)
    qed
    with Cons show ?case by simp
  qed (simp add: str_def)
  then show ?thesis by (simp add: Contains_def)
qed

lemma parse_http_addr:
  "parseAddr (str ''tcp://:'' @ Itoa port @ str ''?reuseport=true'') = Some (str ''tcp'', str '':'' @ Itoa port, \<lparr>ao_reusePort = True\<rparr>, False)"
proof -
  have n: "c \<notin> set (Itoa port)" if "\<not> is_digit c" "c \<noteq> 45" for c using that Itoa_chars by blast
  have q: "\<not> is_digit 63" by (simp add: is_digit_def)
  let ?a = "str '':'' @ Itoa port"
  have "parseAddr (str ''tcp'' @ str ''://'' @ ?a @ str ''?reuseport='' @ 116 # str ''rue'') =
    Some (str ''tcp'', ?a, \<lparr>ao_reusePort = (116 \<in> {84, 116, 89, 121 :: byte} \<or> (116 :: byte) \<ge> 49 \<and> (116 :: byte) \<le> 57)\<rparr>, False)"
  proof (rule parseAddr_parts)
    show "\<not> Contains (?a @ str ''?reuseport='' @ 116 # str ''rue'') (str ''://'')"
      by (rule no_scheme) (use n [of 47] in \<open>simp add: str_def\<close>)
  qed (use n [of 63] q in \<open>simp_all add: str_def HasSuffix_def\<close>)
  then show ?thesis by (simp add: str_def)
qed

lemma http_listens:
  assumes "ns_clock st = 0" and "os_listen os 0 True (str ''tcp'') (str '':'' @ Itoa port) = Inl (TCPListener, a)"
    and "os_file os 1 0 = Inl fd" and "os_setNonblock os 1 fd = None"
  shows "\<exists>st'. Serve os run (http_addrs port) st = Some (run [\<lparr>ln_kind = TCPListener, ln_lnaddr = a, ln_fd = fd\<rparr>], st')"
  using assms
  by (simp add: Serve_def http_addrs_def parse_http_addr listen_one_def listener_system_def new_net_listener_def loop_listener_def)
    (simp add: str_def listener_system_def loop_listener_def)

text \<open>A listener whose descriptor cannot be made non-blocking stays open, with its socket.\<close>

lemma nonblock_leaks:
  assumes "ns_clock st = 0" and "os_listen os 0 True (str ''tcp'') (str '':'' @ Itoa port) = Inl (TCPListener, a)"
    and "os_file os 1 0 = Inl fd" and "os_setNonblock os 1 fd = Some e"
  shows "\<exists>st'. Serve os run (http_addrs port) st = Some (Some e, st') \<and> fd \<in> ns_files st' \<and> 0 \<in> ns_sockets st'"
  using assms
  by (simp add: Serve_def http_addrs_def parse_http_addr listen_one_def listener_system_def new_net_listener_def)
    (simp add: str_def listener_system_def)

subsection \<open>Properties\<close>


definition ex_net_os :: net_os where
  "ex_net_os = \<lparr>os_listen = (\<lambda>t r n a. if t = 0 then Inl (TCPListener, TCPAddr [] 0 []) else Inr EAGAIN),
     os_listenPacket = (\<lambda>t r n a. Inr EAGAIN), os_file = (\<lambda>t h. Inl 7), os_setNonblock = (\<lambda>t fd. None)\<rparr>"


end
