(* ===== verification/Shutdown_Signal.thy ===== *)
theory Shutdown_Signal
  imports Prelude
begin

text \<open>
  The end of \<^verbatim>\<open>serve\<close> in \<^verbatim>\<open>evio_unix.go\<close> as a protocol between its goroutine and the loops: \<^verbatim>\<open>serve\<close> starts the loops,
  waits in the deferred function for a signal, queues \<^verbatim>\<open>errClosing\<close> for every loop, and closes the loops once the
  wait group says that all have ended; a loop that ends signals and counts itself down. The steps interleave
  freely. The condition variable keeps nothing: a signal that finds no one waiting has no effect. That a
  queued note is delivered is taken for granted here.
\<close>

datatype main_pc = Spawning nat | Waiting | Triggering nat | Stopped

datatype loop_pc = Idle | Running | Exiting | Signalled | Finished

record shutdown =
  sd_main :: main_pc
  sd_loops :: "loop_pc list"
  sd_notes :: "bool list"

definition sd_start :: "nat \<Rightarrow> shutdown" where
  "sd_start n = \<lparr>sd_main = Spawning 0, sd_loops = replicate n Idle, sd_notes = replicate n False\<rparr>"

definition waitForShutdown :: "shutdown \<Rightarrow> shutdown" where
  "waitForShutdown s = s\<lparr>sd_main := Waiting\<rparr>"

definition signalShutdown :: "shutdown \<Rightarrow> shutdown" where
  "signalShutdown s = (if sd_main s = Waiting then s\<lparr>sd_main := Triggering 0\<rparr> else s)"

text \<open>The callback of a loop returns an error of its own, or \<^verbatim>\<open>Shutdown\<close>.\<close>

inductive sd_exit :: "shutdown \<Rightarrow> shutdown \<Rightarrow> bool" where
  "i < length (sd_loops s) \<Longrightarrow> sd_loops s ! i = Running \<Longrightarrow> sd_exit s (s\<lparr>sd_loops := (sd_loops s)[i := Exiting]\<rparr>)"

inductive sd_step :: "shutdown \<Rightarrow> shutdown \<Rightarrow> bool" where
  spawn: "sd_main s = Spawning k \<Longrightarrow> k < length (sd_loops s) \<Longrightarrow>
    sd_step s (s\<lparr>sd_main := Spawning (Suc k), sd_loops := (sd_loops s)[k := Running]\<rparr>)"
| wait: "sd_main s = Spawning (length (sd_loops s)) \<Longrightarrow> sd_step s (waitForShutdown s)"
| trigger: "sd_main s = Triggering k \<Longrightarrow> k < length (sd_loops s) \<Longrightarrow>
    sd_step s (s\<lparr>sd_main := Triggering (Suc k), sd_notes := (sd_notes s)[k := True]\<rparr>)"
| join: "sd_main s = Triggering (length (sd_loops s)) \<Longrightarrow> list_all ((=) Finished) (sd_loops s) \<Longrightarrow>
    sd_step s (s\<lparr>sd_main := Stopped\<rparr>)"
| closing: "i < length (sd_loops s) \<Longrightarrow> sd_loops s ! i = Running \<Longrightarrow> sd_notes s ! i \<Longrightarrow>
    sd_step s (s\<lparr>sd_loops := (sd_loops s)[i := Exiting]\<rparr>)"
| signal: "i < length (sd_loops s) \<Longrightarrow> sd_loops s ! i = Exiting \<Longrightarrow>
    sd_step s (signalShutdown (s\<lparr>sd_loops := (sd_loops s)[i := Signalled]\<rparr>))"
| finish: "i < length (sd_loops s) \<Longrightarrow> sd_loops s ! i = Signalled \<Longrightarrow>
    sd_step s (s\<lparr>sd_loops := (sd_loops s)[i := Finished]\<rparr>)"

definition sd_any :: "shutdown \<Rightarrow> shutdown \<Rightarrow> bool" where
  "sd_any s s' \<longleftrightarrow> sd_step s s' \<or> sd_exit s s'"

subsection \<open>Every run ends\<close>

fun loop_rank :: "loop_pc \<Rightarrow> nat" where
  "loop_rank Idle = 4"
| "loop_rank Running = 3"
| "loop_rank Exiting = 2"
| "loop_rank Signalled = 1"
| "loop_rank Finished = 0"

fun main_rank :: "nat \<Rightarrow> main_pc \<Rightarrow> nat" where
  "main_rank n (Spawning k) = (n - k) + n + 3"
| "main_rank n Waiting = n + 2"
| "main_rank n (Triggering k) = (n - k) + 1"
| "main_rank n Stopped = 0"

definition sd_rank :: "shutdown \<Rightarrow> nat" where
  "sd_rank s = main_rank (length (sd_loops s)) (sd_main s) + sum_list (map loop_rank (sd_loops s))"

lemma loops_rank:
  "i < length ls \<Longrightarrow> sum_list (map loop_rank (ls[i := l])) + loop_rank (ls ! i) = sum_list (map loop_rank ls) + loop_rank l"
  by (induction ls arbitrary: i) (auto simp: less_Suc_eq_0_disj)

lemma loops_rank_less:
  assumes "i < length ls" and "loop_rank l < loop_rank (ls ! i)"
  shows "sum_list (map loop_rank (ls[i := l])) < sum_list (map loop_rank ls)"
  using loops_rank [OF assms(1), of l] assms(2) by linarith

definition sd_inv :: "shutdown \<Rightarrow> bool" where
  "sd_inv s \<longleftrightarrow> (let n = length (sd_loops s) in length (sd_notes s) = n \<and>
     (case sd_main s of
        Spawning k \<Rightarrow> k \<le> n \<and> (\<forall>i < n. sd_loops s ! i = Idle \<longleftrightarrow> k \<le> i)
      | Waiting \<Rightarrow> (\<forall>i < n. sd_loops s ! i \<noteq> Idle)
      | Triggering k \<Rightarrow> k \<le> n \<and> (\<forall>i < n. sd_loops s ! i \<noteq> Idle) \<and> (\<forall>i < k. sd_notes s ! i)
      | Stopped \<Rightarrow> (\<forall>i < n. sd_loops s ! i = Finished)))"

lemma sd_start_inv: "sd_inv (sd_start n)"
  by (simp add: sd_inv_def sd_start_def)

lemma sd_step_inv: "sd_step s s' \<Longrightarrow> sd_inv s \<Longrightarrow> sd_inv s'"
proof (induction rule: sd_step.induct)
  case (spawn s k)
  then show ?case by (auto simp: sd_inv_def Let_def nth_list_update)
next
  case (wait s)
  then show ?case by (auto simp: sd_inv_def Let_def waitForShutdown_def)
next
  case (trigger s k)
  then show ?case by (auto simp: sd_inv_def Let_def nth_list_update less_Suc_eq)
next
  case (join s)
  then show ?case by (auto simp: sd_inv_def Let_def list_all_length)
next
  case (closing i s)
  then show ?case by (auto simp: sd_inv_def Let_def nth_list_update split: main_pc.splits)
next
  case (signal i s)
  then show ?case by (auto simp: sd_inv_def Let_def nth_list_update signalShutdown_def split: main_pc.splits)
next
  case (finish i s)
  then show ?case by (auto simp: sd_inv_def Let_def nth_list_update split: main_pc.splits)
qed

lemma sd_exit_inv: "sd_exit s s' \<Longrightarrow> sd_inv s \<Longrightarrow> sd_inv s'"
  by (induction rule: sd_exit.induct) (auto simp: sd_inv_def Let_def nth_list_update split: main_pc.splits)

lemma sd_any_inv: "sd_any s s' \<Longrightarrow> sd_inv s \<Longrightarrow> sd_inv s'"
  by (auto simp: sd_any_def dest: sd_step_inv sd_exit_inv)

lemma sd_step_rank: "sd_step s s' \<Longrightarrow> sd_inv s \<Longrightarrow> sd_rank s' < sd_rank s"
proof (induction rule: sd_step.induct)
  case (spawn s k)
  then have "sd_loops s ! k = Idle" by (auto simp: sd_inv_def Let_def)
  with spawn loops_rank_less [of k "sd_loops s" Running] show ?case by (simp add: sd_rank_def)
next
  case (signal i s)
  with loops_rank_less [of i "sd_loops s" Signalled] show ?case by (auto simp: sd_rank_def signalShutdown_def)
qed (auto simp: sd_rank_def waitForShutdown_def loops_rank_less)

lemma sd_exit_rank: "sd_exit s s' \<Longrightarrow> sd_rank s' < sd_rank s"
  by (induction rule: sd_exit.induct) (simp add: sd_rank_def loops_rank_less)

lemma sd_any_rank: "sd_any s s' \<Longrightarrow> sd_inv s \<Longrightarrow> sd_rank s' < sd_rank s"
  by (auto simp: sd_any_def dest: sd_step_rank sd_exit_rank)

subsection \<open>A signal that is heard\<close>

text \<open>While \<^verbatim>\<open>serve\<close> waits, no loop has signalled yet.\<close>

definition unheard :: "shutdown \<Rightarrow> bool" where
  "unheard s \<longleftrightarrow> sd_inv s \<and> (case sd_main s of
      Spawning k \<Rightarrow> False
    | Waiting \<Rightarrow> (\<forall>i < length (sd_loops s). sd_loops s ! i \<in> {Running, Exiting})
    | _ \<Rightarrow> True)"

lemma sd_step_unheard: "sd_step s s' \<Longrightarrow> unheard s \<Longrightarrow> unheard s'"
  using sd_step_inv [of s s']
  by (auto simp: unheard_def signalShutdown_def waitForShutdown_def nth_list_update elim!: sd_step.cases split: main_pc.splits if_splits)

lemma sd_exit_unheard: "sd_exit s s' \<Longrightarrow> unheard s \<Longrightarrow> unheard s'"
  using sd_exit_inv [of s s']
  by (cases "sd_main s") (auto simp: unheard_def nth_list_update elim!: sd_exit.cases)

lemma sd_any_unheard: "sd_any s s' \<Longrightarrow> unheard s \<Longrightarrow> unheard s'"
  by (auto simp: sd_any_def dest: sd_step_unheard sd_exit_unheard)

lemma sd_runs_inv: "sd_any\<^sup>*\<^sup>* s s' \<Longrightarrow> sd_inv s \<Longrightarrow> sd_inv s'"
  by (induction rule: rtranclp_induct) (auto intro: sd_any_inv)

lemma sd_runs_unheard: "sd_any\<^sup>*\<^sup>* s s' \<Longrightarrow> unheard s \<Longrightarrow> unheard s'"
  by (induction rule: rtranclp_induct) (auto intro: sd_any_unheard)

lemma triggering_steps:
  assumes "sd_inv s" and "sd_main s = Triggering k"
  shows "\<exists>s'. sd_step s s'"
proof (cases "k < length (sd_loops s) \<or> list_all ((=) Finished) (sd_loops s)")
  case True
  with assms show ?thesis by (auto simp: sd_inv_def Let_def le_less dest: trigger join)
next
  case False
  then obtain i where i: "i < length (sd_loops s)" "sd_loops s ! i \<noteq> Finished" by (auto simp: list_all_length)
  with False assms have "sd_notes s ! i" "sd_loops s ! i \<noteq> Idle" by (auto simp: sd_inv_def Let_def)
  with i show ?thesis by (cases "sd_loops s ! i") (auto dest: closing signal finish)
qed

lemma unheard_steps:
  assumes "unheard s" and "sd_main s \<noteq> Stopped" and "i < length (sd_loops s)" and "sd_loops s ! i \<noteq> Running"
  shows "\<exists>s'. sd_step s s'"
proof (cases "sd_main s")
  case Waiting
  with assms have "sd_loops s ! i = Exiting" by (auto simp: unheard_def)
  with assms(3) show ?thesis by (blast intro: signal)
qed (use assms triggering_steps in \<open>auto simp: unheard_def\<close>)

subsection \<open>A signal that is lost\<close>

lemma spawn_all: "k \<le> n \<Longrightarrow> sd_any\<^sup>*\<^sup>* (sd_start n)
  \<lparr>sd_main = Spawning k, sd_loops = replicate k Running @ replicate (n - k) Idle, sd_notes = replicate n False\<rparr>"
proof (induction k)
  case 0
  then show ?case by (simp add: sd_start_def)
next
  case (Suc k)
  let ?s = "\<lparr>sd_main = Spawning k, sd_loops = replicate k Running @ replicate (n - k) Idle, sd_notes = replicate n False\<rparr>"
  obtain m where m: "n - k = Suc m" "n - Suc k = m" using Suc.prems by (cases "n - k") auto
  have "sd_any ?s (?s\<lparr>sd_main := Spawning (Suc k), sd_loops := (sd_loops ?s)[k := Running]\<rparr>)"
    unfolding sd_any_def using Suc.prems by (intro disjI1 sd_step.spawn) simp_all
  moreover have "(sd_loops ?s)[k := Running] = replicate (Suc k) Running @ replicate (n - Suc k) Idle"
    using m by (simp add: list_update_append replicate_append_same)
  ultimately show ?case using Suc by (simp add: rtranclp.rtrancl_into_rtrancl)
qed

lemma loops_end:
  assumes "k \<le> n"
  shows "sd_any\<^sup>*\<^sup>* \<lparr>sd_main = Spawning n, sd_loops = replicate n Running, sd_notes = ns\<rparr>
    \<lparr>sd_main = Spawning n, sd_loops = replicate k Finished @ replicate (n - k) Running, sd_notes = ns\<rparr>"
  using assms
proof (induction k)
  case (Suc k)
  let ?l = "\<lambda>l. replicate k Finished @ l # replicate (n - Suc k) Running"
  let ?s = "\<lambda>l. \<lparr>sd_main = Spawning n, sd_loops = ?l l, sd_notes = ns\<rparr>"
  have n: "?l l ! k = l" "(?l l)[k := l'] = ?l l'" "k < length (?l l)" for l l'
    by (simp_all add: nth_append list_update_append)
  have "sd_any (?s Running) (?s Exiting)" unfolding sd_any_def using sd_exit.intros [of k "?s Running"] n by simp
  moreover have "sd_any (?s Exiting) (?s Signalled)"
    unfolding sd_any_def using sd_step.signal [of k "?s Exiting"] n by (simp add: signalShutdown_def)
  moreover have "sd_any (?s Signalled) (?s Finished)" unfolding sd_any_def using sd_step.finish [of k "?s Signalled"] n by simp
  moreover have "replicate k Finished @ replicate (n - k) Running = ?l Running"
    using Suc.prems by (simp add: Suc_diff_Suc flip: replicate_Suc)
  moreover have "replicate (Suc k) Finished @ replicate (n - Suc k) Running = ?l Finished"
    by (simp add: replicate_append_same flip: append_assoc)
  ultimately show ?case using Suc by (auto intro: rtranclp.rtrancl_into_rtrancl)
qed simp

subsection \<open>Properties\<close>



text \<open>
  C40: the signal of a loop can be lost: when every loop ends before \<^verbatim>\<open>serve\<close> waits, for instance because the first
  event already asks for the shutdown, then \<^verbatim>\<open>serve\<close> waits for ever, with no goroutine left to wake it, for
  every number of loops.
\<close>

theorem shutdown_signal_lost:
  "\<exists>s. sd_any\<^sup>*\<^sup>* (sd_start n) s \<and> sd_main s = Waiting \<and> list_all ((=) Finished) (sd_loops s) \<and> (\<forall>s'. \<not> sd_any s s')"
proof -
  let ?s = "\<lparr>sd_main = Spawning n, sd_loops = replicate n Finished, sd_notes = replicate n False\<rparr>"
  have "sd_any\<^sup>*\<^sup>* (sd_start n) ?s"
    using spawn_all [of n n] loops_end [of n n "replicate n False"] by (simp add: rtranclp_trans)
  moreover have "sd_any ?s (waitForShutdown ?s)" unfolding sd_any_def by (intro disjI1 sd_step.wait) simp
  ultimately have "sd_any\<^sup>*\<^sup>* (sd_start n) (waitForShutdown ?s)" by simp
  moreover have "\<not> sd_any (waitForShutdown ?s) s'" for s'
    by (auto simp: sd_any_def waitForShutdown_def elim!: sd_step.cases sd_exit.cases)
  ultimately show ?thesis by (intro exI [of _ "waitForShutdown ?s"]) (auto simp: waitForShutdown_def list_all_iff)
qed

end
