(* ===== verification/Utf8.thy ===== *)
theory Utf8
  imports Go_Strings
begin

text \<open>
  The parts of Go's \<^verbatim>\<open>unicode/utf8\<close> and \<^verbatim>\<open>encoding/json\<close> that the dubbo codec uses: decoding and
  encoding of a rune, counting runes, and the JSON text of a string, of nil and of a string map. A
  rune is a code point, here a natural number. \<^verbatim>\<open>json.Marshal\<close> escapes quotes, control characters,
  the HTML characters and the two line separators, and replaces invalid bytes.
\<close>

subsection \<open>Runes\<close>

type_synonym rune = nat

abbreviation (input) RuneError :: rune where "RuneError \<equiv> 0xFFFD"

definition cont :: "byte \<Rightarrow> bool" where
  "cont b \<longleftrightarrow> 0x80 \<le> unat b \<and> unat b \<le> 0xBF"

text \<open>\<^verbatim>\<open>utf8.DecodeRune\<close>: the first rune and its width, the error rune with width 1 on invalid input and
  with width 0 on no input.\<close>

definition DecodeRune :: "bytes \<Rightarrow> rune \<times> nat" where
  "DecodeRune p =
     (case p of
        [] \<Rightarrow> (RuneError, 0)
      | b0 # s0 \<Rightarrow>
          let x = unat b0 in
          if x < 0x80 then (x, 1)
          else if x < 0xC2 \<or> 0xF4 < x then (RuneError, 1)
          else case s0 of
            [] \<Rightarrow> (RuneError, 1)
          | b1 # s1 \<Rightarrow>
              let y = unat b1 in
              if x < 0xE0 then
                if cont b1 then ((x - 0xC0) * 64 + (y - 0x80), 2) else (RuneError, 1)
              else
                let lo = (if x = 0xE0 then 0xA0 else if x = 0xF0 then 0x90 else 0x80);
                    hi = (if x = 0xED then 0x9F else if x = 0xF4 then 0x8F else 0xBF)
                in if y < lo \<or> hi < y then (RuneError, 1)
                else case s1 of
                  [] \<Rightarrow> (RuneError, 1)
                | b2 # s2 \<Rightarrow>
                    if \<not> cont b2 then (RuneError, 1)
                    else if x < 0xF0 then ((x - 0xE0) * 4096 + (y - 0x80) * 64 + (unat b2 - 0x80), 3)
                    else case s2 of
                      [] \<Rightarrow> (RuneError, 1)
                    | b3 # s3 \<Rightarrow>
                        if \<not> cont b3 then (RuneError, 1)
                        else ((x - 0xF0) * 262144 + (y - 0x80) * 4096 + (unat b2 - 0x80) * 64 + (unat b3 - 0x80), 4))"

text \<open>The bytes of \<^verbatim>\<open>string(r)\<close>.\<close>

definition EncodeRune :: "rune \<Rightarrow> bytes" where
  "EncodeRune r =
     (if r < 0x80 then [of_nat r]
      else if r < 0x800 then [of_nat (0xC0 + r div 64), of_nat (0x80 + r mod 64)]
      else if 0xD800 \<le> r \<and> r \<le> 0xDFFF \<or> 0x10FFFF < r then [0xEF, 0xBF, 0xBD]
      else if r < 0x10000 then
        [of_nat (0xE0 + r div 4096), of_nat (0x80 + r div 64 mod 64), of_nat (0x80 + r mod 64)]
      else [of_nat (0xF0 + r div 262144), of_nat (0x80 + r div 4096 mod 64), of_nat (0x80 + r div 64 mod 64),
            of_nat (0x80 + r mod 64)])"

definition valid_rune :: "rune \<Rightarrow> bool" where
  "valid_rune r \<longleftrightarrow> r < 0xD800 \<or> 0xE000 \<le> r \<and> r \<le> 0x10FFFF"

lemma DecodeRune_size: "p \<noteq> [] \<Longrightarrow> 1 \<le> snd (DecodeRune p) \<and> snd (DecodeRune p) \<le> length p"
  by (auto simp: DecodeRune_def Let_def split: list.splits)

lemma unat_byte: "n < 256 \<Longrightarrow> unat (of_nat n :: byte) = n"
  by (simp add: unat_of_nat take_bit_eq_mod)

lemma DecodeRune_2:
  assumes "unat b0 = 0xC0 + x" "unat b1 = 0x80 + y" and "2 \<le> x" "x < 32" "y < 64"
  shows "DecodeRune (b0 # b1 # s) = (x * 64 + y, 2)"
  using assms by (simp add: DecodeRune_def cont_def Let_def)

lemma DecodeRune_3:
  assumes "unat b0 = 0xE0 + x" "unat b1 = 0x80 + y" "unat b2 = 0x80 + z"
    and "x < 16" "y < 64" "z < 64" and "x = 0 \<Longrightarrow> 32 \<le> y" and "x = 13 \<Longrightarrow> y < 32"
  shows "DecodeRune (b0 # b1 # b2 # s) = (x * 4096 + y * 64 + z, 3)"
  using assms by (auto simp: DecodeRune_def cont_def Let_def)

lemma DecodeRune_4:
  assumes "unat b0 = 0xF0 + x" "unat b1 = 0x80 + y" "unat b2 = 0x80 + z" "unat b3 = 0x80 + w"
    and "x < 5" "y < 64" "z < 64" "w < 64" and "x = 0 \<Longrightarrow> 16 \<le> y" and "x = 4 \<Longrightarrow> y < 16"
  shows "DecodeRune (b0 # b1 # b2 # b3 # s) = (x * 262144 + y * 4096 + z * 64 + w, 4)"
  using assms by (auto simp: DecodeRune_def cont_def Let_def)

lemma digits_64: "r div 64 div 64 = r div 4096" "r div 4096 div 64 = r div 262144" for r :: nat
  by (simp_all add: div_mult2_eq [symmetric])

text \<open>Decoding undoes encoding.\<close>

lemma DecodeRune_EncodeRune:
  assumes "valid_rune r"
  shows "DecodeRune (EncodeRune r @ s) = (r, length (EncodeRune r))"
proof -
  consider "r < 0x80" | "0x80 \<le> r" "r < 0x800" | "0x800 \<le> r" "r < 0x10000" | "0x10000 \<le> r" by linarith
  then show ?thesis
  proof cases
    case 1
    then show ?thesis by (simp add: EncodeRune_def DecodeRune_def unat_byte)
  next
    case 2
    then have e: "EncodeRune r = [of_nat (0xC0 + r div 64), of_nat (0x80 + r mod 64)]" unfolding EncodeRune_def by simp
    have "2 \<le> r div 64" "r div 64 < 32" using 2 by auto
    then have "DecodeRune (EncodeRune r @ s) = (r div 64 * 64 + r mod 64, 2)"
      unfolding e append_Cons append_Nil by (intro DecodeRune_2 unat_byte) simp_all
    with e show ?thesis by simp
  next
    case 3
    with assms have e: "EncodeRune r =
        [of_nat (0xE0 + r div 4096), of_nat (0x80 + r div 64 mod 64), of_nat (0x80 + r mod 64)]"
      unfolding EncodeRune_def valid_rune_def by auto
    have b: "r div 4096 < 16" using 3 by auto
    have q: "r div 64 = r div 4096 * 64 + r div 64 mod 64" using div_mult_mod_eq [of "r div 64" 64] by (simp add: digits_64)
    have s: "r div 4096 * 4096 + r div 64 mod 64 * 64 + r mod 64 = r" using q div_mult_mod_eq [of r 64] by linarith
    have lo: "r div 4096 = 0 \<Longrightarrow> 32 \<le> r div 64 mod 64" using 3 q div_le_mono [of 2048 r 64] by simp
    have hi: "r div 4096 = 13 \<Longrightarrow> r div 64 mod 64 < 32"
      using assms q div_le_mono [of r 55295 64] div_le_mono [of 57344 r 4096] by (auto simp: valid_rune_def)
    have "DecodeRune (EncodeRune r @ s) = (r div 4096 * 4096 + r div 64 mod 64 * 64 + r mod 64, 3)"
      unfolding e append_Cons append_Nil using b lo hi by (intro DecodeRune_3 unat_byte) auto
    with e s show ?thesis by simp
  next
    case 4
    with assms have top: "r \<le> 0x10FFFF" by (simp add: valid_rune_def)
    with 4 have e: "EncodeRune r = [of_nat (0xF0 + r div 262144), of_nat (0x80 + r div 4096 mod 64),
        of_nat (0x80 + r div 64 mod 64), of_nat (0x80 + r mod 64)]"
      unfolding EncodeRune_def by simp
    have b: "r div 262144 < 5" using top by auto
    have q: "r div 64 = r div 4096 * 64 + r div 64 mod 64" using div_mult_mod_eq [of "r div 64" 64] by (simp add: digits_64)
    have p: "r div 4096 = r div 262144 * 64 + r div 4096 mod 64" using div_mult_mod_eq [of "r div 4096" 64] by (simp add: digits_64)
    have s: "r div 262144 * 262144 + r div 4096 mod 64 * 4096 + r div 64 mod 64 * 64 + r mod 64 = r"
      using p q div_mult_mod_eq [of r 64] by linarith
    have lo: "r div 262144 = 0 \<Longrightarrow> 16 \<le> r div 4096 mod 64" using 4 p div_le_mono [of 65536 r 4096] by simp
    have hi: "r div 262144 = 4 \<Longrightarrow> r div 4096 mod 64 < 16" using top p div_le_mono [of r 1114111 4096] by simp
    have "DecodeRune (EncodeRune r @ s) =
        (r div 262144 * 262144 + r div 4096 mod 64 * 4096 + r div 64 mod 64 * 64 + r mod 64, 4)"
      unfolding e append_Cons append_Nil using b lo hi by (intro DecodeRune_4 unat_byte) auto
    with e s show ?thesis by simp
  qed
qed

lemma EncodeRune_not_Nil [simp]: "EncodeRune r \<noteq> []"
  by (simp add: EncodeRune_def)

text \<open>\<^verbatim>\<open>utf8.RuneCount\<close>.\<close>

function RuneCount :: "bytes \<Rightarrow> nat" where
  "RuneCount p = (if p = [] then 0 else Suc (RuneCount (drop (snd (DecodeRune p)) p)))"
  by pat_completeness auto
termination
proof (relation "measure length")
  fix p :: bytes assume "p \<noteq> []"
  with DecodeRune_size [of p] show "(drop (snd (DecodeRune p)) p, p) \<in> measure length" by simp
qed simp

declare RuneCount.simps [simp del]

definition utf8 :: "rune list \<Rightarrow> bytes" where
  "utf8 rs = concat (map EncodeRune rs)"

lemma utf8_simps [simp]: "utf8 [] = []" "utf8 (r # rs) = EncodeRune r @ utf8 rs" "utf8 (rs @ rs') = utf8 rs @ utf8 rs'"
  by (simp_all add: utf8_def)

lemma RuneCount_utf8: "list_all valid_rune rs \<Longrightarrow> RuneCount (utf8 rs) = length rs"
proof (induction rs)
  case Nil
  then show ?case by (subst RuneCount.simps) simp
next
  case (Cons r rs)
  then show ?case by (subst RuneCount.simps) (simp add: DecodeRune_EncodeRune)
qed

subsection \<open>JSON\<close>

definition hex_digit :: "nat \<Rightarrow> byte" where
  "hex_digit n = (if n < 10 then of_nat (48 + n) else of_nat (87 + n))"

text \<open>The characters that \<^verbatim>\<open>json.Marshal\<close> copies unescaped.\<close>

definition htmlSafe :: "byte \<Rightarrow> bool" where
  "htmlSafe b \<longleftrightarrow> 0x20 \<le> unat b \<and> unat b < 0x80 \<and> b \<notin> {34, 38, 60, 62, 92}"

definition json_escape :: "byte \<Rightarrow> bytes" where
  "json_escape b =
     (if b = 92 \<or> b = 34 then [92, b]
      else if b = 10 then [92, 110]
      else if b = 13 then [92, 114]
      else if b = 9 then [92, 116]
      else [92, 117, 48, 48, hex_digit (unat b div 16), hex_digit (unat b mod 16)])"

function json_chars :: "bytes \<Rightarrow> bytes" where
  "json_chars p =
     (case p of
        [] \<Rightarrow> []
      | b # s \<Rightarrow>
          if unat b < 0x80 then (if htmlSafe b then [b] else json_escape b) @ json_chars s
          else let (c, size) = DecodeRune p in
            (if c = RuneError \<and> size = 1 then 92 # str ''ufffd''
             else if c = 0x2028 then 92 # str ''u2028''
             else if c = 0x2029 then 92 # str ''u2029''
             else take size p) @ json_chars (drop size p))"
  by pat_completeness auto
termination
proof (relation "measure length")
  fix p :: bytes and b s x c size
  assume p: "p = b # s" and "x = DecodeRune p" "(c, size) = x"
  then have "size = snd (DecodeRune p)" by (metis snd_conv)
  with p DecodeRune_size [of p] show "(drop size p, p) \<in> measure length" by simp
qed simp_all

declare json_chars.simps [simp del]

definition json_string :: "gostring \<Rightarrow> gostring" where
  "json_string s = [34] @ json_chars s @ [34]"

definition json_null :: gostring where
  "json_null = str ''null''"

text \<open>A string map; the keys are sorted.\<close>

fun json_pairs :: "(gostring \<times> gostring) list \<Rightarrow> gostring" where
  "json_pairs [] = []"
| "json_pairs [(k, v)] = json_string k @ [58] @ json_string v"
| "json_pairs ((k, v) # kvs) = json_string k @ [58] @ json_string v @ [44] @ json_pairs kvs"

text \<open>The JSON text of a string has no raw control character, whatever the string; so it fits on a line.\<close>

lemma DecodeRune_multibyte:
  assumes "0x80 \<le> unat b" and "DecodeRune (b # s) = (c, n)" and "\<not> (c = RuneError \<and> n = 1)"
  shows "\<forall>x\<in>set (take n (b # s)). 0x80 \<le> unat x"
  using assms
  by (auto simp: DecodeRune_def cont_def Let_def split: list.splits if_splits)

lemma unat_hex_digit: "n < 16 \<Longrightarrow> unat (hex_digit n) = (if n < 10 then 48 + n else 87 + n)"
  unfolding hex_digit_def using unat_byte [of "48 + n"] unat_byte [of "87 + n"] by (simp del: of_nat_add)

lemma hex_digit_printable: "n < 16 \<Longrightarrow> 0x20 \<le> unat (hex_digit n)"
  by (simp add: unat_hex_digit)

lemma json_chars_printable: "x \<in> set (json_chars p) \<Longrightarrow> 0x20 \<le> unat x"
proof (induction p rule: json_chars.induct)
  case (1 p)
  show ?case
  proof (cases p)
    case Nil
    with 1(3) show ?thesis by (subst (asm) json_chars.simps) simp
  next
    case (Cons b s)
    show ?thesis
    proof (cases "unat b < 0x80")
      case True
      have "unat b div 16 < 16" "unat b mod 16 < 16" using True by auto
      with True Cons 1(1) [OF Cons True] 1(3) show ?thesis
        by (subst (asm) json_chars.simps)
          (auto simp: htmlSafe_def json_escape_def hex_digit_printable split: if_splits)
    next
      case False
      obtain c n where d: "DecodeRune p = (c, n)" by fastforce
      have "x \<in> set (json_chars (drop n p)) \<or> x \<in> set (92 # str ''ufffd'') \<or> x \<in> set (92 # str ''u2028'') \<or>
          x \<in> set (92 # str ''u2029'') \<or> \<not> (c = RuneError \<and> n = 1) \<and> x \<in> set (take n p)"
        using 1(3) False Cons d by (subst (asm) json_chars.simps) (auto split: if_splits)
      moreover have "0x20 \<le> unat x" if "\<not> (c = RuneError \<and> n = 1)" "x \<in> set (take n p)"
        using DecodeRune_multibyte [of b s c n] False d Cons that by force
      moreover have "0x20 \<le> unat x" if "x \<in> set (92 # str ''ufffd'') \<or> x \<in> set (92 # str ''u2028'') \<or> x \<in> set (92 # str ''u2029'')"
        using that by (auto simp: str_def)
      moreover have "0x20 \<le> unat x" if "x \<in> set (json_chars (drop n p))"
        using 1(2) [OF Cons False d [symmetric] refl that] by simp
      ultimately show ?thesis by blast
    qed
  qed
qed

lemma json_string_no_newline: "LF \<notin> set (json_string s)"
proof
  assume "LF \<in> set (json_string s)"
  then have "(LF :: byte) \<in> set (json_chars s)" by (auto simp: json_string_def)
  then have "0x20 \<le> unat (LF :: byte)" by (rule json_chars_printable)
  then show False by simp
qed

lemma json_pairs_no_newline: "LF \<notin> set (json_pairs kvs)"
  by (induction kvs rule: json_pairs.induct) (auto simp: json_string_no_newline)

text \<open>A reader of JSON strings: the runes up to the closing quote and what follows it.\<close>

definition hex_val :: "byte \<Rightarrow> nat" where
  "hex_val b = (if unat b < 58 then unat b - 48 else unat b - 87)"

function json_read :: "bytes \<Rightarrow> (rune list \<times> bytes) option" where
  "json_read p =
     (case p of
        [] \<Rightarrow> None
      | b # s \<Rightarrow>
          if b = 34 then Some ([], s)
          else if b = 92 then
            (case s of
               [] \<Rightarrow> None
             | e # t \<Rightarrow>
                 if e = 117 then
                   if length t < 4 then None
                   else map_option (apfst (Cons (hex_val (t ! 0) * 4096 + hex_val (t ! 1) * 256 +
                     hex_val (t ! 2) * 16 + hex_val (t ! 3)))) (json_read (drop 4 t))
                 else map_option (apfst (Cons (if e = 110 then 10 else if e = 114 then 13 else if e = 116 then 9 else unat e)))
                   (json_read t))
          else map_option (apfst (Cons (fst (DecodeRune p)))) (json_read (drop (snd (DecodeRune p)) p)))"
  by pat_completeness auto
termination
proof (relation "measure length")
  fix p :: bytes and b s assume "p = b # s"
  with DecodeRune_size [of p] show "(drop (snd (DecodeRune p)) p, p) \<in> measure length" by simp
qed auto

declare json_read.simps [simp del]

lemma hex_val_digit: "n < 16 \<Longrightarrow> hex_val (hex_digit n) = n"
  by (auto simp: hex_val_def unat_hex_digit)

lemma json_read_escape:
  assumes "unat b < 0x80" and "\<not> htmlSafe b"
  shows "json_read (json_escape b @ t) = map_option (apfst (Cons (unat b))) (json_read t)"
proof -
  have h: "unat b div 16 < 16" "unat b mod 16 < 16" using assms(1) by auto
  have "hex_val 48 = 0" by (simp add: hex_val_def)
  with h assms show ?thesis
    by (subst json_read.simps) (auto simp: json_escape_def hex_val_digit)
qed

lemma json_read_plain:
  assumes "htmlSafe b"
  shows "json_read (b # t) = map_option (apfst (Cons (unat b))) (json_read t)"
  using assms by (subst json_read.simps) (auto simp: htmlSafe_def DecodeRune_def)

lemma EncodeRune_head:
  assumes "0x80 \<le> r" and "valid_rune r"
  shows "\<exists>b s. EncodeRune r = b # s \<and> 0x80 \<le> unat b"
proof -
  have "r div 64 < 32 \<or> 0x800 \<le> r" "r div 4096 < 16 \<or> 0x10000 \<le> r" by auto
  moreover have "r div 262144 < 16" using assms by (auto simp: valid_rune_def)
  ultimately show ?thesis
    using assms unat_byte [of "0xC0 + r div 64"] unat_byte [of "0xE0 + r div 4096"] unat_byte [of "0xF0 + r div 262144"]
    unfolding EncodeRune_def valid_rune_def by (auto simp del: of_nat_add)
qed

lemma json_read_chars:
  assumes "list_all valid_rune rs"
  shows "json_read (json_chars (utf8 rs) @ 34 # t) = Some (rs, t)"
  using assms
proof (induction rs)
  case Nil
  then show ?case by (subst json_chars.simps, subst json_read.simps) simp
next
  case (Cons r rs)
  then have IH: "json_read (json_chars (utf8 rs) @ 34 # t) = Some (rs, t)" and v: "valid_rune r" by simp_all
  show ?case
  proof (cases "r < 0x80")
    case True
    then have e: "EncodeRune r = [of_nat r]" and u: "unat (of_nat r :: byte) = r" by (simp_all add: EncodeRune_def unat_byte)
    let ?b = "of_nat r :: byte"
    have "json_chars (utf8 (r # rs)) = (if htmlSafe ?b then [?b] else json_escape ?b) @ json_chars (utf8 rs)"
      using e u True by (subst json_chars.simps) simp
    with u True json_read_plain [of ?b] json_read_escape [of ?b] IH show ?thesis by simp
  next
    case False
    from EncodeRune_head [OF _ v] False obtain b s where e: "EncodeRune r = b # s" and b: "0x80 \<le> unat b" by auto
    note d = DecodeRune_EncodeRune [OF v]
    let ?w = "if r = 0x2028 then 92 # str ''u2028'' else if r = 0x2029 then 92 # str ''u2029'' else EncodeRune r"
    have "\<not> (r = RuneError \<and> length (EncodeRune r) = 1)" by (simp add: EncodeRune_def)
    with d [of "utf8 rs"] b e have "json_chars (utf8 (r # rs)) = ?w @ json_chars (utf8 rs)"
      by (subst json_chars.simps) auto
    moreover have "json_read (?w @ u) = map_option (apfst (Cons r)) (json_read u)" for u
    proof (cases "r = 0x2028 \<or> r = 0x2029")
      case True
      then show ?thesis by (subst json_read.simps) (auto simp: str_def hex_val_def)
    next
      case no: False
      have "b \<noteq> 34" "b \<noteq> 92" using b by auto
      with no d [of u] e show ?thesis by (subst json_read.simps) simp
    qed
    ultimately show ?thesis using IH by simp
  qed
qed

end
