(* ===== verification/Dubbo_Decoder.thy ===== *)
theory Dubbo_Decoder
  imports Utf8 Prelude
begin

text \<open>
  \<^verbatim>\<open>codec/jsonrpc/decode.go\<close>: a cursor over a byte slice, built on \<^verbatim>\<open>bufio.Reader\<close> over \<^verbatim>\<open>bytes.Reader\<close>. The model keeps
  of the buffered reader the unread part of its buffer, the bytes that the slice still has, whether the end was
  seen, and the byte that can be unread. A read that finds too little in the buffer of 4096 bytes first fills
  it, which moves the unread part to the front, so its offsets do not matter. The refinement is that the
  decoder is the byte string \<open>dec_rest\<close>: the buffer is not visible, except through \<^verbatim>\<open>len\<close> and \<^verbatim>\<open>next\<close>.
\<close>

subsection \<open>bufio.Reader\<close>

datatype read_error = EOF | ErrInvalidUnreadByte

abbreviation (input) bufSize :: nat where "bufSize \<equiv> 4096"

record Decoder =
  dr_buf :: bytes
  dr_src :: bytes
  dr_err :: bool
  dr_last :: "byte option"

definition NewDecoder :: "bytes \<Rightarrow> Decoder" where
  "NewDecoder b = \<lparr>dr_buf = [], dr_src = b, dr_err = False, dr_last = None\<rparr>"

definition fill :: "Decoder \<Rightarrow> Decoder" where
  "fill d =
     (if dr_src d = [] then d\<lparr>dr_err := True\<rparr>
      else let n = bufSize - length (dr_buf d) in d\<lparr>dr_buf := dr_buf d @ take n (dr_src d), dr_src := drop n (dr_src d)\<rparr>)"

text \<open>\<^verbatim>\<open>readErr\<close> returns the error and forgets it.\<close>

definition readErr :: "Decoder \<Rightarrow> read_error option \<times> Decoder" where
  "readErr d = (if dr_err d then Some EOF else None, d\<lparr>dr_err := False\<rparr>)"

text \<open>\<^verbatim>\<open>utf8.FullRune\<close>: the bytes begin with a rune, or with an error that more bytes do not change.\<close>

definition FullRune :: "bytes \<Rightarrow> bool" where
  "FullRune p =
     (case p of
        [] \<Rightarrow> False
      | b0 # s0 \<Rightarrow>
          let x = unat b0;
              size = (if x < 0xC2 \<or> 0xF4 < x then 1 else if x < 0xE0 then 2 else if x < 0xF0 then 3 else 4);
              lo = (if x = 0xE0 then 0xA0 else if x = 0xF0 then 0x90 else 0x80);
              hi = (if x = 0xED then 0x9F else if x = 0xF4 then 0x8F else 0xBF)
          in if length p \<ge> size then True
          else if length p > 1 \<and> (unat (p ! 1) < lo \<or> hi < unat (p ! 1)) then True
          else length p > 2 \<and> \<not> cont (p ! 2))"

lemma fill_less: "length (dr_buf d) < bufSize \<Longrightarrow> \<not> dr_err d \<Longrightarrow>
  length (dr_src (fill d)) + (if dr_err (fill d) then 0 else 1) < length (dr_src d) + (if dr_err d then 0 else 1)"
  by (cases "dr_src d") (auto simp: fill_def Let_def)

function fill_peek :: "nat \<Rightarrow> Decoder \<Rightarrow> Decoder" where
  "fill_peek n d =
     (if length (dr_buf d) < n \<and> length (dr_buf d) < bufSize \<and> \<not> dr_err d then fill_peek n (fill d) else d)"
  by pat_completeness auto
termination
  by (relation "measure (\<lambda>(n, d). length (dr_src d) + (if dr_err d then 0 else 1))") (auto dest: fill_less)

function fill_rune :: "Decoder \<Rightarrow> Decoder" where
  "fill_rune d =
     (if length (dr_buf d) < 4 \<and> \<not> FullRune (dr_buf d) \<and> \<not> dr_err d \<and> length (dr_buf d) < bufSize
      then fill_rune (fill d) else d)"
  by pat_completeness auto
termination
  by (relation "measure (\<lambda>d. length (dr_src d) + (if dr_err d then 0 else 1))") (auto dest: fill_less)

declare fill_peek.simps [simp del] fill_rune.simps [simp del]

definition Peek :: "int \<Rightarrow> Decoder \<Rightarrow> bytes \<times> Decoder" where
  "Peek n d =
     (if n < 0 then ([], d)
      else let d = fill_peek (nat n) (d\<lparr>dr_last := None\<rparr>) in
      if n > int bufSize then (dr_buf d, d)
      else if length (dr_buf d) < nat n then (dr_buf d, snd (readErr d))
      else (take (nat n) (dr_buf d), d))"

text \<open>The loop of \<^verbatim>\<open>ReadByte\<close> fills at most once: after that the buffer has a byte or the end was seen.\<close>

definition ReadByte :: "Decoder \<Rightarrow> byte \<times> read_error option \<times> Decoder" where
  "ReadByte d =
     (let d = fill_peek 1 d in
      case dr_buf d of
        [] \<Rightarrow> (let (e, d) = readErr d in (0, e, d))
      | c # s \<Rightarrow> (c, None, d\<lparr>dr_buf := s, dr_last := Some c\<rparr>))"

definition UnreadByte :: "Decoder \<Rightarrow> read_error option \<times> Decoder" where
  "UnreadByte d =
     (case dr_last d of
        None \<Rightarrow> (Some ErrInvalidUnreadByte, d)
      | Some c \<Rightarrow> (None, d\<lparr>dr_buf := c # dr_buf d, dr_last := None\<rparr>))"

text \<open>\<^verbatim>\<open>Read\<close> reads once: from the buffer if it has anything, else directly for a long slice, else through the buffer.\<close>

definition Read :: "nat \<Rightarrow> Decoder \<Rightarrow> bytes \<times> read_error option \<times> Decoder" where
  "Read n d =
     (let take_buf = (\<lambda>d. (take n (dr_buf d), None, d\<lparr>dr_buf := drop n (dr_buf d), dr_last := Some (last (take n (dr_buf d)))\<rparr>)) in
      if n = 0 then if dr_buf d \<noteq> [] then ([], None, d) else let (e, d) = readErr d in ([], e, d)
      else if dr_buf d \<noteq> [] then take_buf d
      else if dr_err d then let (e, d) = readErr d in ([], e, d)
      else if dr_src d = [] then ([], Some EOF, d)
      else if n \<ge> bufSize then
        (take n (dr_src d), None, d\<lparr>dr_src := drop n (dr_src d), dr_last := Some (last (take n (dr_src d)))\<rparr>)
      else take_buf (fill d))"

definition ReadRune :: "Decoder \<Rightarrow> rune \<times> nat \<times> read_error option \<times> Decoder" where
  "ReadRune d =
     (let d = fill_rune d in
      if dr_buf d = [] then let (e, d) = readErr d in (0, 0, e, d)
      else let (r, size) = DecodeRune (dr_buf d) in
        (r, size, None, d\<lparr>dr_buf := drop size (dr_buf d), dr_last := Some (dr_buf d ! (size - 1))\<rparr>))"

subsection \<open>Decoder\<close>

definition dec_peek :: "int \<Rightarrow> Decoder \<Rightarrow> bytes \<times> Decoder" where
  "dec_peek n d = Peek n d"

definition peekByte :: "Decoder \<Rightarrow> (byte \<times> Decoder) go" where
  "peekByte d = (let (b, d) = dec_peek 1 d in do { c \<leftarrow> index b 0; Some (c, d) })"

definition dec_len :: "Decoder \<Rightarrow> nat \<times> Decoder" where
  "dec_len d = (let (b, d) = dec_peek 1 d in (length (dr_buf d), d))"

definition readByte :: "Decoder \<Rightarrow> byte \<times> read_error option \<times> Decoder" where
  "readByte d = ReadByte d"

definition unreadByte :: "Decoder \<Rightarrow> read_error option \<times> Decoder" where
  "unreadByte d = UnreadByte d"

definition dec_next :: "nat \<Rightarrow> Decoder \<Rightarrow> bytes \<times> read_error option \<times> Decoder" where
  "dec_next n d = Read n d"

fun nextRune :: "nat \<Rightarrow> Decoder \<Rightarrow> rune list \<times> Decoder" where
  "nextRune 0 d = ([], d)"
| "nextRune (Suc n) d =
     (let (r, ri, e, d) = ReadRune d;
          (s, d) = nextRune n d
      in (if e = None \<and> ri > 0 then r # s else s, d))"

subsection \<open>The byte string of a decoder\<close>

definition dec_rest :: "Decoder \<Rightarrow> bytes" where
  "dec_rest d = dr_buf d @ dr_src d"

definition buf_ok :: "Decoder \<Rightarrow> bool" where
  "buf_ok d \<longleftrightarrow> length (dr_buf d) \<le> bufSize \<and> (dr_err d \<longrightarrow> dr_src d = [])"

lemma NewDecoder_inv: "buf_ok (NewDecoder b) \<and> dec_rest (NewDecoder b) = b"
  by (simp add: NewDecoder_def buf_ok_def dec_rest_def)

lemma fill_inv: "buf_ok d \<Longrightarrow> buf_ok (fill d) \<and> dec_rest (fill d) = dec_rest d \<and> dr_last (fill d) = dr_last d"
  by (auto simp: fill_def buf_ok_def dec_rest_def Let_def)

lemma fill_peek_inv:
  assumes "buf_ok d"
  shows "buf_ok (fill_peek n d) \<and> dec_rest (fill_peek n d) = dec_rest d \<and>
    (n \<le> length (dr_buf (fill_peek n d)) \<or> length (dr_buf (fill_peek n d)) = bufSize \<or> dr_err (fill_peek n d)) \<and>
    dr_last (fill_peek n d) = dr_last d"
  using assms
proof (induction n d rule: fill_peek.induct)
  case (1 n d)
  show ?case
  proof (cases "length (dr_buf d) < n \<and> length (dr_buf d) < bufSize \<and> \<not> dr_err d")
    case True
    with 1 fill_inv [of d] show ?thesis by (subst (1 2 3 4 5 6) fill_peek.simps) simp
  next
    case False
    with 1(2) show ?thesis by (subst (1 2 3 4 5 6) fill_peek.simps) (auto simp: buf_ok_def)
  qed
qed

lemma FullRune_1:
  assumes "FullRune [b0]"
  shows "DecodeRune (b0 # s) = DecodeRune [b0]"
proof -
  have "unat b0 < 0xC2 \<or> 0xF4 < unat b0" using assms by (simp add: FullRune_def Let_def split: if_splits)
  then show ?thesis by (auto simp: DecodeRune_def Let_def)
qed

lemma FullRune_2: "FullRune [b0, b1] \<Longrightarrow> DecodeRune (b0 # b1 # s) = DecodeRune [b0, b1]"
  by (simp add: FullRune_def DecodeRune_def Let_def split del: if_split) (auto split: if_splits)

lemma FullRune_3: "FullRune [b0, b1, b2] \<Longrightarrow> DecodeRune (b0 # b1 # b2 # s) = DecodeRune [b0, b1, b2]"
  by (simp add: FullRune_def DecodeRune_def Let_def split del: if_split) (auto simp: Let_def split: if_splits)

lemma FullRune_4: "DecodeRune (b0 # b1 # b2 # b3 # t @ s) = DecodeRune (b0 # b1 # b2 # b3 # t)"
  by (simp add: DecodeRune_def Let_def)

lemma FullRune_decode:
  assumes "FullRune p"
  shows "DecodeRune (p @ s) = DecodeRune p"
proof -
  consider "p = []" | b0 where "p = [b0]" | b0 b1 where "p = [b0, b1]" | b0 b1 b2 where "p = [b0, b1, b2]"
    | b0 b1 b2 b3 t where "p = b0 # b1 # b2 # b3 # t"
    by (metis neq_Nil_conv)
  then show ?thesis using assms
  proof cases
    case 1
    with assms show ?thesis by (simp add: FullRune_def)
  qed (simp_all add: FullRune_1 [of _ s] FullRune_2 [of _ _ s] FullRune_3 [of _ _ _ s] FullRune_4)
qed

lemma FullRune_long: "4 \<le> length p \<Longrightarrow> FullRune p"
  by (cases p) (auto simp: FullRune_def Let_def)

lemma fill_rune_inv:
  assumes "buf_ok d"
  shows "buf_ok (fill_rune d) \<and> dec_rest (fill_rune d) = dec_rest d \<and> DecodeRune (dr_buf (fill_rune d)) = DecodeRune (dec_rest d)"
  using assms
proof (induction d rule: fill_rune.induct)
  case (1 d)
  show ?case
  proof (cases "length (dr_buf d) < 4 \<and> \<not> FullRune (dr_buf d) \<and> \<not> dr_err d \<and> length (dr_buf d) < bufSize")
    case True
    with 1 fill_inv [of d] show ?thesis by (subst (1 2 3) fill_rune.simps) simp
  next
    case False
    then have "FullRune (dr_buf d) \<or> dr_err d" using FullRune_long [of "dr_buf d"] by auto
    then have "DecodeRune (dr_buf d) = DecodeRune (dec_rest d)"
      using 1(2) FullRune_decode [of "dr_buf d" "dr_src d"] by (auto simp: dec_rest_def buf_ok_def)
    with False 1(2) show ?thesis by (subst (1 2 3) fill_rune.simps) auto
  qed
qed

text \<open>Between the operations there is room for the byte that can be unread.\<close>

definition dec_inv :: "Decoder \<Rightarrow> bool" where
  "dec_inv d \<longleftrightarrow> buf_ok d \<and> (dr_last d \<noteq> None \<longrightarrow> length (dr_buf d) < bufSize)"

lemma readByte_refines:
  assumes "dec_inv d"
  shows "\<exists>d'. dec_inv d' \<and> (case dec_rest d of
      [] \<Rightarrow> readByte d = (0, Some EOF, d') \<and> dec_rest d' = []
    | c # s \<Rightarrow> readByte d = (c, None, d') \<and> dec_rest d' = s \<and>
        (\<exists>d''. unreadByte d' = (None, d'') \<and> dec_inv d'' \<and> dec_rest d'' = c # s))"
proof -
  define e where "e = fill_peek (Suc 0) d"
  have e: "buf_ok e" "dec_rest e = dec_rest d" "1 \<le> length (dr_buf e) \<or> dr_err e"
    using fill_peek_inv [of d "Suc 0"] assms by (auto simp: dec_inv_def e_def)
  show ?thesis
  proof (cases "dr_buf e")
    case Nil
    with e(3) have "dr_err e" by simp
    moreover from this Nil e(1,2) have "dec_rest d = []" by (simp add: dec_rest_def buf_ok_def)
    ultimately show ?thesis using Nil e
      by (auto simp: readByte_def ReadByte_def readErr_def dec_inv_def buf_ok_def dec_rest_def e_def [symmetric])
  next
    case (Cons c s)
    then have "dec_rest d = c # (s @ dr_src e)" unfolding e(2) [symmetric] by (simp add: dec_rest_def)
    moreover have "readByte d = (c, None, e\<lparr>dr_buf := s, dr_last := Some c\<rparr>)"
      using Cons by (simp add: readByte_def ReadByte_def e_def [symmetric])
    moreover have "unreadByte (e\<lparr>dr_buf := s, dr_last := Some c\<rparr>) = (None, e\<lparr>dr_buf := c # s, dr_last := None\<rparr>)"
      by (simp add: unreadByte_def UnreadByte_def)
    moreover have "dec_inv (e\<lparr>dr_buf := s, dr_last := Some c\<rparr>)" "dec_inv (e\<lparr>dr_buf := c # s, dr_last := None\<rparr>)"
      using Cons e(1) by (simp_all add: dec_inv_def buf_ok_def)
    ultimately show ?thesis
      by (intro exI [of _ "e\<lparr>dr_buf := s, dr_last := Some c\<rparr>"]) (simp add: dec_rest_def [of "e\<lparr>dr_buf := _, dr_last := _\<rparr>"])
  qed
qed

lemma peek_refines:
  assumes "dec_inv d" and "0 \<le> n" and "n \<le> int bufSize"
  shows "\<exists>d'. dec_peek n d = (take (nat n) (dec_rest d), d') \<and> dec_inv d' \<and> dec_rest d' = dec_rest d"
proof -
  define e where "e = fill_peek (nat n) (d\<lparr>dr_last := None\<rparr>)"
  have e: "buf_ok e" "dec_rest e = dec_rest d" "nat n \<le> length (dr_buf e) \<or> length (dr_buf e) = bufSize \<or> dr_err e"
    and l: "dr_last e = None"
    using fill_peek_inv [of "d\<lparr>dr_last := None\<rparr>" "nat n"] assms(1) by (auto simp: dec_inv_def e_def buf_ok_def dec_rest_def)
  show ?thesis
  proof (cases "length (dr_buf e) < nat n")
    case True
    with e assms(3) have "dr_src e = []" by (auto simp: buf_ok_def)
    with True e l assms show ?thesis
      by (auto simp: dec_peek_def Peek_def readErr_def dec_inv_def buf_ok_def dec_rest_def e_def [symmetric])
  next
    case False
    then have "take (nat n) (dec_rest d) = take (nat n) (dr_buf e)" unfolding e(2) [symmetric] by (simp add: dec_rest_def)
    with False e l assms show ?thesis
      by (simp add: dec_peek_def Peek_def dec_inv_def Let_def e_def [symmetric])
  qed
qed

lemma ReadRune_refines:
  assumes "dec_inv d" and "dec_rest d \<noteq> []"
  shows "\<exists>d'. ReadRune d = (fst (DecodeRune (dec_rest d)), snd (DecodeRune (dec_rest d)), None, d') \<and> dec_inv d' \<and>
    dec_rest d' = drop (snd (DecodeRune (dec_rest d))) (dec_rest d)"
proof -
  define e where "e = fill_rune d"
  have e: "buf_ok e" "dec_rest e = dec_rest d" "DecodeRune (dr_buf e) = DecodeRune (dec_rest d)"
    using fill_rune_inv [of d] assms(1) by (auto simp: dec_inv_def e_def)
  have "snd (DecodeRune (dec_rest d)) \<noteq> 0" using DecodeRune_size [OF assms(2)] by simp
  with e(3) have ne: "dr_buf e \<noteq> []" by (auto simp: DecodeRune_def)
  have sz: "1 \<le> snd (DecodeRune (dr_buf e))" "snd (DecodeRune (dr_buf e)) \<le> length (dr_buf e)"
    using DecodeRune_size [OF ne] by simp_all
  have "drop (snd (DecodeRune (dec_rest d))) (dec_rest e) = drop (snd (DecodeRune (dec_rest d))) (dr_buf e) @ dr_src e"
    using sz e(3) by (simp add: dec_rest_def)
  with e ne sz show ?thesis
    by (auto simp: ReadRune_def e_def [symmetric] dec_inv_def buf_ok_def dec_rest_def split: prod.splits)
qed

lemma nextRune_refines:
  assumes "dec_inv d" and "dec_rest d = utf8 rs @ s" and "list_all valid_rune rs"
  shows "\<exists>d'. nextRune (length rs) d = (rs, d') \<and> dec_inv d' \<and> dec_rest d' = s"
  using assms
proof (induction rs arbitrary: d)
  case Nil
  then show ?case by simp
next
  case (Cons r rs)
  then have dec: "DecodeRune (dec_rest d) = (r, length (EncodeRune r))" by (simp add: DecodeRune_EncodeRune)
  moreover have "dec_rest d \<noteq> []" using Cons.prems(2) by simp
  ultimately obtain d1 where r: "ReadRune d = (r, length (EncodeRune r), None, d1)" and d1: "dec_inv d1" "dec_rest d1 = utf8 rs @ s"
    using ReadRune_refines [OF Cons.prems(1)] Cons.prems(2) by auto
  from Cons.IH [OF d1] Cons.prems(3) r show ?case by auto
qed

lemma next_refines:
  assumes "dec_inv d" and "dec_rest d \<noteq> []" and "0 < n"
  shows "\<exists>p d'. dec_next n d = (p, None, d') \<and> p \<noteq> [] \<and> length p \<le> n \<and> dec_rest d = p @ dec_rest d' \<and> dec_inv d'"
proof (cases "dr_buf d = []")
  case True
  then have "dr_src d \<noteq> []" "\<not> dr_err d" using assms(1,2) by (auto simp: dec_rest_def dec_inv_def buf_ok_def)
  moreover have "take n (dr_src d) @ drop n (take bufSize (dr_src d)) @ drop bufSize (dr_src d) = dr_src d" if "n < bufSize"
    using that by (metis append_assoc append_take_drop_id min.absorb1 less_imp_le take_take)
  ultimately show ?thesis
    using True assms by (auto simp: dec_next_def Read_def fill_def dec_rest_def dec_inv_def buf_ok_def Let_def)
next
  case False
  with assms show ?thesis
    by (auto simp: dec_next_def Read_def dec_rest_def dec_inv_def buf_ok_def Let_def)
qed

text \<open>The length it gives is the length of the buffer.\<close>

lemma NewDecoder_len: "fst (dec_len (NewDecoder b)) = min bufSize (length b)"
proof (cases b)
  case Nil
  have "fill_peek (Suc 0) (NewDecoder []) = (NewDecoder [])\<lparr>dr_err := True\<rparr>"
    by (subst fill_peek.simps, simp add: NewDecoder_def fill_def, subst fill_peek.simps) simp
  with Nil show ?thesis by (simp add: dec_len_def dec_peek_def Peek_def readErr_def NewDecoder_def Let_def)
next
  case (Cons c s)
  have "fill_peek (Suc 0) (NewDecoder b) = (NewDecoder b)\<lparr>dr_buf := take bufSize b, dr_src := drop bufSize b\<rparr>"
    unfolding Cons by (subst fill_peek.simps, simp add: NewDecoder_def fill_def, subst fill_peek.simps) simp
  with Cons show ?thesis by (simp add: dec_len_def dec_peek_def Peek_def Let_def) (simp add: NewDecoder_def)
qed

subsection \<open>Properties\<close>

text \<open>
  C25: the decoder is a cursor over its byte string, whatever its buffer holds: \<^verbatim>\<open>readByte\<close> returns the next byte,
  which \<^verbatim>\<open>unreadByte\<close> takes back, or the end, \<^verbatim>\<open>peek\<close> shows the next bytes and moves nothing, \<^verbatim>\<open>next\<close> returns a
  part of the next bytes, and \<^verbatim>\<open>nextRune\<close> reads the runes of a UTF-8 text across the end of the buffer.
\<close>

theorem decoder_refines:
  assumes "dec_inv d" and "n \<le> 4096" and "0 < k" and "dec_rest d = utf8 rs @ s" and "list_all valid_rune rs"
  shows "(\<exists>d1. dec_inv d1 \<and> (case dec_rest d of
        [] \<Rightarrow> readByte d = (0, Some EOF, d1) \<and> dec_rest d1 = []
      | c # t \<Rightarrow> readByte d = (c, None, d1) \<and> dec_rest d1 = t \<and>
          (\<exists>d2. unreadByte d1 = (None, d2) \<and> dec_inv d2 \<and> dec_rest d2 = c # t))) \<and>
    (\<exists>d'. dec_peek (int n) d = (take n (dec_rest d), d') \<and> dec_inv d' \<and> dec_rest d' = dec_rest d) \<and>
    (dec_rest d \<noteq> [] \<longrightarrow> (\<exists>p d'. dec_next k d = (p, None, d') \<and> p \<noteq> [] \<and> length p \<le> k \<and>
      dec_rest d = p @ dec_rest d' \<and> dec_inv d')) \<and>
    (\<exists>d'. nextRune (length rs) d = (rs, d') \<and> dec_inv d' \<and> dec_rest d' = s)"
  using readByte_refines [OF assms(1)] peek_refines [OF assms(1), of "int n"] assms(2)
    next_refines [OF assms(1) _ assms(3)] nextRune_refines [OF assms(1,4,5)]
  by (intro conjI impI) simp_all

definition ex_text :: "rune list" where
  "ex_text = [72, 228, 8364, 128512]"

theorem decoder_refines_witness:
  "\<exists>d'. nextRune 4 (NewDecoder (utf8 ex_text @ [0])) = (ex_text, d') \<and> dec_rest d' = [0]"
proof -
  have "list_all valid_rune ex_text" by (simp add: ex_text_def valid_rune_def)
  moreover have "length ex_text = 4" by (simp add: ex_text_def)
  moreover have "dec_inv (NewDecoder (utf8 ex_text @ [0]))" by (simp add: dec_inv_def NewDecoder_inv) (simp add: NewDecoder_def)
  ultimately show ?thesis
    using decoder_refines [of "NewDecoder (utf8 ex_text @ [0])" 3 1 ex_text "[0]"] NewDecoder_inv [of "utf8 ex_text @ [0]"]
    by auto
qed

end
