(* ===== verification/Dubbo_Codec.thy ===== *)
theory Dubbo_Codec
  imports Utf8 "HOL-Library.List_Lexorder"
begin

text \<open>
  \<^verbatim>\<open>codec/codec.go\<close> and \<^verbatim>\<open>codec/jsonrpc\<close>: the dubbo wire format. A request is a 16-byte header and seven JSON
  texts, one per line; a response is a header and a body from which the value is cut. The
  encoder of hessian strings and byte strings is modelled with reference decoders that follow
  the grammar in its comments.
\<close>

subsection \<open>codec.go\<close>

type_synonym MessageType = int

abbreviation (input) Heartbeat :: MessageType where "Heartbeat \<equiv> 8"

datatype codec_error = ErrHeaderNotEnough | ErrBodyNotEnough | ErrIllegalPackage

record RpcInvocation =
  ri_Method :: gostring
  ri_ParameterTypes :: gostring
  ri_Args :: bytes
  ri_Attachments :: "(gostring \<times> gostring) list option"

text \<open>The payload of a message is anything; only an \<^verbatim>\<open>RpcInvocation\<close> is looked at.\<close>

record Message =
  m_ID :: "64 word"
  m_Version :: gostring
  m_Type :: MessageType
  m_ServicePath :: gostring
  m_Interface :: gostring
  m_Method :: gostring
  m_Data :: "RpcInvocation option"

subsection \<open>codec\_util.go\<close>

definition PackInt8 :: "8 word \<Rightarrow> bytes \<Rightarrow> bytes" where
  "PackInt8 v b = b @ [v]"

definition PackInt16 :: "16 word \<Rightarrow> bytes" where
  "PackInt16 v = be_bytes 2 v"

definition PackUint16 :: "16 word \<Rightarrow> bytes" where
  "PackUint16 v = be_bytes 2 v"

definition PackInt32 :: "32 word \<Rightarrow> bytes" where
  "PackInt32 v = be_bytes 4 v"

definition PackInt64 :: "64 word \<Rightarrow> bytes" where
  "PackInt64 v = be_bytes 8 v"

text \<open>A float is its 64 bits, which is what \<^verbatim>\<open>math.Float64bits\<close> gives.\<close>

definition PackFloat64 :: "64 word \<Rightarrow> bytes" where
  "PackFloat64 bits = be_bytes 8 bits"

definition UnpackInt16 :: "bytes \<Rightarrow> (16 word) go" where
  "UnpackInt16 b = do { arr \<leftarrow> slice_to b 2; get_be 2 arr }"

definition UnpackUint16 :: "bytes \<Rightarrow> (16 word) go" where
  "UnpackUint16 b = do { arr \<leftarrow> slice_to b 2; get_be 2 arr }"

definition UnpackInt32 :: "bytes \<Rightarrow> (32 word) go" where
  "UnpackInt32 b = do { arr \<leftarrow> slice_to b 4; get_be 4 arr }"

definition UnpackInt64 :: "bytes \<Rightarrow> (64 word) go" where
  "UnpackInt64 b = do { arr \<leftarrow> slice_to b 8; get_be 8 arr }"

definition UnpackFloat64 :: "bytes \<Rightarrow> (64 word) go" where
  "UnpackFloat64 b = do { arr \<leftarrow> slice_to b 8; get_be 8 arr }"

text \<open>\<^verbatim>\<open>strings.TrimSpace\<close> finds no space to cut: the text ends with a brace or a comma.\<close>

definition SprintHex :: "bytes \<Rightarrow> gostring" where
  "SprintHex b =
     str ''[]byte{'' @ concat (map (\<lambda>v. str ''0x'' @ [hex_digit (unat v div 16), hex_digit (unat v mod 16)] @ str '','') b) @
     str ''}'' @ [LF]"

subsection \<open>encode.go: the output buffer\<close>

record Encoder =
  en_buffer :: bytes

definition NewEncoder :: Encoder where
  "NewEncoder = \<lparr>en_buffer = []\<rparr>"

definition Encoder_Append :: "bytes \<Rightarrow> Encoder \<Rightarrow> Encoder" where
  "Encoder_Append buf e = e\<lparr>en_buffer := en_buffer e @ buf\<rparr>"

definition Encoder_Buffer :: "Encoder \<Rightarrow> bytes" where
  "Encoder_Buffer e = en_buffer e"

subsection \<open>request.go\<close>

abbreviation (input) HEADER_LENGTH :: nat where "HEADER_LENGTH \<equiv> 16"
abbreviation (input) MAGIC_HIGH :: byte where "MAGIC_HIGH \<equiv> 0xda"
abbreviation (input) MAGIC_LOW :: byte where "MAGIC_LOW \<equiv> 0xbb"
abbreviation (input) FLAG_REQUEST :: byte where "FLAG_REQUEST \<equiv> 0x80"
abbreviation (input) FLAG_TWOWAY :: byte where "FLAG_TWOWAY \<equiv> 0x40"
abbreviation (input) FLAG_EVENT :: byte where "FLAG_EVENT \<equiv> 0x20"

definition DUBBO_VERSION :: gostring where
  "DUBBO_VERSION = str ''2.0.1''"

text \<open>The values that are marshalled: nil, a string, a string map (\<open>None\<close> is a nil map).\<close>

datatype go_value = GoNil | GoString gostring | GoMap "(gostring \<times> gostring) list option"

definition toJson :: "go_value \<Rightarrow> gostring" where
  "toJson v =
     (case v of
        GoNil \<Rightarrow> json_null
      | GoString s \<Rightarrow> json_string s
      | GoMap m \<Rightarrow> (case m of None \<Rightarrow> json_null | Some kvs \<Rightarrow> str ''{'' @ json_pairs (sort_key fst kvs) @ str ''}''))"

definition writeJsonObject :: "gostring \<Rightarrow> bytes \<Rightarrow> bytes" where
  "writeJsonObject json jsonBuf = jsonBuf @ json @ [LF]"

definition PackRequest_body :: "Message \<Rightarrow> bytes" where
  "PackRequest_body m =
     (case m_Data m of
        None \<Rightarrow> []
      | Some rpcInvocation \<Rightarrow>
          let args = ri_Args rpcInvocation;
              attachments = ri_Attachments rpcInvocation;
              jsonBuf = [];
              jsonBuf = writeJsonObject (toJson (GoString DUBBO_VERSION)) jsonBuf;
              jsonBuf = writeJsonObject (toJson (GoString (m_Interface m))) jsonBuf;
              jsonBuf = writeJsonObject (toJson GoNil) jsonBuf;
              jsonBuf = writeJsonObject (toJson (GoString (m_Method m))) jsonBuf;
              jsonBuf = writeJsonObject (toJson (GoString (ri_ParameterTypes rpcInvocation))) jsonBuf;
              jsonBuf = writeJsonObject (toJson (GoString args)) jsonBuf
          in writeJsonObject (toJson (GoMap attachments)) jsonBuf)"

definition PackRequest :: "Message \<Rightarrow> bytes" where
  "PackRequest m =
     (let dubboHeader = [MAGIC_HIGH, MAGIC_LOW, FLAG_REQUEST OR FLAG_TWOWAY] @ replicate 13 0;
          byteArray = [] @ dubboHeader;
          byteArray = byteArray[3 := 0];
          byteArray = byteArray[2 := byteArray ! 2 OR (FLAG_REQUEST OR 6)];
          byteArray = copy_at 4 (be_bytes 8 (m_ID m)) byteArray;
          byteArray = (if m_Type m = Heartbeat then byteArray[2 := byteArray ! 2 OR FLAG_EVENT]
                       else byteArray[2 := byteArray ! 2 OR FLAG_REQUEST]);
          jsonBuf = PackRequest_body m;
          byteArray = copy_at 12 (be_bytes 4 (of_nat (length jsonBuf) :: 32 word)) byteArray;
          encoder = Encoder_Append (take HEADER_LENGTH byteArray) NewEncoder;
          encoder = Encoder_Append jsonBuf encoder
      in en_buffer encoder)"

subsection \<open>response.go\<close>

record Response =
  rs_ID :: "64 word"
  rs_Status :: byte
  rs_Data :: bytes

definition Status_OK :: "byte \<Rightarrow> bool" where
  "Status_OK s \<longleftrightarrow> s = 20"

definition Status_String :: "byte \<Rightarrow> gostring" where
  "Status_String s =
     (if s = 20 then str ''OK''
      else if s = 30 then str ''CLIENT_TIMEOUT''
      else if s = 31 then str ''SERVER_TIMEOUT''
      else if s = 40 then str ''BAD_REQUEST''
      else if s = 50 then str ''BAD_RESPONSE''
      else if s = 60 then str ''SERVICE_NOT_FOUND''
      else if s = 70 then str ''SERVICE_ERROR''
      else if s = 80 then str ''SERVER_ERROR''
      else if s = 90 then str ''CLIENT_ERROR''
      else if s = 100 then str ''SERVER_THREADPOOL_EXHAUSTED_ERROR''
      else str ''Uknown'')"

definition UnpackResponse :: "bytes \<Rightarrow> (bytes \<times> Response option \<times> codec_error option) go" where
  "UnpackResponse buf =
     (let readable = length buf in
      if readable < HEADER_LENGTH then Some (buf, None, Some ErrHeaderNotEnough)
      else do {
        header \<leftarrow> slice_range buf 0 16;
        dataLen \<leftarrow> slice_range header 12 16;
        dLen \<leftarrow> get_be 4 dataLen;
        let tt = dLen + (16 :: 32 word);
        if sint (of_nat readable :: 32 word) < sint tt then Some (buf, None, Some ErrHeaderNotEnough)
        else do {
          idBytes \<leftarrow> slice_range buf 4 12;
          id' \<leftarrow> get_be 8 idBytes;
          status \<leftarrow> index buf 3;
          data \<leftarrow> slice_range buf 18 (sint (tt - 1));
          leftover \<leftarrow> slice_from buf (sint tt);
          Some (leftover, Some \<lparr>rs_ID = id', rs_Status = status, rs_Data = data\<rparr>, None)
        }
      })"

subsection \<open>encode.go: strings and byte strings\<close>

definition encByte :: "bytes \<Rightarrow> bytes \<Rightarrow> bytes" where
  "encByte b t = b @ t"

abbreviation (input) CHUNK_SIZE :: nat where "CHUNK_SIZE \<equiv> 4096"
abbreviation (input) BC_BINARY :: byte where "BC_BINARY \<equiv> 66"
abbreviation (input) BC_BINARY_CHUNK :: byte where "BC_BINARY_CHUNK \<equiv> 65"
abbreviation (input) BC_STRING :: byte where "BC_STRING \<equiv> 83"
abbreviation (input) BC_STRING_CHUNK :: byte where "BC_STRING_CHUNK \<equiv> 82"
abbreviation (input) BC_NULL :: byte where "BC_NULL \<equiv> 78"

text \<open>\<^verbatim>\<open>vChunk\<close> moves up to \<open>n\<close> runes from the buffer to the output.\<close>

fun vChunk :: "nat \<Rightarrow> bytes \<Rightarrow> bytes \<Rightarrow> bytes \<times> bytes" where
  "vChunk 0 vBuf b = (vBuf, b)"
| "vChunk (Suc n) vBuf b =
     (if vBuf = [] then vChunk n vBuf b
      else let (r, s) = DecodeRune vBuf in vChunk n (drop s vBuf) (b @ EncodeRune r))"

lemma vChunk_shorter: "length (fst (vChunk n vBuf b)) \<le> length vBuf"
proof (induction n arbitrary: vBuf b)
  case (Suc n)
  have "length (fst (vChunk n (drop s vBuf) b')) \<le> length vBuf" for s b'
    using Suc [of "drop s vBuf" b'] by simp
  with Suc show ?case by (auto split: prod.splits)
qed simp

lemma vChunk_decreases: "vBuf \<noteq> [] \<Longrightarrow> 0 < n \<Longrightarrow> length (fst (vChunk n vBuf b)) < length vBuf"
proof (cases n)
  case (Suc m)
  assume ne: "vBuf \<noteq> []"
  obtain r s where d: "DecodeRune vBuf = (r, s)" by fastforce
  with DecodeRune_size [OF ne] have "0 < s" "s \<le> length vBuf" by simp_all
  with vChunk_shorter [of m "drop s vBuf" "b @ EncodeRune r"] Suc ne d show ?thesis by simp
qed simp

lemma RuneCount_0: "RuneCount p = 0 \<longleftrightarrow> p = []"
  by (subst RuneCount.simps) simp

function enc_string_loop :: "bytes \<Rightarrow> bytes \<Rightarrow> bytes" where
  "enc_string_loop vBuf b =
     (let vLen = RuneCount vBuf in
      if vLen = 0 then b
      else if vLen > CHUNK_SIZE then
        let b = encByte b [BC_STRING_CHUNK];
            b = encByte b (PackUint16 (of_nat CHUNK_SIZE));
            (vBuf', b') = vChunk CHUNK_SIZE vBuf b
        in enc_string_loop vBuf' b'
      else
        let b = (if vLen \<le> 0x1f then encByte b [of_nat vLen]
                 else if vLen \<le> 0x3ff then encByte b [of_nat (vLen div 256 + 0x30), of_nat vLen]
                 else encByte (encByte b [BC_STRING]) (PackUint16 (of_nat vLen)));
            (vBuf', b') = vChunk vLen vBuf b
        in enc_string_loop vBuf' b')"
  by pat_completeness auto
termination
proof (relation "measure (\<lambda>(vBuf, b). length vBuf)")
  fix vBuf b vLen b1 b2 x v' b'
  assume "vLen = RuneCount vBuf" "vLen \<noteq> 0" "x = vChunk CHUNK_SIZE vBuf b2" "(v', b') = x"
  moreover from this have "vBuf \<noteq> []" by (simp add: RuneCount_0)
  ultimately show "((v', b'), (vBuf, b)) \<in> measure (\<lambda>(vBuf, b). length vBuf)"
    using vChunk_decreases [of vBuf CHUNK_SIZE b2] by (metis case_prod_conv fst_conv in_measure zero_less_numeral)
next
  fix vBuf b vLen b1 x v' b'
  assume "vLen = RuneCount vBuf" "vLen \<noteq> 0" "x = vChunk vLen vBuf b1" "(v', b') = x"
  moreover from this have "vBuf \<noteq> []" by (simp add: RuneCount_0)
  ultimately show "((v', b'), (vBuf, b)) \<in> measure (\<lambda>(vBuf, b). length vBuf)"
    using vChunk_decreases [of vBuf vLen b1] by (metis case_prod_conv fst_conv in_measure neq0_conv)
qed simp

declare enc_string_loop.simps [simp del]

definition encString :: "gostring \<Rightarrow> bytes \<Rightarrow> bytes" where
  "encString v b = (if v = [] then encByte b [0] else enc_string_loop v b)"

function enc_binary_loop :: "bytes \<Rightarrow> bytes \<Rightarrow> bytes" where
  "enc_binary_loop v b =
     (let vLength = length v in
      if vLength > 0 then
        if vLength > CHUNK_SIZE then
          let b = encByte b ([BC_BINARY_CHUNK] @ be_bytes 2 (of_nat CHUNK_SIZE :: 16 word))
          in enc_binary_loop (drop CHUNK_SIZE v) (b @ take CHUNK_SIZE v)
        else
          let b = (if vLength \<le> 0x0f then encByte b [of_nat (0x20 + vLength)]
                   else if vLength \<le> 0x3ff then encByte b [of_nat (0x34 + vLength div 256), of_nat vLength]
                   else encByte b [BC_BINARY, of_nat (vLength div 256), of_nat vLength])
          in enc_binary_loop (drop vLength v) (b @ take vLength v)
      else b)"
  by pat_completeness auto
termination
  by (relation "measure (\<lambda>(v, b). length v)") auto

declare enc_binary_loop.simps [simp del]

definition encBinary :: "bytes \<Rightarrow> bytes \<Rightarrow> bytes" where
  "encBinary v b = (if length v = 0 then encByte b [BC_NULL] else enc_binary_loop v b)"

subsection \<open>Requests\<close>

lemma toJson_no_newline: "LF \<notin> set (toJson v)"
  by (cases v) (auto simp: toJson_def json_string_no_newline json_pairs_no_newline json_null_def str_def split: option.splits)

definition request_lines :: "Message \<Rightarrow> RpcInvocation \<Rightarrow> gostring list" where
  "request_lines m ri =
     [toJson (GoString DUBBO_VERSION), toJson (GoString (m_Interface m)), toJson GoNil, toJson (GoString (m_Method m)),
      toJson (GoString (ri_ParameterTypes ri)), toJson (GoString (ri_Args ri)), toJson (GoMap (ri_Attachments ri))]"

lemma PackRequest_body_lines:
  "m_Data m = Some ri \<Longrightarrow> PackRequest_body m = concat (map (\<lambda>l. l @ [LF]) (request_lines m ri))"
  by (simp add: PackRequest_body_def request_lines_def writeJsonObject_def Let_def)

lemma Split_lines:
  assumes "\<And>l. l \<in> set ls \<Longrightarrow> LF \<notin> set l"
  shows "Split (concat (map (\<lambda>l. l @ [LF]) ls)) [LF] = ls @ [[]]"
  using assms
proof (induction ls)
  case Nil
  then show ?case by (simp add: Split_last)
next
  case (Cons l ls)
  then show ?case using Split_cut [of LF l "concat (map (\<lambda>l. l @ [LF]) ls)"] by simp
qed

lemma header_fill:
  "length x = 8 \<Longrightarrow> length y = 4 \<Longrightarrow>
   copy_at 12 y ((copy_at 4 x (a # b # c # d # replicate 12 z))[2 := c']) = [a, b, c', d] @ x @ y"
  by (simp add: copy_at_def numeral_eq_Suc)

lemma PackRequest_eq:
  "PackRequest m = [MAGIC_HIGH, MAGIC_LOW, if m_Type m = Heartbeat then 0xe6 else 0xc6, 0] @ be_bytes 8 (m_ID m) @
     be_bytes 4 (of_nat (length (PackRequest_body m)) :: 32 word) @ PackRequest_body m"
proof -
  let ?x = "be_bytes 8 (m_ID m)" and ?y = "be_bytes 4 (of_nat (length (PackRequest_body m)) :: 32 word)"
  let ?h = "0xda # 0xbb # 0xc6 # 0 # replicate 12 (0 :: byte)"
  have r: "replicate 13 (0 :: byte) = 0 # replicate 12 0" by (simp add: numeral_eq_Suc)
  have h: "([MAGIC_HIGH, MAGIC_LOW, FLAG_REQUEST OR FLAG_TWOWAY] @ replicate 13 0)[3 := 0] =
      0xda # 0xbb # 0xc0 # 0 # replicate 12 (0 :: byte)"
    unfolding r by simp
  have third: "copy_at 4 ?x ?h ! 2 = 0xc6" by (simp add: copy_at_def)
  show ?thesis
    unfolding PackRequest_def Let_def append_Nil h
    using header_fill [of ?x ?y "0xda" "0xbb" "0xc6" 0 0] third by (simp add: Encoder_Append_def NewEncoder_def)
qed

lemma get_be_whole: "LENGTH('a) \<le> 8 * n \<Longrightarrow> get_be n (be_bytes n w) = Some w" for w :: "'a::len word"
  by (simp add: get_be_def be_word_be_bytes_id)

lemma PackRequest_fields:
  "length (PackRequest_body m) < 2 ^ 32 \<Longrightarrow>
   take 2 (PackRequest m) = [MAGIC_HIGH, MAGIC_LOW] \<and> get_be 8 (drop 4 (PackRequest m @ rest)) = Some (m_ID m) \<and>
   (\<exists>n :: 32 word. get_be 4 (drop 12 (PackRequest m @ rest)) = Some n \<and> unat n = length (PackRequest_body m)) \<and>
   drop 16 (PackRequest m @ rest) = PackRequest_body m @ rest"
  by (simp add: PackRequest_eq unat_of_nat_u32 get_be_whole)

text \<open>A reader of requests: the number, the interface, the method, the parameter types and the argument.\<close>

definition read_json_string :: "bytes \<Rightarrow> rune list option" where
  "read_json_string p =
     (case p of
        [] \<Rightarrow> None
      | b # s \<Rightarrow> if b = 34 then (case json_read s of Some (rs, []) \<Rightarrow> Some rs | _ \<Rightarrow> None) else None)"

definition read_request :: "bytes \<Rightarrow> (64 word \<times> rune list \<times> rune list \<times> rune list \<times> rune list) option" where
  "read_request p =
     (if take 2 p \<noteq> [MAGIC_HIGH, MAGIC_LOW] then None
      else do {
        reqid \<leftarrow> get_be 8 (drop 4 p);
        n \<leftarrow> get_be 4 (drop 12 p);
        let ls = Split (take (unat (n :: 32 word)) (drop 16 p)) [LF];
        if length ls \<noteq> 8 then None
        else do {
          interf \<leftarrow> read_json_string (ls ! 1);
          meth \<leftarrow> read_json_string (ls ! 3);
          types \<leftarrow> read_json_string (ls ! 4);
          args \<leftarrow> read_json_string (ls ! 5);
          Some (reqid, interf, meth, types, args)
        }
      })"

lemma read_json_string_utf8: "list_all valid_rune rs \<Longrightarrow> read_json_string (toJson (GoString (utf8 rs))) = Some rs"
  using json_read_chars [of rs "[]"] by (simp add: read_json_string_def toJson_def json_string_def)

subsection \<open>Responses\<close>

lemma UnpackResponse_short: "length buf < 16 \<Longrightarrow> UnpackResponse buf = Some (buf, None, Some ErrHeaderNotEnough)"
  by (simp add: UnpackResponse_def)

definition announced_len :: "bytes \<Rightarrow> 32 word" where
  "announced_len buf = be_word (take 4 (drop 12 buf))"

lemma UnpackResponse_long:
  assumes "16 \<le> length buf" and "length buf < 2 ^ 31"
  shows "UnpackResponse buf =
    (let tt = announced_len buf + 16 in
     if int (length buf) < sint tt then Some (buf, None, Some ErrHeaderNotEnough)
     else do {
       data \<leftarrow> slice_range buf 18 (sint (tt - 1));
       leftover \<leftarrow> slice_from buf (sint tt);
       Some (leftover, Some \<lparr>rs_ID = be_word (take 8 (drop 4 buf)), rs_Status = buf ! 3, rs_Data = data\<rparr>, None)
     })"
proof -
  have "sint (of_nat (length buf) :: 32 word) = int (length buf)"
    using assms(2) by (simp add: signed_of_nat signed_take_bit_int_eq_self)
  moreover have "slice_range buf 0 16 = Some (take 16 buf)" using assms(1) by (simp add: slice_range_def)
  moreover have "slice_range (take 16 buf) 12 16 = Some (take 4 (drop 12 buf))"
    using assms(1) by (simp add: slice_range_def drop_take)
  moreover have "slice_range buf 4 12 = Some (take 8 (drop 4 buf))" using assms(1) by (simp add: slice_range_def)
  moreover have "index buf 3 = Some (buf ! 3)" using assms(1) by (simp add: index_def)
  moreover have "get_be 4 (take 4 (drop 12 buf)) = Some (announced_len buf)"
    "get_be 8 (take 8 (drop 4 buf)) = Some (be_word (take 8 (drop 4 buf)) :: 64 word)"
    using assms(1) by (simp_all add: get_be_def announced_len_def)
  ultimately show ?thesis using assms(1) by (simp add: UnpackResponse_def Let_def)
qed

text \<open>A response as a dubbo server writes it: the value stands between a type line and a newline.\<close>

definition dubbo_response :: "byte \<Rightarrow> byte \<Rightarrow> 64 word \<Rightarrow> bytes \<Rightarrow> bytes" where
  "dubbo_response flags status reqid d =
     [MAGIC_HIGH, MAGIC_LOW, flags, status] @ be_bytes 8 reqid @ be_bytes 4 (of_nat (length d + 3) :: 32 word) @
     [49, LF] @ d @ [LF]"

lemma dubbo_response_length [simp]: "length (dubbo_response flags status reqid d) = 19 + length d"
  by (simp add: dubbo_response_def)

lemma dubbo_response_announced:
  "announced_len (dubbo_response flags status reqid d @ rest) = of_nat (length d + 3)"
  by (simp add: announced_len_def dubbo_response_def be_word_be_bytes_id)

lemma sint_small: "n < 2 ^ 31 \<Longrightarrow> sint (of_nat n :: 32 word) = int n"
  by (simp add: signed_of_nat signed_take_bit_int_eq_self)

lemma slice_middle: "slice_range (p @ d @ t) (int (length p)) (int (length p) + int (length d)) = Some d"
  by (simp add: slice_range_def nat_add_distrib)

lemma UnpackResponse_response:
  assumes "length (dubbo_response flags status reqid d @ rest) < 2 ^ 31"
  shows "UnpackResponse (dubbo_response flags status reqid d @ rest) =
    Some (rest, Some \<lparr>rs_ID = reqid, rs_Status = status, rs_Data = d\<rparr>, None)"
proof -
  let ?buf = "dubbo_response flags status reqid d @ rest"
  have tt: "announced_len ?buf + 16 = of_nat (19 + length d)" "announced_len ?buf + 16 - 1 = of_nat (18 + length d)"
    unfolding dubbo_response_announced by simp_all
  have s1: "sint (announced_len ?buf + 16) = int (19 + length d)"
    unfolding tt(1) using assms by (intro sint_small) simp
  have s2: "sint (announced_len ?buf + 16 - 1) = int (18 + length d)"
    unfolding tt(2) using assms by (intro sint_small) simp
  let ?p = "[MAGIC_HIGH, MAGIC_LOW, flags, status] @ be_bytes 8 reqid @ be_bytes 4 (of_nat (length d + 3) :: 32 word) @ [49, LF]"
  have buf: "?buf = ?p @ d @ LF # rest" unfolding dubbo_response_def by (simp only: append_assoc append_Cons append_Nil)
  have "length ?p = 18" by simp
  with slice_middle [of ?p d "LF # rest"] buf have "slice_range ?buf 18 (int (18 + length d)) = Some d" by simp
  moreover have "slice_from ?buf (int (19 + length d)) = Some rest"
    using slice_from_nat [of "19 + length d" ?buf] by simp
  moreover have "be_word (take 8 (drop 4 ?buf)) = reqid" "?buf ! 3 = status"
    by (simp_all add: dubbo_response_def be_word_be_bytes_id)
  ultimately show ?thesis
    using assms by (subst UnpackResponse_long) (simp_all only: s1 s2 Let_def, simp_all)
qed

lemma UnpackResponse_panics:
  assumes "16 \<le> length buf" and "length buf < 2 ^ 31" and "sint (announced_len buf) < 3"
    and "sint (announced_len buf) + 16 \<le> int (length buf)"
  shows "UnpackResponse buf = None"
proof -
  have ge: "- (2 ^ 31) \<le> sint (announced_len buf)" using sint_ge [of "announced_len buf"] by simp
  have 1: "sint (announced_len buf + 16) = sint (announced_len buf) + 16"
    using assms(3) ge by (simp add: sint_word_ariths signed_take_bit_int_eq_self)
  have "announced_len buf + 16 - 1 = announced_len buf + 15" by simp
  moreover have "sint (announced_len buf + 15) = sint (announced_len buf) + 15"
    using assms(3) ge by (simp add: sint_word_ariths signed_take_bit_int_eq_self)
  ultimately have 2: "sint (announced_len buf + 16 - 1) = sint (announced_len buf) + 15" by (simp only:)
  have "slice_range buf 18 (sint (announced_len buf) + 15) = None" using assms(3) by (simp add: slice_range_def)
  with 1 2 assms show ?thesis by (simp add: UnpackResponse_long)
qed

subsection \<open>Hessian strings\<close>

text \<open>Readers that follow the grammar: \<open>n\<close> runes, and a chunked string.\<close>

fun read_runes :: "nat \<Rightarrow> bytes \<Rightarrow> rune list \<times> bytes" where
  "read_runes 0 p = ([], p)"
| "read_runes (Suc n) p =
     (if p = [] then ([], [])
      else let (r, w) = DecodeRune p; (rs, p') = read_runes n (drop w p) in (r # rs, p'))"

lemma read_runes_utf8:
  "list_all valid_rune rs \<Longrightarrow> read_runes (length rs) (utf8 rs @ p) = (rs, p)"
  by (induction rs) (auto simp: DecodeRune_EncodeRune)

lemma read_runes_shorter: "length (snd (read_runes n p)) \<le> length p"
proof (induction n arbitrary: p)
  case (Suc n)
  have "length (snd (read_runes n (drop w p))) \<le> length p" for w using Suc [of "drop w p"] by simp
  then show ?case by (auto split: prod.splits) (metis snd_conv)
qed simp

function read_hessian :: "bytes \<Rightarrow> (rune list \<times> bytes) option" where
  "read_hessian p =
     (case p of
        [] \<Rightarrow> None
      | b # s \<Rightarrow>
          if unat b \<le> 0x1f then Some (read_runes (unat b) s)
          else if 0x30 \<le> unat b \<and> unat b \<le> 0x33 then
            (case s of [] \<Rightarrow> None | l # t \<Rightarrow> Some (read_runes ((unat b - 0x30) * 256 + unat l) t))
          else if b = BC_STRING then
            (case s of h # l # t \<Rightarrow> Some (read_runes (unat h * 256 + unat l) t) | _ \<Rightarrow> None)
          else if b = BC_STRING_CHUNK then
            (case s of
               h # l # t \<Rightarrow>
                 let (rs, t') = read_runes (unat h * 256 + unat l) t
                 in map_option (\<lambda>(rs', q). (rs @ rs', q)) (read_hessian t')
             | _ \<Rightarrow> None)
          else None)"
  by pat_completeness auto
termination
proof (relation "measure length")
  fix p b s h u l t x rs t'
  assume "p = b # s" "s = h # u" "u = l # t" "x = read_runes (unat h * 256 + unat l) t" "(rs, t') = x"
  then show "(t', p) \<in> measure length"
    using read_runes_shorter [of "unat h * 256 + unat l" t] by (metis in_measure le_imp_less_Suc length_Cons less_SucI snd_conv)
qed simp

declare read_hessian.simps [simp del]

lemma vChunk_utf8:
  "list_all valid_rune rs \<Longrightarrow> vChunk (length rs) (utf8 rs @ p) b = (p, b @ utf8 rs)"
  by (induction rs arbitrary: b) (auto simp: DecodeRune_EncodeRune)

lemma ucast_u16_of_nat: "n < 65536 \<Longrightarrow> (ucast (of_nat n :: 16 word) :: byte) = of_nat n"
  by (rule word_unat_eq_iff [THEN iffD2]) (simp add: unsigned_ucast_eq unsigned_of_nat take_bit_take_bit)

lemma drop_bit_u16_of_nat: "n < 65536 \<Longrightarrow> drop_bit 8 (of_nat n :: 16 word) = of_nat (n div 256)"
  by (rule word_unat_eq_iff [THEN iffD2]) (simp add: drop_bit_eq_div unat_div unsigned_of_nat take_bit_eq_mod)

lemma be_bytes_u16: "n < 65536 \<Longrightarrow> be_bytes 2 (of_nat n :: 16 word) = [of_nat (n div 256), of_nat n]"
  by (simp add: be_bytes_def numeral_2_eq_2 ucast_u16_of_nat drop_bit_u16_of_nat)

lemma unat_u16_bytes: "n < 65536 \<Longrightarrow> unat (of_nat (n div 256) :: byte) * 256 + unat (of_nat n :: byte) = n"
  by (simp add: unsigned_of_nat take_bit_eq_mod div_mult_mod_eq)

text \<open>The head that announces \<open>n\<close> runes in a last chunk.\<close>

definition string_head :: "nat \<Rightarrow> bytes" where
  "string_head n =
     (if n \<le> 0x1f then [of_nat n]
      else if n \<le> 0x3ff then [of_nat (n div 256 + 0x30), of_nat n]
      else BC_STRING # be_bytes 2 (of_nat n :: 16 word))"

lemma enc_string_chunk:
  assumes "list_all valid_rune hs" and "list_all valid_rune ts" and "length hs = CHUNK_SIZE" and "ts \<noteq> []"
  shows "enc_string_loop (utf8 (hs @ ts)) b =
    enc_string_loop (utf8 ts) (b @ BC_STRING_CHUNK # be_bytes 2 (of_nat CHUNK_SIZE :: 16 word) @ utf8 hs)"
proof -
  have "RuneCount (utf8 (hs @ ts)) = length (hs @ ts)" using assms(1,2) by (intro RuneCount_utf8) simp
  with assms(3) have cnt: "RuneCount (utf8 (hs @ ts)) = CHUNK_SIZE + length ts" by simp
  have "0 < length ts" using assms(4) by simp
  moreover have "vChunk CHUNK_SIZE (utf8 (hs @ ts)) b' = (utf8 ts, b' @ utf8 hs)" for b'
    using vChunk_utf8 [OF assms(1), of "utf8 ts" b'] assms(3) by simp
  ultimately show ?thesis
    unfolding enc_string_loop.simps [of "utf8 (hs @ ts)"] cnt
    by (simp add: encByte_def PackUint16_def Let_def del: utf8_simps(3))
qed

lemma enc_string_last:
  assumes "list_all valid_rune rs" and "rs \<noteq> []" and "length rs \<le> CHUNK_SIZE"
  shows "enc_string_loop (utf8 rs) b = b @ string_head (length rs) @ utf8 rs"
proof -
  have "enc_string_loop [] b' = b'" for b' by (subst enc_string_loop.simps) (simp add: RuneCount_0)
  moreover have "vChunk (length rs) (utf8 rs) b' = ([], b' @ utf8 rs)" for b'
    using vChunk_utf8 [OF assms(1), of "[]" b'] by simp
  ultimately show ?thesis
    using RuneCount_utf8 [OF assms(1)] assms(2,3)
    by (subst enc_string_loop.simps) (simp add: encByte_def PackUint16_def string_head_def Let_def)
qed

lemma read_hessian_last:
  assumes "list_all valid_rune rs" and "length rs \<le> CHUNK_SIZE"
  shows "read_hessian (string_head (length rs) @ utf8 rs @ t) = Some (rs, t)"
proof -
  let ?n = "length rs"
  consider "?n \<le> 0x1f" | "0x1f < ?n" "?n \<le> 0x3ff" | "0x3ff < ?n" by linarith
  then show ?thesis
  proof cases
    case 1
    then show ?thesis
      using read_runes_utf8 [OF assms(1)] unat_byte [of ?n]
      by (subst read_hessian.simps) (simp add: string_head_def)
  next
    case 2
    then have "?n div 256 < 4" by auto
    then have "unat (of_nat (?n div 256 + 0x30) :: byte) = ?n div 256 + 0x30" "unat (of_nat ?n :: byte) = ?n mod 256"
      using unat_byte [of "?n div 256 + 0x30"] by (simp_all add: unsigned_of_nat take_bit_eq_mod del: of_nat_add)
    with 2 \<open>?n div 256 < 4\<close> show ?thesis
      using read_runes_utf8 [OF assms(1)]
      by (subst read_hessian.simps) (simp add: string_head_def del: of_nat_add)
  next
    case 3
    then show ?thesis
      using read_runes_utf8 [OF assms(1)] unat_u16_bytes [of ?n] assms(2)
      by (subst read_hessian.simps) (simp add: string_head_def be_bytes_u16)
  qed
qed

lemma enc_string_read:
  assumes "list_all valid_rune rs" and "rs \<noteq> []"
  shows "\<exists>e. enc_string_loop (utf8 rs) b = b @ e \<and> (\<forall>t. read_hessian (e @ t) = Some (rs, t))"
  using assms
proof (induction "length rs" arbitrary: rs b rule: less_induct)
  case less
  show ?case
  proof (cases "CHUNK_SIZE < length rs")
    case True
    define hs ts where "hs = take CHUNK_SIZE rs" and "ts = drop CHUNK_SIZE rs"
    then have rs: "rs = hs @ ts" by simp
    let ?c = "BC_STRING_CHUNK # be_bytes 2 (of_nat CHUNK_SIZE :: 16 word) @ utf8 hs"
    have v: "list_all valid_rune hs" "list_all valid_rune ts" using less.prems(1) rs by simp_all
    from True have len: "length hs = CHUNK_SIZE" "ts \<noteq> []" "length ts < length rs" by (simp_all add: hs_def ts_def)
    from less.hyps [OF len(3) v(2) len(2), of "b @ ?c"] obtain e where
      e: "enc_string_loop (utf8 ts) (b @ ?c) = (b @ ?c) @ e" "\<And>t. read_hessian (e @ t) = Some (ts, t)" by blast
    have "read_hessian (?c @ e @ t) = Some (hs @ ts, t)" for t
    proof -
      have "be_bytes 2 (of_nat CHUNK_SIZE :: 16 word) = [16, 0]" using be_bytes_u16 [of CHUNK_SIZE] by simp
      moreover have "read_runes CHUNK_SIZE (utf8 hs @ e @ t) = (hs, e @ t)"
        using read_runes_utf8 [OF v(1), of "e @ t"] len(1) by simp
      ultimately show ?thesis
        using e(2) [of t] by (subst read_hessian.simps) simp
    qed
    with enc_string_chunk [OF v len(1,2), of b] e(1) show ?thesis
      unfolding rs by (intro exI [of _ "?c @ e"]) (simp del: utf8_simps(3))
  next
    case False
    with enc_string_last [OF less.prems, of b] read_hessian_last [OF less.prems(1)] show ?thesis by auto
  qed
qed

subsection \<open>Hessian byte strings\<close>

function read_binary :: "bytes \<Rightarrow> (bytes \<times> bytes) option" where
  "read_binary p =
     (case p of
        [] \<Rightarrow> None
      | b # s \<Rightarrow>
          if b = BC_NULL then Some ([], s)
          else if 0x20 \<le> unat b \<and> unat b \<le> 0x2f then Some (take (unat b - 0x20) s, drop (unat b - 0x20) s)
          else if 0x34 \<le> unat b \<and> unat b \<le> 0x37 then
            (case s of
               [] \<Rightarrow> None
             | l # t \<Rightarrow> let n = (unat b - 0x34) * 256 + unat l in Some (take n t, drop n t))
          else if b = BC_BINARY then
            (case s of h # l # t \<Rightarrow> let n = unat h * 256 + unat l in Some (take n t, drop n t) | _ \<Rightarrow> None)
          else if b = BC_BINARY_CHUNK then
            (case s of
               h # l # t \<Rightarrow>
                 let n = unat h * 256 + unat l
                 in map_option (\<lambda>(v, q). (take n t @ v, q)) (read_binary (drop n t))
             | _ \<Rightarrow> None)
          else None)"
  by pat_completeness auto
termination
  by (relation "measure length") auto

declare read_binary.simps [simp del]

definition binary_head :: "nat \<Rightarrow> bytes" where
  "binary_head n =
     (if n \<le> 0x0f then [of_nat (0x20 + n)]
      else if n \<le> 0x3ff then [of_nat (0x34 + n div 256), of_nat n]
      else [BC_BINARY, of_nat (n div 256), of_nat n])"

lemma enc_binary_last:
  assumes "v \<noteq> []" and "length v \<le> CHUNK_SIZE"
  shows "enc_binary_loop v b = b @ binary_head (length v) @ v"
proof -
  have "enc_binary_loop [] b' = b'" for b' by (simp add: enc_binary_loop.simps)
  with assms show ?thesis
    by (subst enc_binary_loop.simps) (simp add: encByte_def binary_head_def Let_def)
qed

lemma enc_binary_chunk:
  assumes "length hs = CHUNK_SIZE" and "ts \<noteq> []"
  shows "enc_binary_loop (hs @ ts) b = enc_binary_loop ts (b @ BC_BINARY_CHUNK # 16 # 0 # hs)"
proof -
  have "be_bytes 2 (of_nat CHUNK_SIZE :: 16 word) = [16, 0]" using be_bytes_u16 [of CHUNK_SIZE] by simp
  moreover have "0 < length ts" using assms(2) by simp
  ultimately show ?thesis
    using assms(1) unfolding enc_binary_loop.simps [of "hs @ ts"] by (simp add: encByte_def Let_def)
qed

lemma read_binary_last:
  assumes "length v \<le> CHUNK_SIZE"
  shows "read_binary (binary_head (length v) @ v @ t) = Some (v, t)"
proof -
  let ?n = "length v"
  consider "?n \<le> 0x0f" | "0x0f < ?n" "?n \<le> 0x3ff" | "0x3ff < ?n" by linarith
  then show ?thesis
  proof cases
    case 1
    then have "unat (of_nat (0x20 + ?n) :: byte) = 0x20 + ?n" by (intro unat_byte) simp
    moreover from this have "(of_nat (0x20 + ?n) :: byte) \<noteq> BC_NULL" using 1 by (auto simp del: of_nat_add)
    ultimately show ?thesis using 1
      by (subst read_binary.simps) (simp add: binary_head_def del: of_nat_add)
  next
    case 2
    then have "?n div 256 < 4" by auto
    then have "unat (of_nat (0x34 + ?n div 256) :: byte) = 0x34 + ?n div 256" by (intro unat_byte) simp
    moreover from this have "(of_nat (0x34 + ?n div 256) :: byte) \<noteq> BC_NULL" using \<open>?n div 256 < 4\<close> by (auto simp del: of_nat_add)
    moreover have "unat (of_nat ?n :: byte) = ?n mod 256" by (simp add: unsigned_of_nat take_bit_eq_mod)
    ultimately show ?thesis using 2 \<open>?n div 256 < 4\<close>
      by (subst read_binary.simps) (simp add: binary_head_def Let_def del: of_nat_add)
  next
    case 3
    then show ?thesis
      using unat_u16_bytes [of ?n] assms
      by (subst read_binary.simps) (simp add: binary_head_def Let_def)
  qed
qed

lemma enc_binary_read:
  assumes "v \<noteq> []"
  shows "\<exists>e. enc_binary_loop v b = b @ e \<and> (\<forall>t. read_binary (e @ t) = Some (v, t))"
  using assms
proof (induction "length v" arbitrary: v b rule: less_induct)
  case less
  show ?case
  proof (cases "CHUNK_SIZE < length v")
    case True
    define hs ts where "hs = take CHUNK_SIZE v" and "ts = drop CHUNK_SIZE v"
    then have v: "v = hs @ ts" by simp
    let ?c = "BC_BINARY_CHUNK # 16 # 0 # hs"
    from True have len: "length hs = CHUNK_SIZE" "ts \<noteq> []" "length ts < length v" by (simp_all add: hs_def ts_def)
    from less.hyps [OF len(3,2), of "b @ ?c"] obtain e where
      e: "enc_binary_loop ts (b @ ?c) = (b @ ?c) @ e" "\<And>t. read_binary (e @ t) = Some (ts, t)" by blast
    have "read_binary (?c @ e @ t) = Some (hs @ ts, t)" for t
      using e(2) [of t] len(1) by (subst read_binary.simps) (simp add: Let_def)
    with enc_binary_chunk [OF len(1,2), of b] e(1) show ?thesis
      unfolding v by (intro exI [of _ "?c @ e"]) simp
  next
    case False
    with enc_binary_last [OF less.prems, of b] read_binary_last [of v] show ?thesis by auto
  qed
qed

subsection \<open>Properties\<close>

lemma length_json_chars: "length (json_chars p) \<le> 6 * length p"
proof (induction p rule: json_chars.induct)
  case (1 p)
  show ?case
  proof (cases p)
    case (Cons b s)
    obtain c n where d: "DecodeRune p = (c, n)" by fastforce
    with DecodeRune_size [of p] Cons have n: "1 \<le> n" "n \<le> length p" by simp_all
    show ?thesis
    proof (cases "unat b < 0x80")
      case True
      then have "json_chars p = (if htmlSafe b then [b] else json_escape b) @ json_chars s"
        using Cons by (subst json_chars.simps) simp
      moreover have "length (if htmlSafe b then [b] else json_escape b) \<le> 6" by (simp add: json_escape_def)
      moreover have "length (json_chars s) \<le> 6 * length s" using 1(1) [OF Cons True] .
      ultimately show ?thesis using Cons by simp
    next
      case False
      have "length (json_chars (drop n p)) \<le> 6 * length (drop n p)" using 1(2) [OF Cons False d [symmetric]] by simp
      moreover have "\<exists>h. json_chars p = h @ json_chars (drop n p) \<and> length h \<le> 6 * n"
        using n False d by (subst json_chars.simps) (simp add: Cons str_def)
      ultimately show ?thesis using n by auto
    qed
  qed (simp add: json_chars.simps)
qed

definition ex_request :: Message where
  "ex_request =
     \<lparr>m_ID = 7, m_Version = [], m_Type = 2, m_ServicePath = [], m_Interface = utf8 [97], m_Method = utf8 [34, 10],
      m_Data = Some \<lparr>ri_Method = [], ri_ParameterTypes = utf8 [], ri_Args = utf8 [0x4e16], ri_Attachments = None\<rparr>\<rparr>"



text \<open>
  A response whose announced body is shorter than the three bytes around the value makes
  \<^verbatim>\<open>UnpackResponse\<close> slice with an end before its start: as soon as the announced bytes are there, it panics.
\<close>

lemma dubbo_response_short_panics:
  assumes "16 \<le> length buf" and "length buf < 2 ^ 31" and "sint (announced_len buf) < 3"
    and "sint (announced_len buf) + 16 \<le> int (length buf)"
  shows "UnpackResponse buf = None"
  using assms by (rule UnpackResponse_panics)

lemma dubbo_response_short_panics_witness:
  "UnpackResponse [0xda, 0xbb, 6, 20, 0, 0, 0, 0, 0, 0, 0, 0, 0, 0, 0, 2, 49, 10] = None"
  by (rule dubbo_response_short_panics) (simp_all add: announced_len_def be_word_def)

text \<open>
  C19: the hessian encoder is undone by the grammar it names, for texts and byte strings of any length:
  what it appends to the buffer, followed by anything, reads back as exactly the runes or bytes encoded, with the
  chunks of 4096 put together again.
\<close>

theorem hessian_roundtrip:
  assumes "list_all valid_rune rs"
  shows "(\<exists>e. encString (utf8 rs) b = b @ e \<and> (\<forall>t. read_hessian (e @ t) = Some (rs, t))) \<and>
    (\<exists>e. encBinary v b = b @ e \<and> (\<forall>t. read_binary (e @ t) = Some (v, t)))"
proof
  show "\<exists>e. encString (utf8 rs) b = b @ e \<and> (\<forall>t. read_hessian (e @ t) = Some (rs, t))"
  proof (cases "rs = []")
    case True
    then show ?thesis by (intro exI [of _ "[0]"]) (simp add: encString_def encByte_def read_hessian.simps)
  next
    case False
    then have "utf8 rs \<noteq> []" by (cases rs) (simp_all add: EncodeRune_def Let_def)
    then show ?thesis using enc_string_read [OF assms False, of b] by (simp add: encString_def)
  qed
  show "\<exists>e. encBinary v b = b @ e \<and> (\<forall>t. read_binary (e @ t) = Some (v, t))"
  proof (cases "v = []")
    case True
    then show ?thesis by (intro exI [of _ "[BC_NULL]"]) (simp add: encBinary_def encByte_def read_binary.simps)
  next
    case False
    then show ?thesis using enc_binary_read [OF False, of b] by (simp add: encBinary_def)
  qed
qed

theorem hessian_roundtrip_witness:
  "(\<exists>e. encString (utf8 [0x4e16]) [1] = [1] @ e \<and> (\<forall>t. read_hessian (e @ t) = Some ([0x4e16], t))) \<and>
   (\<exists>e. encBinary (replicate 5000 7) [1] = [1] @ e \<and> (\<forall>t. read_binary (e @ t) = Some (replicate 5000 7, t)))"
  by (rule hessian_roundtrip) (simp add: valid_rune_def)

end
