(* ===== verification/Loop_User.thy ===== *)
theory Loop_User
  imports Loop_Invariant
begin

text \<open>
  Invariants of the state that the users of the event loop keep beside it: the connection pools, request
  tables and queues of the agents. The event loop touches that state only through the event handlers, so an
  invariant over the user state and the contexts of the connections holds as long as the handlers keep it. The
  locale \<open>user_invariant\<close> says this once for the clients, which run without listeners.
\<close>

text \<open>What such an invariant may look at.\<close>

definition user_view :: "('u, 'x) server \<Rightarrow> 'u \<times> cid \<times> (cid \<Rightarrow> 'x option option) \<times> listener list" where
  "user_view s = (s_user s, s_next s, \<lambda>cid. map_option c_ctx (s_heap s cid), s_lns s)"

lemma user_view_eqD: "user_view s' = user_view s \<Longrightarrow> s_user s' = s_user s \<and> s_lns s' = s_lns s \<and> s_next s' = s_next s"
  by (simp add: user_view_def)

lemma user_view_simps [simp]:
  "user_view (upd_loop i g s) = user_view s"
  "user_view (upd_poll i h s) = user_view s"
  "user_view (tick s) = user_view s"
  "user_view (sys_close i fd s) = user_view s"
  "user_view (put_notes i q s) = user_view s"
  "user_view (s\<lparr>s_wire := w\<rparr>) = user_view s"
  "user_view (s\<lparr>s_tch := t\<rparr>) = user_view s"
  "user_view (s\<lparr>s_accepted := a\<rparr>) = user_view s"
  by (simp_all add: user_view_def sys_close_def put_notes_def)

lemma user_view_upd_conn [simp]: "(\<And>c. c_ctx (f c) = c_ctx c) \<Longrightarrow> user_view (upd_conn cid f s) = user_view s"
  by (auto simp: user_view_def fun_eq_iff option.map_comp comp_def)

lemma user_view_sys_write: "sys_write K fd data s = (n, err, s') \<Longrightarrow> user_view s' = user_view s"
  by (auto simp: sys_write_def split: sum.splits)

lemma user_view_conn_Send:
  assumes "conn_Send K cid data s = Some s'"
  shows "user_view s' = user_view s"
proof -
  from assms obtain c where c: "s_heap s cid = Some c" by (auto simp: conn_Send_def split: bind_splits)
  define s1 where "s1 = (if c_out c \<noteq> None then upd_conn cid (\<lambda>c. c\<lparr>c_out := append_out (c_out c) data\<rparr>) s else s)"
  obtain n err s2 where w: "sys_write K (c_fd c) data s1 = (n, err, s2)" by (cases "sys_write K (c_fd c) data s1")
  have v: "user_view s2 = user_view s" using user_view_sys_write [OF w] by (simp add: s1_def)
  show ?thesis
    using assms c w v unfolding s1_def
    by (cases "c_out c") (auto simp: conn_Send_def Let_def split: bind_splits if_splits)
qed

lemma user_view_opened_addr: "opened_addr cid s = Some s' \<Longrightarrow> user_view s' = user_view s"
  by (auto simp: opened_addr_def split: bind_splits if_splits)

text \<open>An outgoing connection adds one object with the given context.\<close>

lemma outConnect_view:
  assumes "outConnect K addr port ctx s = Some (res, err, s')"
  shows "s_user s' = s_user s \<and> s_lns s' = s_lns s \<and>
    (case res of
       None \<Rightarrow> user_view s' = user_view s \<and> err \<noteq> None
     | Some cid \<Rightarrow> cid = s_next s \<and> s_next s' = Suc cid \<and>
         (\<forall>x. map_option c_ctx (s_heap s' x) = (if x = cid then Some ctx else map_option c_ctx (s_heap s x))))"
proof -
  have ch: "user_view s2 = user_view s1" if "choose_loop K s1 = (idx, s2)" for s1 s2 :: "('a, 'b) server" and idx
    using that by (auto simp: choose_loop_def Let_def split: if_splits LoadBalance.splits)
  show ?thesis
    using assms
    by (auto simp: outConnect_def Let_def conn_SetContext_def alloc_conn_def user_view_def
        dest!: ch split: if_splits bind_splits prod.splits)
      (metis, metis)
qed

text \<open>The steps of the loops alone.\<close>

inductive loop_step :: "kernel \<Rightarrow> ('u, 'x) Events \<Rightarrow> ('u, 'x) server \<Rightarrow> ('u, 'x) server \<Rightarrow> bool" for K Ev where
  step_notes: "i < length (s_loops s) \<Longrightarrow>
    nq_ForEach (loop_notes i) (put_notes i) (\<lambda>n. loop_event K Ev i 0 (Some n) 0) s = Some (err, s') \<Longrightarrow> loop_step K Ev s s'"
| step_event: "i < length (s_loops s) \<Longrightarrow> loop_event K Ev i fd None ev s = Some (err, s') \<Longrightarrow> loop_step K Ev s s'"

lemma loop_step_ev_step: "loop_step K Ev s s' \<Longrightarrow> ev_step K Ev s s'"
  by (cases rule: loop_step.cases) (auto intro: ev_step.intros)

locale user_invariant =
  fixes Ev :: "('u, 'x) Events"
    and I :: "('u, 'x) server \<Rightarrow> bool"
  assumes I_view: "user_view s' = user_view s \<Longrightarrow> I s' = I s"
    and I_clients: "I s \<Longrightarrow> s_lns s = []"
    and opened_I: "ev_Opened Ev = Some f1 \<Longrightarrow> I s \<Longrightarrow> f1 cid s = Some (out, opts, a, s') \<Longrightarrow> I s'"
    and closed_I: "ev_Closed Ev = Some f2 \<Longrightarrow> I s \<Longrightarrow> f2 cid e s = Some (a, s') \<Longrightarrow> I s'"
    and detached_I: "ev_Detached Ev = Some f3 \<Longrightarrow> I s \<Longrightarrow> f3 cid fd s = Some (a, s') \<Longrightarrow> I s'"
    and data_I: "ev_Data Ev = Some f4 \<Longrightarrow> I s \<Longrightarrow> f4 cid packet s = Some (out, a, s') \<Longrightarrow> I s'"
    and tick_I: "ev_Tick Ev = Some f5 \<Longrightarrow> I s \<Longrightarrow> f5 s = Some (delay, a, s') \<Longrightarrow> I s'"
begin

lemma I_simps:
  "I (upd_loop i g s) = I s" "I (upd_poll i h s) = I s" "I (tick s) = I s" "I (sys_close i fd s) = I s"
  "I (put_notes i q s) = I s" "I (s\<lparr>s_tch := t\<rparr>) = I s"
  "(\<And>c. c_ctx (u c) = c_ctx c) \<Longrightarrow> I (upd_conn cid u s) = I s"
  by (rule I_view, simp)+

lemma sys_write_I: "sys_write K fd data s = (n, err, s') \<Longrightarrow> I s' = I s"
  by (rule I_view) (rule user_view_sys_write)

lemma conn_Send_I: "I s \<Longrightarrow> conn_Send K cid data s = Some s' \<Longrightarrow> I s'"
  by (metis I_view user_view_conn_Send)

lemma loopCloseConn_I:
  assumes "I s" and "loopCloseConn Ev i cid e s = Some (err, s')"
  shows "I s'"
proof -
  from assms(2) obtain c where c: "s_heap s cid = Some c" by (auto simp: loopCloseConn_def split: bind_splits)
  define s1 where "s1 = sys_close i (c_fd c) (upd_loop i (\<lambda>l. l\<lparr>l_fdconns := (l_fdconns l)(c_fd c := None)\<rparr>)
    (upd_loop i (\<lambda>l. l\<lparr>l_count := l_count l + (-1)\<rparr>) s))"
  have I1: "I s1" using assms(1) by (simp add: s1_def I_simps)
  show ?thesis
  proof (cases "ev_Closed Ev")
    case None
    with assms(2) c I1 show ?thesis by (simp add: loopCloseConn_def s1_def)
  next
    case (Some f)
    with assms(2) c obtain a where "f cid e s1 = Some (a, s')"
      by (auto simp: loopCloseConn_def s1_def split: bind_splits)
    with Some I1 show ?thesis by (rule closed_I)
  qed
qed

lemma loopDetachConn_I:
  assumes "I s" and "loopDetachConn K Ev i cid e s = Some (err, s')"
  shows "I s'"
proof (cases "ev_Detached Ev")
  case None
  with assms show ?thesis by (auto simp: loopDetachConn_def intro: loopCloseConn_I)
next
  case (Some f)
  with assms(2) obtain c where c: "s_heap s cid = Some c" by (auto simp: loopDetachConn_def split: bind_splits)
  define s1 where "s1 = tick (upd_loop i (\<lambda>l. l\<lparr>l_fdconns := (l_fdconns l)(c_fd c := None)\<rparr>)
    (upd_loop i (\<lambda>l. l\<lparr>l_count := l_count l + (-1)\<rparr>) (upd_poll i (ModDetach (c_fd c)) s)))"
  have I1: "I s1" using assms(1) by (simp add: s1_def I_simps)
  have "I s'" if "f cid (c_fd c) s1 = Some (a, s')" for a using Some I1 that by (rule detached_I)
  with Some assms(2) c I1 show ?thesis
    by (auto simp: loopDetachConn_def s1_def Let_def split: bind_splits if_splits)
qed

lemma loopNote_I:
  assumes "I s" and "loopNote Ev n s = Some (err, s')"
  shows "I s'"
proof (cases n)
  case NoteTick
  with assms(2) obtain f delay a s1 where f: "ev_Tick Ev = Some f" "f s = Some (delay, a, s1)"
    and s': "s' = s1\<lparr>s_tch := s_tch s1 @ [delay]\<rparr>"
    by (auto simp: loopNote_def Let_def split: bind_splits)
  have "I s1" using f(1) assms(1) f(2) by (rule tick_I)
  then show ?thesis unfolding s' by (simp add: I_simps)
qed (use assms in \<open>auto simp: loopNote_def\<close>)

lemma opened_event_I:
  assumes "I s" and "opened_event Ev cid s = Some s'"
  shows "I s'"
proof (cases "ev_Opened Ev")
  case None
  with assms show ?thesis by (simp add: opened_event_def)
next
  case (Some f)
  with assms(2) obtain out opts a s1 where f: "f cid s = Some (out, opts, a, s1)"
    by (auto simp: opened_event_def split: bind_splits)
  have "I s1" using Some assms(1) f by (rule opened_I)
  with Some f assms(2) show ?thesis
    by (auto simp: opened_event_def Let_def I_simps split: bind_splits if_splits)
qed

lemma loopOpened_I: "I s \<Longrightarrow> loopOpened K Ev i cid s = Some (err, s') \<Longrightarrow> I s'"
  by (auto simp: loopOpened_def Let_def I_simps split: bind_splits if_splits
      dest!: opened_event_I [rotated] dest: I_view [OF user_view_opened_addr])

lemma loopWrite_I: "I s \<Longrightarrow> loopWrite K Ev i cid s = Some (b, err, s') \<Longrightarrow> I s'"
  by (auto simp: loopWrite_def Let_def I_simps split: bind_splits option.splits if_splits prod.splits
      dest!: sys_write_I dest: loopCloseConn_I)

lemma loopAction_I: "I s \<Longrightarrow> loopAction K Ev i cid s = Some (err, s') \<Longrightarrow> I s'"
  by (auto simp: loopAction_def Let_def I_simps split: bind_splits Action.splits if_splits
      dest: loopCloseConn_I loopDetachConn_I)

lemma loopRead_packet_I:
  assumes "I s" and "loopRead_packet Ev i cid packet s = Some s'"
  shows "I s'"
proof (cases "ev_Data Ev")
  case None
  with assms show ?thesis by (auto simp: loopRead_packet_def read_event_def I_simps split: bind_splits)
next
  case (Some f)
  with assms(2) obtain out a s1 where f: "f cid packet s = Some (out, a, s1)"
    by (auto simp: loopRead_packet_def read_event_def split: bind_splits)
  have "I s1" using Some assms(1) f by (rule data_I)
  with Some f assms(2) show ?thesis
    by (auto simp: loopRead_packet_def read_event_def Let_def I_simps split: bind_splits if_splits)
qed

lemma loopRead_loop_I: "I s \<Longrightarrow> loopRead_loop Ev i cid packets fin s = Some (err, s') \<Longrightarrow> I s'"
proof (induction packets arbitrary: s)
  case Nil
  then show ?case by (auto split: read_end.splits if_splits dest: loopCloseConn_I)
next
  case (Cons packet packets)
  then show ?case by (auto split: bind_splits dest: loopRead_packet_I)
qed

lemma loopRead_I: "I s \<Longrightarrow> loopRead K Ev i cid s = Some (err, s') \<Longrightarrow> I s'"
  by (auto simp: loopRead_def Let_def split: bind_splits prod.splits dest!: loopRead_loop_I [rotated] simp: I_simps)

lemma loop_event_I: "I s \<Longrightarrow> loop_event K Ev i fd nt ev s = Some (err, s') \<Longrightarrow> I s'"
  using I_clients [of s]
  by (auto simp: loop_event_def Let_def I_simps loopAccept_def split: bind_splits option.splits if_splits loop_note.splits
      dest: loopNote_I loopOpened_I loopAction_I loopRead_I)
    (blast dest: loopWrite_I loopRead_I)+

lemma iter_notes_I: "I s \<Longrightarrow> iter_notes (\<lambda>n. loop_event K Ev i 0 (Some n) 0) ns s = Some (err, s') \<Longrightarrow> I s'"
  by (induction ns arbitrary: s) (auto split: bind_splits if_splits dest: loop_event_I)

lemma foreach_I:
  "I s \<Longrightarrow> nq_ForEach (loop_notes i) (put_notes i) (\<lambda>n. loop_event K Ev i 0 (Some n) 0) s = Some (err, s') \<Longrightarrow> I s'"
  by (auto simp: nq_ForEach_def I_simps split: prod.splits dest!: iter_notes_I [rotated])

lemma loop_step_I: "loop_step K Ev s s' \<Longrightarrow> I s \<Longrightarrow> I s'"
  by (cases rule: loop_step.cases) (auto intro: foreach_I loop_event_I)

end

end
