(* ===== verification/Conn_Pool.thy ===== *)
theory Conn_Pool
  imports Loop_User Connection_Manager
begin

text \<open>
  The connection managers of the agents hold outgoing connections of the event loop. \<open>live_pool\<close> relates the two:
  a pool lists live connection objects, none twice. It needs that fewer than \<^verbatim>\<open>1 << 32 - 1\<close> connections were
  made, the range of the index type of the load balancer.
\<close>

definition upd_user :: "('u \<Rightarrow> 'u) \<Rightarrow> ('u, 'x) server \<Rightarrow> ('u, 'x) server" where
  "upd_user f s = s\<lparr>s_user := f (s_user s)\<rparr>"

lemma upd_user_simps [simp]:
  "s_loops (upd_user f s) = s_loops s" "s_next (upd_user f s) = s_next s" "s_heap (upd_user f s) = s_heap s"
  "s_lns (upd_user f s) = s_lns s" "s_wire (upd_user f s) = s_wire s" "s_clock (upd_user f s) = s_clock s"
  "s_user (upd_user f s) = f (s_user s)" "s_balance (upd_user f s) = s_balance s" "s_accepted (upd_user f s) = s_accepted s"
  by (simp_all add: upd_user_def)

lemma upd_user_keeps: "ev_inv s \<Longrightarrow> keeps s (upd_user f s)"
  by (rule keeps_other) simp_all

definition live_pool :: "cid ConnectionManager \<Rightarrow> ('u, 'x) server \<Rightarrow> bool" where
  "live_pool cm s \<longleftrightarrow> (s_next s < 4294967295 \<longrightarrow>
     cm_inv cm \<and> list_all (\<lambda>cid. cid < s_next s \<and> s_heap s cid \<noteq> None) (cm_connList cm))"

text \<open>No connection object disappears.\<close>

definition extends :: "('u, 'x) server \<Rightarrow> ('v, 'x) server \<Rightarrow> bool" where
  "extends s s' \<longleftrightarrow> s_next s \<le> s_next s' \<and> (\<forall>cid. s_heap s cid \<noteq> None \<longrightarrow> s_heap s' cid \<noteq> None)"

lemma extends_refl: "extends s s"
  by (simp add: extends_def)

lemma extends_trans: "extends s s' \<Longrightarrow> extends s' s'' \<Longrightarrow> extends s s''"
  by (auto simp: extends_def)

lemma map_option_live: "map_option f x = map_option f y \<Longrightarrow> (x = None) = (y = None)"
  by (cases x; cases y) auto

lemma user_view_extends:
  assumes "user_view s' = user_view s"
  shows "extends s s'"
proof -
  have "map_option c_ctx (s_heap s' cid) = map_option c_ctx (s_heap s cid)" for cid
    using assms by (auto simp: user_view_def dest: fun_cong)
  from map_option_live [OF this] assms show ?thesis by (auto simp: extends_def user_view_def)
qed

lemma outConnect_extends:
  assumes "outConnect K addr port ctx s = Some (res, err, s')"
  shows "extends s s'"
proof (cases res)
  case None
  with outConnect_view [OF assms] show ?thesis by (auto intro: user_view_extends)
next
  case (Some cid)
  with outConnect_view [OF assms] have n: "s_next s' = Suc (s_next s)" "cid = s_next s"
    and x: "map_option c_ctx (s_heap s' x) = (if x = cid then Some ctx else map_option c_ctx (s_heap s x))" for x by auto
  have "s_heap s' x \<noteq> None" if "s_heap s x \<noteq> None" for x
    using x [of x] that by (cases "x = cid") (auto dest: map_option_live)
  with n show ?thesis by (simp add: extends_def)
qed

lemma live_pool_extends: "live_pool cm s \<Longrightarrow> extends s s' \<Longrightarrow> live_pool cm s'"
  by (auto simp: live_pool_def extends_def list_all_iff)

lemma live_pool_view: "user_view s' = user_view s \<Longrightarrow> live_pool cm s' = live_pool cm s"
  using live_pool_extends [OF _ user_view_extends, of cm s s'] live_pool_extends [OF _ user_view_extends, of cm s' s] by auto

lemma live_pool_simps [simp]:
  "live_pool cm (upd_user f s) = live_pool cm s" "live_pool cm (upd_conn cid g s) = live_pool cm s"
  "live_pool cm (conn_SetContext ctx cid s) = live_pool cm s"
  by (auto simp: live_pool_def list_all_iff conn_SetContext_def)

lemma live_pool_new: "live_pool new_ConnectionManager s"
  by (simp add: live_pool_def new_ConnectionManager_inv) (simp add: new_ConnectionManager_def)

lemma live_pool_add:
  assumes "live_pool cm s" and "outConnect K addr port ctx s = Some (Some cid, err, s')"
    and "AddConnection cid cm = Some (k, cm')"
  shows "live_pool cm' s'"
proof -
  from outConnect_view [OF assms(2)] have cid: "cid = s_next s" "s_next s' = Suc cid"
    and "map_option c_ctx (s_heap s' cid) = Some ctx" by auto
  then have live: "s_heap s' cid \<noteq> None" by auto
  have ext: "extends s s'" using assms(2) by (rule outConnect_extends)
  have "cm_inv cm' \<and> list_all (\<lambda>c. c < s_next s' \<and> s_heap s' c \<noteq> None) (cm_connList cm')" if n: "s_next s' < 4294967295"
  proof -
    from assms(1) n cid have inv: "cm_inv cm" and small: "list_all (\<lambda>c. c < s_next s \<and> s_heap s c \<noteq> None) (cm_connList cm)"
      by (auto simp: live_pool_def)
    from small have "set (cm_connList cm) \<subseteq> {..<s_next s}" by (auto simp: list_all_iff)
    moreover have "distinct (cm_connList cm)" using inv by (simp add: cm_inv_def)
    ultimately have "length (cm_connList cm) \<le> s_next s"
      by (metis card_lessThan card_mono distinct_card finite_lessThan)
    moreover have "s_next s \<notin> set (cm_connList cm)" using small by (auto simp: list_all_iff)
    ultimately have "cm_connList cm' = cm_connList cm @ [cid]" "cm_inv cm'"
      using AddConnection_inv [OF inv, of cid] n cid assms(3) by auto
    with small cid live ext show ?thesis by (auto simp: list_all_iff extends_def)
  qed
  then show ?thesis by (simp add: live_pool_def)
qed

lemma live_pool_delete: "live_pool cm s \<Longrightarrow> DeleteConnection c cm = Some (k, cm') \<Longrightarrow> live_pool cm' s"
  using DeleteConnection_inv [of cm c] by (auto simp: live_pool_def list_all_iff dest: set_remove1_subset [THEN subsetD])

lemma live_pool_get: "live_pool cm s \<Longrightarrow> GetConnection cm = Some (r, k, cm') \<Longrightarrow> live_pool cm' s"
  using GetConnection_inv [of cm] by (auto simp: live_pool_def)

end
