(* ===== verification/Dubbo_Agent.thy ===== *)
theory Dubbo_Agent
  imports Dubbo_Codec Server_Events Conn_Pool
begin

text \<open>
  \<^verbatim>\<open>dubbo_agent.go\<close>, the provider's client of the local dubbo server, and \<^verbatim>\<open>local_agent.go\<close>, the worker between the
  agent server and this client. The first part is the reader of the response stream (\<open>dubbo_Data\<close>), an instance
  of \<open>stream_handler\<close> and \<open>packet_stream\<close>. The second part is the pool of connections: \<^verbatim>\<open>GetConnection\<close> with the
  loop that connects until it succeeds, and the event handlers of \<^verbatim>\<open>CreateDubboEvent\<close> over the event loop
  (\<open>callbacks\<close>, \<open>user_invariant\<close>). The third part is the provider, two event loops and their workers, as the
  step relation \<open>pv_step\<close>.
\<close>

subsection \<open>Responses\<close>

record DubboContext =
  dc_is :: InputStream

definition new_DubboContext :: DubboContext where
  "new_DubboContext = \<lparr>dc_is = \<lparr>is_b = []\<rparr>\<rparr>"

definition dubbo_Opened :: "DubboContext option \<Rightarrow> DubboContext option \<times> bytes \<times> Options \<times> Action" where
  "dubbo_Opened lastCtx =
     (case lastCtx of None \<Rightarrow> Some new_DubboContext | Some ctx \<Rightarrow> Some ctx,
      [], \<lparr>TCPKeepAlive = 0, ReuseInputBuffer = False\<rparr>, NoAction)"

lemma UnpackResponse_parsed:
  assumes "UnpackResponse d = Some (l, resp, None)"
  shows "\<exists>p r. p \<noteq> [] \<and> d = p @ l \<and> resp = Some r"
proof -
  from assms have n: "\<not> length d < 16" by (auto simp: UnpackResponse_def)
  with assms obtain dl :: "32 word" and data r where
    1: "slice_range d 18 (sint (15 + dl)) = Some data" "slice_from d (sint (dl + 16)) = Some l" "resp = Some r"
    by (auto simp: UnpackResponse_def Let_def split: bind_splits if_splits)
  let ?t = "sint (dl + 16)"
  from 1(2) have t: "0 \<le> ?t" "?t \<le> int (length d)" "l = drop (nat ?t) d"
    by (auto simp: slice_from_def slice_range_def split: if_splits)
  have "?t \<noteq> 0"
  proof
    assume "?t = 0"
    then have "15 + dl = -1" by (simp add: signed_eq_0_iff eq_neg_iff_add_eq_0 add.commute)
    with 1(1) show False by (simp add: slice_range_def split: if_splits)
  qed
  with t have "take (nat ?t) d \<noteq> []" using n by auto
  moreover have "d = take (nat ?t) d @ l" using t(3) by simp
  ultimately show ?thesis using 1(3) by blast
qed

lemma UnpackResponse_shorter: "UnpackResponse d = Some (l, resp, None) \<Longrightarrow> length l < length d"
  by (auto dest!: UnpackResponse_parsed)

text \<open>The pipeline loop of the \<^verbatim>\<open>Data\<close> event.\<close>

function dubbo_Data_loop :: "bytes \<Rightarrow> Response list \<Rightarrow> (bytes \<times> Response list \<times> Action) go" where
  "dubbo_Data_loop data q =
     (case UnpackResponse data of
        None \<Rightarrow> None
      | Some (leftover, resp, err) \<Rightarrow>
          if err \<noteq> None then
            if err = Some ErrHeaderNotEnough then Some (leftover, q, NoAction) else Some (data, q, Close)
          else do {
            r \<leftarrow> resp;
            dubbo_Data_loop leftover (q @ [r])
          })"
  by pat_completeness auto
termination
  by (relation "measure (\<lambda>(data, q). length data)") (auto dest: UnpackResponse_shorter)

declare dubbo_Data_loop.simps [simp del]

definition dubbo_Data ::
  "DubboContext \<Rightarrow> bytes option \<Rightarrow> (DubboContext \<times> Response list \<times> bytes \<times> Action) go" where
  "dubbo_Data ctx inp =
     (case inp of
        None \<Rightarrow> Some (ctx, [], [], NoAction)
      | Some packet \<Rightarrow> do {
          let (is, data) = Begin (dc_is ctx) packet;
          (data, q, action) \<leftarrow> dubbo_Data_loop data [];
          Some (ctx\<lparr>dc_is := End is data\<rparr>, q, [], action)
        })"

subsection \<open>Streams of responses\<close>

definition dubbo_fits :: "bytes \<Rightarrow> bool" where
  "dubbo_fits d \<longleftrightarrow> length d < 2 ^ 31"

definition dubbo_frame :: "bytes \<Rightarrow> Response frame go" where
  "dubbo_frame d =
     (case UnpackResponse d of
        None \<Rightarrow> None
      | Some (l, resp, err) \<Rightarrow>
          Some (case err of None \<Rightarrow> (case resp of None \<Rightarrow> Malformed | Some r \<Rightarrow> Parsed l r) | Some e \<Rightarrow> Incomplete l))"

definition dubbo_feed :: "DubboContext \<Rightarrow> bytes \<Rightarrow> (DubboContext \<times> Response list) go" where
  "dubbo_feed ctx packet =
     (case dubbo_Data ctx (Some packet) of
        Some (ctx', q, out, action) \<Rightarrow> if action = NoAction then Some (ctx', q) else None
      | None \<Rightarrow> None)"

lemma dubbo_frame_eq:
  assumes "dubbo_fits d"
  shows "dubbo_frame d =
    (if length d < 16 then Some (Incomplete d)
     else let a = sint (announced_len d + 16) in
       if int (length d) < a then Some (Incomplete d)
       else if a < 19 then None
       else Some (Parsed (drop (nat a) d)
         \<lparr>rs_ID = be_word (take 8 (drop 4 d)), rs_Status = d ! 3, rs_Data = take (nat a - 19) (drop 18 d)\<rparr>))"
proof (cases "length d < 16 \<or> int (length d) < sint (announced_len d + 16)")
  case True
  with assms show ?thesis
    by (cases "length d < 16") (simp_all add: dubbo_frame_def dubbo_fits_def UnpackResponse_short UnpackResponse_long)
next
  case False
  define a where "a = sint (announced_len d + 16)"
  show ?thesis
  proof (cases "a \<le> 0")
    case True
    have "slice_from d a = None \<or> slice_range d 18 (sint (announced_len d + 16 - 1)) = None"
    proof (cases "a = 0")
      case True
      then have z: "announced_len d + 16 = 0" by (simp add: a_def signed_eq_0_iff)
      show ?thesis unfolding z by (simp add: slice_range_def)
    qed (use True in \<open>simp add: slice_from_def slice_range_def\<close>)
    with False assms True show ?thesis
      by (auto simp: dubbo_frame_def dubbo_fits_def UnpackResponse_long a_def Let_def split: bind_splits)
  next
    case pos: False
    have lt: "a < 2 ^ 31" using sint_lt [of "announced_len d + 16"] by (simp add: a_def)
    have s: "sint (announced_len d + 16 - 1) = a - 1"
      using pos lt unfolding a_def by (subst sint_word_ariths) (simp add: signed_take_bit_int_eq_self)
    have "slice_from d a = Some (drop (nat a) d)" using False pos by (simp add: slice_from_def slice_range_def a_def)
    moreover have "slice_range d 18 (a - 1) = (if a < 19 then None else Some (take (nat a - 19) (drop 18 d)))"
      using False pos by (auto simp: slice_range_def a_def nat_diff_distrib)
    ultimately show ?thesis
      using False assms s by (simp add: dubbo_frame_def dubbo_fits_def UnpackResponse_long a_def [symmetric] Let_def)
  qed
qed

lemma announced_len_append: "16 \<le> length d \<Longrightarrow> announced_len (d @ x) = announced_len d"
  by (simp add: announced_len_def)

lemma dubbo_fits_append: "dubbo_fits (d @ x) \<Longrightarrow> dubbo_fits d" "dubbo_fits (d @ x) \<Longrightarrow> dubbo_fits x"
  by (simp_all add: dubbo_fits_def)

lemma dubbo_frame_consumes: "dubbo_frame d = Some (Parsed l r) \<Longrightarrow> \<exists>p. p \<noteq> [] \<and> d = p @ l"
  by (force simp: dubbo_frame_def split: option.splits dest: UnpackResponse_parsed)

lemma dubbo_frame_stable:
  assumes "dubbo_fits (d @ x)"
  shows "dubbo_frame d = Some (Parsed l r) \<Longrightarrow> dubbo_frame (d @ x) = Some (Parsed (l @ x) r)"
    and "dubbo_frame d = None \<Longrightarrow> dubbo_frame (d @ x) = None"
    and "dubbo_frame d \<noteq> Some Malformed"
  using dubbo_frame_eq [OF assms] dubbo_frame_eq [OF dubbo_fits_append(1) [OF assms]]
  by (auto simp: announced_len_append Let_def nth_append split: if_splits)

interpretation dubbo_parser: frame_parser dubbo_frame dubbo_fits
  by unfold_locales
    (auto simp: dubbo_frame_def [of "[]"] UnpackResponse_short dubbo_frame_stable dest: dubbo_frame_consumes dubbo_fits_append)

lemma dubbo_Data_loop_frames:
  "frames dubbo_frame d rs e \<Longrightarrow> dubbo_Data_loop d q = Some (e, q @ rs, NoAction)"
proof (induction arbitrary: q rule: frames.induct)
  case (frames_rest d l)
  then obtain l' resp err where "UnpackResponse d = Some (l', resp, Some err)"
    by (auto simp: dubbo_frame_def split: option.splits)
  moreover from this have "l' = d \<and> err = ErrHeaderNotEnough"
    by (auto simp: UnpackResponse_def Let_def split: if_splits bind_splits)
  ultimately show ?case by (subst dubbo_Data_loop.simps) simp
next
  case (frames_next d l r rs e)
  from frames_next.hyps(1) have "UnpackResponse d = Some (l, Some r, None)"
    by (auto simp: dubbo_frame_def split: option.splits)
  with frames_next.IH [of "q @ [r]"] show ?case by (subst dubbo_Data_loop.simps) simp
qed

lemma dubbo_feed_frames:
  assumes "frames dubbo_frame (is_b (dc_is ctx) @ packet) rs e"
  shows "\<exists>ctx'. dubbo_feed ctx packet = Some (ctx', rs) \<and> is_b (dc_is ctx') = e"
proof -
  obtain is' d where b: "Begin (dc_is ctx) packet = (is', d)" by fastforce
  then have d: "d = is_b (dc_is ctx) @ packet" using Begin_data [of "dc_is ctx" packet] by simp
  from dubbo_parser.frames_suffix [OF assms] d obtain p where "d = p @ e" by blast
  then have "is_b (End is' e) = e" using b by (rule End_stores [rotated])
  moreover have "dubbo_Data_loop d [] = Some (e, rs, NoAction)"
    using dubbo_Data_loop_frames [OF assms, of "[]"] d by simp
  ultimately show ?thesis using b by (simp add: dubbo_feed_def dubbo_Data_def)
qed

interpretation dubbo_stream:
  stream_handler dubbo_frame dubbo_fits dubbo_feed "\<lambda>ctx. is_b (dc_is ctx)" "\<lambda>_. True"
  by unfold_locales (rule dubbo_feed_frames)

text \<open>A response as its sender holds it.\<close>

record dubbo_msg =
  dm_flags :: byte
  dm_Status :: byte
  dm_ID :: "64 word"
  dm_Data :: bytes

definition dubbo_packet :: "dubbo_msg \<Rightarrow> bytes" where
  "dubbo_packet m = dubbo_response (dm_flags m) (dm_Status m) (dm_ID m) (dm_Data m)"

definition dubbo_received :: "dubbo_msg \<Rightarrow> Response" where
  "dubbo_received m = \<lparr>rs_ID = dm_ID m, rs_Status = dm_Status m, rs_Data = dm_Data m\<rparr>"

definition dubbo_kept :: "bytes \<Rightarrow> bool" where
  "dubbo_kept h = (case dubbo_frame h of Some (Incomplete l) \<Rightarrow> True | _ \<Rightarrow> False)"

lemma dubbo_frame_packet:
  "dubbo_fits (dubbo_packet m @ x) \<Longrightarrow> dubbo_frame (dubbo_packet m @ x) = Some (Parsed x (dubbo_received m))"
  by (simp add: dubbo_frame_def dubbo_packet_def dubbo_received_def dubbo_fits_def UnpackResponse_response)

interpretation dubbo_packets:
  packet_stream dubbo_frame dubbo_fits dubbo_feed "\<lambda>ctx. is_b (dc_is ctx)" dubbo_kept
    dubbo_packet dubbo_received "\<lambda>_. True"
  by unfold_locales
    (auto simp: dubbo_kept_def dubbo_feed_frames dubbo_frame_packet split: option.splits frame.splits)

subsection \<open>The agent and its connections\<close>

record dubbo_flags =
  dubboPort :: int
  dubboHost :: gostring
  dubboConnCount :: int

text \<open>\<open>lda_spawned\<close> counts the goroutines \<^verbatim>\<open>go makeConn()\<close> that have not run yet.\<close>

record LocalDubboAgent =
  lda_requestMap :: "u64 \<rightharpoonup> cid AgentRequest"
  lda_workerRespQueue :: "Response list"
  lda_connManager :: "cid ConnectionManager"
  lda_spawned :: nat

definition new_LocalDubboAgent :: LocalDubboAgent where
  "new_LocalDubboAgent = \<lparr>lda_requestMap = Map.empty, lda_workerRespQueue = [],
     lda_connManager = new_ConnectionManager, lda_spawned = 0\<rparr>"

type_synonym dubbo_server = "(LocalDubboAgent, DubboContext) server"

definition makeConn :: "kernel \<Rightarrow> dubbo_flags \<Rightarrow> dubbo_server \<Rightarrow> (cid option \<times> errno option \<times> dubbo_server) go" where
  "makeConn K F s = do {
     (conn, err, s) \<leftarrow> outConnect K (dubboHost F) (dubboPort F) (Some new_DubboContext) s;
     if err \<noteq> None then Some (None, err, s)
     else do {
       cid \<leftarrow> conn;
       (n, cm) \<leftarrow> AddConnection cid (lda_connManager (s_user s));
       Some (Some cid, None, upd_user (\<lambda>u. u\<lparr>lda_connManager := cm\<rparr>) s)
     }
   }"

text \<open>The loop that connects until it succeeds, sleeping between the attempts.\<close>

partial_function (option) makeConn_loop :: "kernel \<Rightarrow> dubbo_flags \<Rightarrow> dubbo_server \<Rightarrow> (cid option \<times> dubbo_server) option" where
  "makeConn_loop K F s = do {
     (conn, err, s) \<leftarrow> makeConn K F s;
     if err = None then Some (conn, s) else makeConn_loop K F s
   }"

definition dubbo_GetConnection :: "kernel \<Rightarrow> dubbo_flags \<Rightarrow> dubbo_server \<Rightarrow> (cid \<times> dubbo_server) go" where
  "dubbo_GetConnection K F s = do {
     (resultConn, connCount, cm) \<leftarrow> GetConnection (lda_connManager (s_user s));
     let s = upd_user (\<lambda>u. u\<lparr>lda_connManager := cm\<rparr>) s;
     let createConnCount = dubboConnCount F - int connCount;
     (resultConn, createConnCount, s) \<leftarrow>
       (if connCount = 0 then do {
          (conn, s) \<leftarrow> makeConn_loop K F s;
          Some (conn, createConnCount - 1, s)
        }
        else Some (resultConn, createConnCount, s));
     let s = upd_user (\<lambda>u. u\<lparr>lda_spawned := lda_spawned u + nat createConnCount\<rparr>) s;
     cid \<leftarrow> resultConn;
     Some (cid, s)
   }"

subsection \<open>CreateDubboEvent\<close>

definition dubbo_opened_event :: "cid \<Rightarrow> dubbo_server \<Rightarrow> (bytes \<times> Options \<times> Action \<times> dubbo_server) go" where
  "dubbo_opened_event cid s = do {
     lastCtx \<leftarrow> conn_Context cid s;
     let (ctx, out, opts, action) = dubbo_Opened lastCtx;
     Some (out, opts, action, conn_SetContext ctx cid s)
   }"

definition dubbo_closed_event ::
  "kernel \<Rightarrow> dubbo_flags \<Rightarrow> cid \<Rightarrow> ev_error option \<Rightarrow> dubbo_server \<Rightarrow> (Action \<times> dubbo_server) go" where
  "dubbo_closed_event K F cid err s = do {
     (n, cm) \<leftarrow> DeleteConnection cid (lda_connManager (s_user s));
     let s = upd_user (\<lambda>u. u\<lparr>lda_connManager := cm\<rparr>) s;
     (conn, s) \<leftarrow> dubbo_GetConnection K F s;
     Some (NoAction, s)
   }"

definition dubbo_data_event :: "cid \<Rightarrow> bytes \<Rightarrow> dubbo_server \<Rightarrow> (bytes \<times> Action \<times> dubbo_server) go" where
  "dubbo_data_event cid packet s = do {
     lastCtx \<leftarrow> conn_Context cid s;
     ctx \<leftarrow> lastCtx;
     (ctx, q, out, action) \<leftarrow> dubbo_Data ctx (Some packet);
     Some (out, action, upd_user (\<lambda>u. u\<lparr>lda_workerRespQueue := lda_workerRespQueue u @ q\<rparr>) (conn_SetContext (Some ctx) cid s))
   }"

definition dubbo_events :: "int \<Rightarrow> kernel \<Rightarrow> dubbo_flags \<Rightarrow> (LocalDubboAgent, DubboContext) Events" where
  "dubbo_events loops K F =
     \<lparr>ev_NumLoops = loops, ev_LoadBalance = Random,
      ev_Serving = Some (\<lambda>addrs n s. Some (NoAction, s)),
      ev_Opened = Some dubbo_opened_event,
      ev_Closed = Some (dubbo_closed_event K F),
      ev_Detached = None,
      ev_Data = Some dubbo_data_event,
      ev_Tick = None\<rparr>"

subsection \<open>Requests\<close>

text \<open>The message for a request; the attachments have one entry.\<close>

definition dubbo_message :: "'c AgentRequest \<Rightarrow> Message" where
  "dubbo_message req =
     \<lparr>m_ID = ar_RequestID req, m_Version = [], m_Type = 2, m_ServicePath = [], m_Interface = ar_Interf req,
      m_Method = ar_Method req,
      m_Data = Some \<lparr>ri_Method = ar_Method req, ri_ParameterTypes = ParamType_to_String (ar_ParamType req),
        ri_Args = ar_Param req, ri_Attachments = Some [(str ''path'', ar_Interf req)]\<rparr>\<rparr>"

definition SendDubboRequest :: "kernel \<Rightarrow> dubbo_flags \<Rightarrow> cid AgentRequest \<Rightarrow> dubbo_server \<Rightarrow> dubbo_server go" where
  "SendDubboRequest K F req s = do {
     let data = PackRequest (dubbo_message req);
     let s = upd_user (\<lambda>u. u\<lparr>lda_requestMap := (lda_requestMap u)(ar_RequestID req \<mapsto> req)\<rparr>) s;
     (cid, s) \<leftarrow> dubbo_GetConnection K F s;
     conn_Send K cid data s
   }"

subsection \<open>The provider\<close>

text \<open>
  The provider side runs two servers: the agent server of \<^verbatim>\<open>local_agent.go\<close>, whose user state is the worker
  queue, and the connections to dubbo. Each has its own view of the kernel.
\<close>

type_synonym agent_server = "(cid AgentRequest list, (cid, unit) AgentContext) server"

record provider =
  pv_agents :: agent_server
  pv_dubbo :: dubbo_server

definition SendAgentRequest ::
  "kernel \<Rightarrow> cid \<Rightarrow> u32 \<Rightarrow> u64 \<Rightarrow> gostring \<Rightarrow> gostring \<Rightarrow> ParamType \<Rightarrow> bytes \<Rightarrow> ('u, 'x) server \<Rightarrow> ('u, 'x) server go" where
  "SendAgentRequest K conn result reqID interf meth paramType param s =
     conn_Send K conn (agent_out result reqID interf meth paramType param) s"

text \<open>A worker of \<^verbatim>\<open>LocalAgentServer\<close> takes a request from the queue.\<close>

definition agent_worker :: "kernel \<Rightarrow> dubbo_flags \<Rightarrow> provider \<Rightarrow> provider go" where
  "agent_worker Kd F p =
     (case s_user (pv_agents p) of
        [] \<Rightarrow> Some p
      | req # q \<Rightarrow> do {
          d \<leftarrow> SendDubboRequest Kd F req (pv_dubbo p);
          Some (p\<lparr>pv_agents := (pv_agents p)\<lparr>s_user := q\<rparr>, pv_dubbo := d\<rparr>)
        })"

text \<open>A worker of \<^verbatim>\<open>ServeConnectDubbo\<close> takes a response from the queue.\<close>

definition dubbo_worker :: "kernel \<Rightarrow> (nat \<Rightarrow> bytes) \<Rightarrow> provider \<Rightarrow> provider go" where
  "dubbo_worker Ka date p =
     (case lda_workerRespQueue (s_user (pv_dubbo p)) of
        [] \<Rightarrow> Some p
      | resp # q \<Rightarrow>
          let p = p\<lparr>pv_dubbo := upd_user (\<lambda>u. u\<lparr>lda_workerRespQueue := q\<rparr>) (pv_dubbo p)\<rparr> in
          case lda_requestMap (s_user (pv_dubbo p)) (rs_ID resp) of
            None \<Rightarrow> Some p
          | Some agentReq \<Rightarrow> do {
              conn \<leftarrow> ar_conn agentReq;
              a \<leftarrow> SendAgentRequest Ka conn 200 (ar_RequestID agentReq) [] [] ParamType_Result
                     (AppendResp (date (s_clock (pv_agents p))) [] (str ''200 OK'') [] (rs_Data resp)) (pv_agents p);
              Some (p\<lparr>pv_agents := a,
                pv_dubbo := upd_user (\<lambda>u. u\<lparr>lda_requestMap := (lda_requestMap u)(rs_ID resp := None)\<rparr>) (pv_dubbo p)\<rparr>)
            })"

text \<open>A goroutine that was started to add a connection.\<close>

definition spawned_makeConn :: "kernel \<Rightarrow> dubbo_flags \<Rightarrow> dubbo_server \<Rightarrow> dubbo_server go" where
  "spawned_makeConn K F s =
     (if lda_spawned (s_user s) = 0 then Some s
      else do {
        (conn, err, s) \<leftarrow> makeConn K F (upd_user (\<lambda>u. u\<lparr>lda_spawned := lda_spawned u - 1\<rparr>) s);
        Some s
      })"

inductive pv_step ::
  "kernel \<Rightarrow> kernel \<Rightarrow> dubbo_flags \<Rightarrow> (nat \<Rightarrow> bytes) \<Rightarrow> int \<Rightarrow> int \<Rightarrow> provider \<Rightarrow> provider \<Rightarrow> bool"
  for Ka Kd F date la ld where
  agents_loop: "loop_step Ka (agent_events la (\<lambda>rs u. u @ rs)) (pv_agents p) a \<Longrightarrow>
    pv_step Ka Kd F date la ld p (p\<lparr>pv_agents := a\<rparr>)"
| dubbo_loop: "loop_step Kd (dubbo_events ld Kd F) (pv_dubbo p) d \<Longrightarrow>
    pv_step Ka Kd F date la ld p (p\<lparr>pv_dubbo := d\<rparr>)"
| agent_request: "agent_worker Kd F p = Some p' \<Longrightarrow> pv_step Ka Kd F date la ld p p'"
| dubbo_reply: "dubbo_worker Ka date p = Some p' \<Longrightarrow> pv_step Ka Kd F date la ld p p'"
| dubbo_connect: "spawned_makeConn Kd F (pv_dubbo p) = Some d \<Longrightarrow>
    pv_step Ka Kd F date la ld p (p\<lparr>pv_dubbo := d\<rparr>)"

subsection \<open>Its invariant\<close>

text \<open>The pool is in order, and every pending request is filed under its own number.\<close>

definition dubbo_inv :: "dubbo_server \<Rightarrow> bool" where
  "dubbo_inv s \<longleftrightarrow> s_lns s = [] \<and> live_pool (lda_connManager (s_user s)) s \<and>
     (\<forall>i req. lda_requestMap (s_user s) i = Some req \<longrightarrow> ar_RequestID req = i)"

text \<open>What every operation of the agent does with the two invariants.\<close>

definition dubbo_safe :: "dubbo_server \<Rightarrow> dubbo_server \<Rightarrow> bool" where
  "dubbo_safe s s' \<longleftrightarrow> (dubbo_inv s \<longrightarrow> dubbo_inv s') \<and> (ev_inv s \<longrightarrow> keeps s s')"

lemma dubbo_safe_refl: "dubbo_safe s s"
  by (simp add: dubbo_safe_def keeps_refl)

lemma dubbo_safe_trans [trans]: "dubbo_safe s s' \<Longrightarrow> dubbo_safe s' s'' \<Longrightarrow> dubbo_safe s s''"
  by (auto simp: dubbo_safe_def dest: keeps_inv intro: keeps_trans)

lemma makeConn_safe:
  assumes "makeConn K F s = Some (conn, err, s')"
  shows "dubbo_safe s s'"
proof -
  from assms obtain res err1 s1 where o: "outConnect K (dubboHost F) (dubboPort F) (Some new_DubboContext) s = Some (res, err1, s1)"
    and rest: "(if err1 \<noteq> None then Some (None, err1, s1)
      else do {
        cid \<leftarrow> res;
        (n, cm) \<leftarrow> AddConnection cid (lda_connManager (s_user s1));
        Some (Some cid, None, upd_user (\<lambda>u. u\<lparr>lda_connManager := cm\<rparr>) s1)
      }) = Some (conn, err, s')"
    by (auto simp: makeConn_def split: bind_splits)
  note v = outConnect_view [OF o]
  have ext: "extends s s1" using o by (rule outConnect_extends)
  have k1: "keeps s s1" if "ev_inv s" using that o by (rule outConnect_keeps)
  have i1: "dubbo_inv s1" if "dubbo_inv s" using that v ext by (auto simp: dubbo_inv_def intro: live_pool_extends)
  show ?thesis
  proof (cases err1)
    case None
    with rest v obtain cid n cm where res: "res = Some cid"
      and add: "AddConnection cid (lda_connManager (s_user s)) = Some (n, cm)"
      and s': "s' = upd_user (\<lambda>u. u\<lparr>lda_connManager := cm\<rparr>) s1"
      by (auto split: bind_splits)
    have "live_pool cm s1" if "dubbo_inv s" using that live_pool_add [OF _ o [unfolded res] add] by (simp add: dubbo_inv_def)
    then have "dubbo_inv s'" if "dubbo_inv s"
      using i1 [OF that] that unfolding s' by (simp add: dubbo_inv_def live_pool_def)
    moreover have "keeps s s'" if "ev_inv s"
      using k1 [OF that] upd_user_keeps [OF keeps_inv [OF k1 [OF that]]] unfolding s' by (rule keeps_trans)
    ultimately show ?thesis by (simp add: dubbo_safe_def)
  next
    case (Some e)
    with rest i1 k1 show ?thesis by (simp add: dubbo_safe_def)
  qed
qed

lemma makeConn_loop_safe:
  assumes "makeConn_loop K F s = Some r"
  shows "dubbo_safe s (snd r)"
proof (rule makeConn_loop.raw_induct [OF _ assms])
  fix loop K F s r
  assume IH: "\<And>K F s r. loop K F s = Some r \<Longrightarrow> dubbo_safe s (snd r)"
    and "do {
        (conn, err, s) \<leftarrow> makeConn K F s;
        if err = None then Some (conn, s) else loop K F s
      } = Some r"
  then obtain conn err s1 where m: "makeConn K F s = Some (conn, err, s1)"
    and r: "(if err = None then Some (conn, s1) else loop K F s1) = Some r"
    by (auto split: bind_splits)
  from m have "dubbo_safe s s1" by (rule makeConn_safe)
  with r IH [of K F s1 r] show "dubbo_safe s (snd r)" by (auto split: if_splits intro: dubbo_safe_trans)
qed

lemma upd_user_safe:
  assumes "dubbo_inv s \<Longrightarrow> dubbo_inv (upd_user f s)"
  shows "dubbo_safe s (upd_user f s)"
  using assms by (simp add: dubbo_safe_def upd_user_keeps)

lemma dubbo_GetConnection_safe:
  assumes "dubbo_GetConnection K F s = Some (cid, s')"
  shows "dubbo_safe s s'"
proof -
  from assms obtain r n cm where g: "GetConnection (lda_connManager (s_user s)) = Some (r, n, cm)"
    by (auto simp: dubbo_GetConnection_def split: bind_splits)
  define s1 where "s1 = upd_user (\<lambda>u. u\<lparr>lda_connManager := cm\<rparr>) s"
  have 1: "dubbo_safe s s1"
    unfolding s1_def by (rule upd_user_safe) (auto simp: dubbo_inv_def intro: live_pool_get [OF _ g])
  have spawn: "dubbo_safe s2 (upd_user (\<lambda>u. u\<lparr>lda_spawned := lda_spawned u + k\<rparr>) s2)" for s2 k
    by (rule upd_user_safe) (simp add: dubbo_inv_def)
  show ?thesis
  proof (cases "n = 0")
    case True
    with assms g obtain conn s2 k where m: "makeConn_loop K F s1 = Some (conn, s2)"
      and s': "s' = upd_user (\<lambda>u. u\<lparr>lda_spawned := lda_spawned u + k\<rparr>) s2"
      by (auto simp: dubbo_GetConnection_def s1_def Let_def split: bind_splits)
    note 1
    also note makeConn_loop_safe [OF m, simplified]
    also note spawn [of s2 k]
    finally show ?thesis unfolding s' .
  next
    case False
    with assms g obtain k where "s' = upd_user (\<lambda>u. u\<lparr>lda_spawned := lda_spawned u + k\<rparr>) s1"
      by (auto simp: dubbo_GetConnection_def s1_def Let_def split: bind_splits)
    with dubbo_safe_trans [OF 1 spawn [of s1 k]] show ?thesis by simp
  qed
qed

lemma SetContext_safe: "dubbo_safe s (conn_SetContext ctx cid s)"
  by (simp add: dubbo_safe_def SetContext_keeps) (simp add: dubbo_inv_def conn_SetContext_def)

lemma dubbo_opened_safe: "dubbo_opened_event cid s = Some (out, opts, a, s') \<Longrightarrow> dubbo_safe s s'"
  by (auto simp: dubbo_opened_event_def dubbo_Opened_def SetContext_safe split: bind_splits)

lemma dubbo_closed_safe:
  assumes "dubbo_closed_event K F cid e s = Some (a, s')"
  shows "dubbo_safe s s'"
proof -
  from assms obtain n cm conn where d: "DeleteConnection cid (lda_connManager (s_user s)) = Some (n, cm)"
    and g: "dubbo_GetConnection K F (upd_user (\<lambda>u. u\<lparr>lda_connManager := cm\<rparr>) s) = Some (conn, s')"
    by (auto simp: dubbo_closed_event_def split: bind_splits)
  have "dubbo_safe s (upd_user (\<lambda>u. u\<lparr>lda_connManager := cm\<rparr>) s)"
    by (rule upd_user_safe) (auto simp: dubbo_inv_def intro: live_pool_delete [OF _ d])
  also note dubbo_GetConnection_safe [OF g]
  finally show ?thesis .
qed

lemma dubbo_data_safe:
  assumes "dubbo_data_event cid packet s = Some (out, a, s')"
  shows "dubbo_safe s s'"
proof -
  from assms obtain ctx q where s': "s' = upd_user (\<lambda>u. u\<lparr>lda_workerRespQueue := lda_workerRespQueue u @ q\<rparr>)
      (conn_SetContext (Some ctx) cid s)"
    by (auto simp: dubbo_data_event_def split: bind_splits)
  note SetContext_safe [of s "Some ctx" cid]
  also have "dubbo_safe (conn_SetContext (Some ctx) cid s) s'"
    unfolding s' by (rule upd_user_safe) (simp add: dubbo_inv_def)
  finally show ?thesis .
qed

lemmas dubbo_events_safe = dubbo_opened_safe dubbo_closed_safe dubbo_data_safe

interpretation dubbo_loop: callbacks "dubbo_events ld K F" for ld K F
  by unfold_locales
    (auto simp: dubbo_events_def keeps_refl dest!: dubbo_events_safe simp: dubbo_safe_def)

lemma dubbo_inv_view: "user_view s' = user_view s \<Longrightarrow> dubbo_inv s' = dubbo_inv s"
  using user_view_eqD [of s' s] live_pool_view [of s' s] by (simp add: dubbo_inv_def)

interpretation dubbo_user: user_invariant "dubbo_events ld K F" dubbo_inv for ld K F
proof
  show "dubbo_inv s' = dubbo_inv s" if "user_view s' = user_view s" for s s' using that by (rule dubbo_inv_view)
  show "s_lns s = []" if "dubbo_inv s" for s using that by (simp add: dubbo_inv_def)
qed (auto simp: dubbo_events_def dest!: dubbo_events_safe simp: dubbo_safe_def)

lemma SendDubboRequest_safe:
  assumes "SendDubboRequest K F req s = Some s'"
  shows "dubbo_safe s s'"
proof -
  define s1 where "s1 = upd_user (\<lambda>u. u\<lparr>lda_requestMap := (lda_requestMap u)(ar_RequestID req \<mapsto> req)\<rparr>) s"
  from assms obtain cid s2 where g: "dubbo_GetConnection K F s1 = Some (cid, s2)"
    and sent: "conn_Send K cid (PackRequest (dubbo_message req)) s2 = Some s'"
    by (auto simp: SendDubboRequest_def s1_def split: bind_splits)
  have "dubbo_safe s s1" unfolding s1_def by (rule upd_user_safe) (simp add: dubbo_inv_def)
  also note dubbo_GetConnection_safe [OF g]
  also have "dubbo_safe s2 s'"
    using sent by (auto simp: dubbo_safe_def intro: conn_Send_keeps dubbo_user.conn_Send_I)
  finally show ?thesis .
qed

lemma spawned_makeConn_safe:
  assumes "spawned_makeConn K F s = Some s'"
  shows "dubbo_safe s s'"
proof (cases "lda_spawned (s_user s) = 0")
  case True
  with assms show ?thesis by (simp add: spawned_makeConn_def dubbo_safe_refl)
next
  case False
  with assms obtain conn err where
    m: "makeConn K F (upd_user (\<lambda>u. u\<lparr>lda_spawned := lda_spawned u - 1\<rparr>) s) = Some (conn, err, s')"
    by (auto simp: spawned_makeConn_def split: bind_splits)
  have "dubbo_safe s (upd_user (\<lambda>u. u\<lparr>lda_spawned := lda_spawned u - 1\<rparr>) s)"
    by (rule upd_user_safe) (simp add: dubbo_inv_def)
  also note makeConn_safe [OF m]
  finally show ?thesis .
qed

subsection \<open>The provider as a whole\<close>

definition pv_inv :: "provider \<Rightarrow> bool" where
  "pv_inv p \<longleftrightarrow> ev_inv (pv_agents p) \<and> ev_inv (pv_dubbo p) \<and> dubbo_inv (pv_dubbo p)"

lemma pv_inv_dubbo: "pv_inv p \<Longrightarrow> dubbo_safe (pv_dubbo p) d \<Longrightarrow> pv_inv (p\<lparr>pv_dubbo := d\<rparr>)"
  by (auto simp: pv_inv_def dubbo_safe_def dest: keeps_inv)

lemma ev_inv_user: "ev_inv (s\<lparr>s_user := u\<rparr>) = ev_inv s"
  by (rule ev_inv_cong) simp_all

lemma agent_worker_inv:
  assumes "pv_inv p" and "agent_worker Kd F p = Some p'"
  shows "pv_inv p'"
proof (cases "s_user (pv_agents p)")
  case Nil
  with assms show ?thesis by (simp add: agent_worker_def)
next
  case (Cons req q)
  with assms(2) obtain d where d: "SendDubboRequest Kd F req (pv_dubbo p) = Some d"
    and p': "p' = p\<lparr>pv_dubbo := d\<rparr>\<lparr>pv_agents := (pv_agents p)\<lparr>s_user := q\<rparr>\<rparr>"
    by (auto simp: agent_worker_def split: bind_splits)
  have "pv_inv (p\<lparr>pv_dubbo := d\<rparr>)" using assms(1) SendDubboRequest_safe [OF d] by (rule pv_inv_dubbo)
  then show ?thesis unfolding p' by (simp add: pv_inv_def ev_inv_user)
qed

lemma dubbo_worker_inv:
  assumes "pv_inv p" and "dubbo_worker Ka date p = Some p'"
  shows "pv_inv p'"
proof (cases "lda_workerRespQueue (s_user (pv_dubbo p))")
  case Nil
  with assms show ?thesis by (simp add: dubbo_worker_def)
next
  case (Cons resp q)
  define p1 where "p1 = p\<lparr>pv_dubbo := upd_user (\<lambda>u. u\<lparr>lda_workerRespQueue := q\<rparr>) (pv_dubbo p)\<rparr>"
  have 1: "pv_inv p1"
    unfolding p1_def using assms(1) by (intro pv_inv_dubbo upd_user_safe) (simp_all add: dubbo_inv_def)
  have 2: "dubbo_safe (pv_dubbo p1) (upd_user (\<lambda>u. u\<lparr>lda_requestMap := (lda_requestMap u)(rs_ID resp := None)\<rparr>) (pv_dubbo p1))"
    by (rule upd_user_safe) (simp add: dubbo_inv_def)
  have "pv_inv (p1\<lparr>pv_agents := a, pv_dubbo := upd_user (\<lambda>u. u\<lparr>lda_requestMap := (lda_requestMap u)(rs_ID resp := None)\<rparr>) (pv_dubbo p1)\<rparr>)"
    if "conn_Send Ka conn data (pv_agents p1) = Some a" for conn data a
    using pv_inv_dubbo [OF 1 2] 1 conn_Send_keeps [OF _ that] by (auto simp: pv_inv_def dest: keeps_inv)
  with assms(2) Cons 1 show ?thesis
    by (auto simp: dubbo_worker_def SendAgentRequest_def p1_def Let_def split: bind_splits option.splits)
qed

lemma pv_step_inv: "pv_step Ka Kd F date la ld p p' \<Longrightarrow> pv_inv p \<Longrightarrow> pv_inv p'"
proof (induction rule: pv_step.induct)
  case (agents_loop p a)
  then have "ev_inv a"
    using agent_loop.ev_step_grows [OF _ loop_step_ev_step [OF agents_loop(1)]] by (auto simp: pv_inv_def dest: grows_inv)
  with agents_loop show ?case by (simp add: pv_inv_def)
next
  case (dubbo_loop p d)
  then have "ev_inv d" "dubbo_inv d"
    using dubbo_loop.ev_step_grows [OF _ loop_step_ev_step [OF dubbo_loop(1)]] dubbo_user.loop_step_I [OF dubbo_loop(1)]
    by (auto simp: pv_inv_def dest: grows_inv)
  with dubbo_loop show ?case by (simp add: pv_inv_def)
next
  case (dubbo_connect p d)
  then show ?case by (auto intro: pv_inv_dubbo spawned_makeConn_safe)
qed (auto intro: agent_worker_inv dubbo_worker_inv)

lemma pv_steps_inv: "(pv_step Ka Kd F date la ld)\<^sup>*\<^sup>* p p' \<Longrightarrow> pv_inv p \<Longrightarrow> pv_inv p'"
  by (induction rule: rtranclp_induct) (auto intro: pv_step_inv)

subsection \<open>A connection is found\<close>

text \<open>
  What \<^verbatim>\<open>GetConnection\<close> relies on: loops to put the connection on, the range of \<^verbatim>\<open>rand.Intn\<close>, and a dubbo
  server that accepts connections from the time \<open>t0\<close> on.
\<close>

definition dubbo_ready :: "dubbo_server \<Rightarrow> bool" where
  "dubbo_ready s \<longleftrightarrow> s_loops s \<noteq> [] \<and> s_balance s = Random"

definition intn_ok :: "kernel \<Rightarrow> bool" where
  "intn_ok K \<longleftrightarrow> (\<forall>t n. 0 < n \<longrightarrow> k_intn K t n < n)"

definition accepts_from :: "nat \<Rightarrow> kernel \<Rightarrow> bool" where
  "accepts_from t0 K \<longleftrightarrow> (\<forall>t fd sa. t0 \<le> t \<longrightarrow> k_connect K t fd sa = None \<and> k_nonblock K t fd = None)"

lemma upd_balance [simp]:
  "s_balance (upd_conn cid f s) = s_balance s" "s_balance (upd_poll i h s) = s_balance s" "s_balance (tick s) = s_balance s"
  by (simp_all add: upd_conn_def upd_poll_def upd_loop_def tick_def)

lemma outConnect_returns:
  assumes "s_loops s \<noteq> []" and "s_balance s = Random" and "intn_ok K"
  shows "\<exists>res err s'. outConnect K addr port ctx s = Some (res, err, s') \<and> s_clock s < s_clock s' \<and>
    s_loops s' \<noteq> [] \<and> s_balance s' = Random \<and> (accepts_from t0 K \<and> t0 \<le> s_clock s \<longrightarrow> err = None \<and> res = Some (s_next s))"
proof -
  have "k_intn K t (length (s_loops s)) < length (s_loops s)" for t using assms(1,3) by (simp add: intn_ok_def)
  then show ?thesis
    using assms(1,2)
    by (auto simp: outConnect_def choose_loop_def Let_def alloc_conn_def index_def conn_SetContext_def accepts_from_def)
qed

lemma makeConn_returns:
  assumes "dubbo_ready s" and "intn_ok K" and "cm_inv (lda_connManager (s_user s))" and "cm_connList (lda_connManager (s_user s)) = []"
  shows "\<exists>conn err s'. makeConn K F s = Some (conn, err, s') \<and> dubbo_ready s' \<and> s_clock s < s_clock s' \<and>
    (if err = None then \<exists>cid. conn = Some cid \<and> cm_connList (lda_connManager (s_user s')) = [cid]
     else s_user s' = s_user s) \<and>
    (accepts_from t0 K \<and> t0 \<le> s_clock s \<longrightarrow> err = None)"
proof -
  from outConnect_returns [OF _ _ assms(2), of s "dubboHost F" "dubboPort F" "Some new_DubboContext" t0] assms(1)
  obtain res err s1 where o: "outConnect K (dubboHost F) (dubboPort F) (Some new_DubboContext) s = Some (res, err, s1)"
    and s1: "s_clock s < s_clock s1" "dubbo_ready s1"
    and acc: "accepts_from t0 K \<and> t0 \<le> s_clock s \<longrightarrow> err = None"
    by (auto simp: dubbo_ready_def)
  have u: "s_user s1 = s_user s" and r: "err = None \<Longrightarrow> \<exists>cid. res = Some cid"
    using outConnect_view [OF o] by (auto split: option.splits)
  show ?thesis
  proof (cases err)
    case None
    with r obtain cid where cid: "res = Some cid" by blast
    from AddConnection_inv [OF assms(3), of cid] assms(4) obtain n cm where
      "AddConnection cid (lda_connManager (s_user s)) = Some (n, cm)" "cm_connList cm = [cid]" by auto
    with None o cid u s1 show ?thesis by (simp add: makeConn_def dubbo_ready_def)
  next
    case (Some e)
    with o u s1 acc show ?thesis by (simp add: makeConn_def)
  qed
qed

lemma makeConn_loop_returns:
  assumes "dubbo_ready s" and "intn_ok K" and "accepts_from t0 K"
    and "cm_inv (lda_connManager (s_user s))" and "cm_connList (lda_connManager (s_user s)) = []"
  shows "\<exists>cid s'. makeConn_loop K F s = Some (Some cid, s') \<and> cm_connList (lda_connManager (s_user s')) = [cid]"
  using assms(1,4,5)
proof (induction "t0 - s_clock s" arbitrary: s rule: less_induct)
  case less
  from makeConn_returns [OF less.prems(1) assms(2) less.prems(2,3), of F t0] assms(3)
  obtain conn err s1 where m: "makeConn K F s = Some (conn, err, s1)" and s1: "dubbo_ready s1" "s_clock s < s_clock s1"
    and e: "if err = None then \<exists>cid. conn = Some cid \<and> cm_connList (lda_connManager (s_user s1)) = [cid] else s_user s1 = s_user s"
    and acc: "t0 \<le> s_clock s \<longrightarrow> err = None"
    by blast
  show ?case
  proof (cases "err = None")
    case True
    with e m show ?thesis by (subst makeConn_loop.simps) auto
  next
    case False
    with acc s1(2) have "t0 - s_clock s1 < t0 - s_clock s" by auto
    with less.hyps [OF this s1(1)] less.prems(2,3) e False
    have "\<exists>cid s'. makeConn_loop K F s1 = Some (Some cid, s') \<and> cm_connList (lda_connManager (s_user s')) = [cid]" by simp
    with m False show ?thesis by (subst makeConn_loop.simps) auto
  qed
qed

subsection \<open>What the operations leave alone\<close>

definition same_queues :: "dubbo_server \<Rightarrow> dubbo_server \<Rightarrow> bool" where
  "same_queues s s' \<longleftrightarrow> lda_requestMap (s_user s') = lda_requestMap (s_user s) \<and>
     lda_workerRespQueue (s_user s') = lda_workerRespQueue (s_user s)"

lemma makeConn_queues: "makeConn K F s = Some (conn, err, s') \<Longrightarrow> same_queues s s'"
  by (auto simp: makeConn_def same_queues_def split: bind_splits if_splits dest!: outConnect_view)

lemma makeConn_loop_queues:
  assumes "makeConn_loop K F s = Some r"
  shows "same_queues s (snd r)"
proof (rule makeConn_loop.raw_induct [OF _ assms])
  fix loop K F s r
  assume IH: "\<And>K F s r. loop K F s = Some r \<Longrightarrow> same_queues s (snd r)"
    and "do {
        (conn, err, s) \<leftarrow> makeConn K F s;
        if err = None then Some (conn, s) else loop K F s
      } = Some r"
  then obtain conn err s1 where m: "makeConn K F s = Some (conn, err, s1)"
    and r: "(if err = None then Some (conn, s1) else loop K F s1) = Some r"
    by (auto split: bind_splits)
  from m have "same_queues s s1" by (rule makeConn_queues)
  with r IH [of K F s1 r] show "same_queues s (snd r)" by (auto simp: same_queues_def split: if_splits)
qed

lemma dubbo_GetConnection_queues:
  assumes "dubbo_GetConnection K F s = Some (cid, s')"
  shows "same_queues s s'"
  using assms
  by (auto simp: dubbo_GetConnection_def Let_def same_queues_def split: bind_splits if_splits
      dest!: makeConn_loop_queues)

lemma SendDubboRequest_table:
  assumes "SendDubboRequest K F req s = Some s'"
  shows "lda_requestMap (s_user s') = (lda_requestMap (s_user s))(ar_RequestID req \<mapsto> req) \<and>
    lda_workerRespQueue (s_user s') = lda_workerRespQueue (s_user s)"
proof -
  from assms obtain cid s2 where
    g: "dubbo_GetConnection K F (upd_user (\<lambda>u. u\<lparr>lda_requestMap := (lda_requestMap u)(ar_RequestID req \<mapsto> req)\<rparr>) s) = Some (cid, s2)"
    and sent: "conn_Send K cid (PackRequest (dubbo_message req)) s2 = Some s'"
    by (auto simp: SendDubboRequest_def split: bind_splits)
  from dubbo_GetConnection_queues [OF g] user_view_eqD [OF user_view_conn_Send [OF sent]] show ?thesis
    by (simp add: same_queues_def)
qed

text \<open>A request goes out on a connection of the pool.\<close>

lemma conn_Send_returns:
  assumes "s_heap s cid = Some c" and "c_loop c \<noteq> None"
    and "\<And>t fd. \<exists>n \<le> length data. k_write K t fd data = Inl n"
  shows "\<exists>s'. conn_Send K cid data s = Some s'"
proof -
  define s1 where "s1 = (if c_out c \<noteq> None then upd_conn cid (\<lambda>c. c\<lparr>c_out := append_out (c_out c) data\<rparr>) s else s)"
  from assms(3) obtain n where n: "k_write K (s_clock s1) (c_fd c) data = Inl n" "n \<le> length data" by blast
  then obtain s2 where "sys_write K (c_fd c) data s1 = (int n, None, s2)" by (simp add: sys_write_def)
  with assms(1,2) n(2) show ?thesis
    unfolding s1_def by (cases "c_out c") (auto simp: conn_Send_def slice_from_nat)
qed

lemma upd_conn_loop:
  assumes "\<And>c. c_loop (f c) = c_loop c"
  shows "map_option c_loop (s_heap (upd_conn cid f s) x) = map_option c_loop (s_heap s x)"
  using assms by (simp add: option.map_comp comp_def)

lemma conn_Send_loop:
  assumes "conn_Send K cid data s = Some s'"
  shows "map_option c_loop (s_heap s' x) = map_option c_loop (s_heap s x)"
proof -
  from assms obtain c where c: "s_heap s cid = Some c" by (auto simp: conn_Send_def split: bind_splits)
  define s1 where "s1 = (if c_out c \<noteq> None then upd_conn cid (\<lambda>c. c\<lparr>c_out := append_out (c_out c) data\<rparr>) s else s)"
  obtain n err s2 where w: "sys_write K (c_fd c) data s1 = (n, err, s2)" by (cases "sys_write K (c_fd c) data s1")
  have v: "map_option c_loop (s_heap s2 x) = map_option c_loop (s_heap s x)"
    using sys_write_simps [OF w] upd_conn_loop [of "\<lambda>c. c\<lparr>c_out := append_out (c_out c) data\<rparr>" cid s x] by (simp add: s1_def)
  show ?thesis
    using assms c w v unfolding s1_def
    by (cases "c_out c") (auto simp: conn_Send_def Let_def upd_conn_loop simp del: upd_conn_simps split: bind_splits if_splits)
qed

definition sendable_pool :: "dubbo_server \<Rightarrow> bool" where
  "sendable_pool s \<longleftrightarrow> cm_inv (lda_connManager (s_user s)) \<and> cm_connList (lda_connManager (s_user s)) \<noteq> [] \<and>
     list_all (\<lambda>cid. \<exists>i. map_option c_loop (s_heap s cid) = Some (Some i)) (cm_connList (lda_connManager (s_user s)))"

lemma SendDubboRequest_returns:
  assumes "sendable_pool s" and "\<And>t fd data. \<exists>n \<le> length data. k_write K t fd data = Inl n"
  shows "\<exists>s'. SendDubboRequest K F req s = Some s' \<and> sendable_pool s'"
proof -
  let ?cm = "lda_connManager (s_user s)"
  from assms(1) have inv: "cm_inv ?cm" and ne: "cm_connList ?cm \<noteq> []" by (simp_all add: sendable_pool_def)
  from GetConnection_inv [OF inv] ne obtain cid cm where
    g: "GetConnection ?cm = Some (Some cid, length (cm_connList ?cm), cm)" and cid: "cid \<in> set (cm_connList ?cm)"
    and cm: "cm_connList cm = cm_connList ?cm" "cm_inv cm"
    by (auto split: option.splits)
  define s1 where "s1 = upd_user (\<lambda>u. u\<lparr>lda_requestMap := (lda_requestMap u)(ar_RequestID req \<mapsto> req)\<rparr>) s"
  define s2 where "s2 = upd_user (\<lambda>u. u\<lparr>lda_spawned := lda_spawned u + nat (dubboConnCount F - int (length (cm_connList ?cm)))\<rparr>)
    (upd_user (\<lambda>u. u\<lparr>lda_connManager := cm\<rparr>) s1)"
  have get: "dubbo_GetConnection K F s1 = Some (cid, s2)"
    using g ne by (simp add: dubbo_GetConnection_def s1_def s2_def)
  have h: "s_heap s2 = s_heap s" by (simp add: s1_def s2_def)
  with assms(1) cid obtain i c where "s_heap s2 cid = Some c" "c_loop c = Some i"
    by (auto simp: sendable_pool_def list_all_iff)
  then obtain s3 where sent: "conn_Send K cid (PackRequest (dubbo_message req)) s2 = Some s3"
    using conn_Send_returns assms(2) by blast
  have "sendable_pool s3"
    using assms(1) cm conn_Send_loop [OF sent] h user_view_eqD [OF user_view_conn_Send [OF sent]]
    by (simp add: sendable_pool_def s1_def s2_def)
  with get sent show ?thesis by (simp add: SendDubboRequest_def s1_def)
qed

text \<open>An agent with one connection to dubbo, for the witnesses.\<close>

definition ex_flags :: dubbo_flags where
  "ex_flags = \<lparr>dubboPort = 20889, dubboHost = str ''127.0.0.1'', dubboConnCount = 1\<rparr>"

definition ex_pool :: "cid ConnectionManager" where
  "ex_pool = \<lparr>cm_connList = [0], cm_lb = \<lparr>lb_weight = [1000], lb_minWeight = [10], lb_totalCount = 1, lb_nowBase = 100,
     lb_lastCount = 0, lb_lastIndex = 0, lb_lastBaseCount = 0\<rparr>\<rparr>"

lemma ex_pool_inv: "cm_inv ex_pool"
  by (simp add: ex_pool_def cm_inv_def lb_inv_def)

definition ex_dubbo :: "Response list \<Rightarrow> dubbo_server" where
  "ex_dubbo q = ex_server (ex_conn None NoAction) (new_LocalDubboAgent\<lparr>lda_connManager := ex_pool, lda_workerRespQueue := q\<rparr>)"

subsection \<open>Properties\<close>


definition dubbo_ex_msg :: dubbo_msg where
  "dubbo_ex_msg = \<lparr>dm_flags = 6, dm_Status = 20, dm_ID = 7, dm_Data = [52, 50]\<rparr>"


text \<open>
  C22: \<^verbatim>\<open>GetConnection\<close> of the dubbo agent returns a connection of its pool. With an empty pool it connects again and
  again; when the dubbo server accepts connections from some time on, the loop ends, however often it failed
  before.
\<close>

theorem dubbo_connection_found:
  assumes "dubbo_ready s" and "intn_ok K" and "accepts_from t0 K" and "cm_inv (lda_connManager (s_user s))"
  shows "\<exists>cid s'. dubbo_GetConnection K F s = Some (cid, s') \<and> cid \<in> set (cm_connList (lda_connManager (s_user s')))"
proof -
  from GetConnection_inv [OF assms(4)] obtain r cm where
    g: "GetConnection (lda_connManager (s_user s)) = Some (r, length (cm_connList (lda_connManager (s_user s))), cm)"
    and cm: "cm_connList cm = cm_connList (lda_connManager (s_user s))" "cm_inv cm"
    and r: "case r of None \<Rightarrow> cm_connList (lda_connManager (s_user s)) = [] | Some c \<Rightarrow> c \<in> set (cm_connList (lda_connManager (s_user s)))"
    by blast
  show ?thesis
  proof (cases "cm_connList (lda_connManager (s_user s)) = []")
    case True
    with makeConn_loop_returns [of "upd_user (\<lambda>u. u\<lparr>lda_connManager := cm\<rparr>) s" K t0 F] assms(1-3) cm g show ?thesis
      by (auto simp: dubbo_GetConnection_def dubbo_ready_def)
  next
    case False
    with r obtain c where "r = Some c" by (auto split: option.splits)
    with False r g cm show ?thesis by (simp add: dubbo_GetConnection_def)
  qed
qed

definition late_kernel :: kernel where
  "late_kernel = (ex_kernel (Inl 0) [])\<lparr>k_connect := (\<lambda>t fd sa. if t < 10 then Some (ErrnoOther 111) else None)\<rparr>"

theorem dubbo_connection_found_witness:
  "\<exists>cid s'. dubbo_GetConnection late_kernel ex_flags (ex_server (ex_conn None NoAction) new_LocalDubboAgent) = Some (cid, s') \<and>
     cid \<in> set (cm_connList (lda_connManager (s_user s')))"
  by (rule dubbo_connection_found [of _ _ 10])
    (simp_all add: dubbo_ready_def intn_ok_def accepts_from_def late_kernel_def ex_kernel_def new_LocalDubboAgent_def
      new_ConnectionManager_inv ex_server_def new_server_def)



text \<open>
  C39: requests of two consumers with the same number mix up their answers. The table of pending requests is keyed
  by the number that the consumer chose, and every consumer counts from one: the second request replaces the
  first, the answer of dubbo to the first is sent to the connection of the second, and the answer to the
  second is dropped.
\<close>

theorem dubbo_answer_misdelivered:
  assumes "SendDubboRequest Kd F req1 d = Some d1" and "SendDubboRequest Kd F req2 d1 = Some (pv_dubbo p)"
    and "ar_RequestID req1 = ar_RequestID req2" and "ar_conn req2 = Some c2"
    and "lda_workerRespQueue (s_user d) = [resp1, resp2]"
    and "rs_ID resp1 = ar_RequestID req1" and "rs_ID resp2 = ar_RequestID req2"
    and "SendAgentRequest Ka c2 200 (ar_RequestID req1) [] [] ParamType_Result
      (AppendResp (date (s_clock (pv_agents p))) [] (str ''200 OK'') [] (rs_Data resp1)) (pv_agents p) = Some a"
  shows "\<exists>p1 p2. dubbo_worker Ka date p = Some p1 \<and> pv_agents p1 = a \<and> dubbo_worker Ka date p1 = Some p2 \<and> pv_agents p2 = a"
proof -
  from SendDubboRequest_table [OF assms(1)] SendDubboRequest_table [OF assms(2)] assms(5)
  have t: "lda_requestMap (s_user (pv_dubbo p)) (ar_RequestID req2) = Some req2"
    and q: "lda_workerRespQueue (s_user (pv_dubbo p)) = [resp1, resp2]" by simp_all
  with assms(3,4,6-8) show ?thesis by (simp add: dubbo_worker_def Let_def)
qed

theorem dubbo_answer_misdelivered_witness:
  "\<exists>d1 p a p1 p2. SendDubboRequest (ex_kernel (Inl 0) []) ex_flags (agent_received 3 agent_ex_msg)
       (ex_dubbo [dubbo_received (dubbo_ex_msg\<lparr>dm_ID := 1\<rparr>), dubbo_received (dubbo_ex_msg\<lparr>dm_ID := 1\<rparr>)]) = Some d1 \<and>
     SendDubboRequest (ex_kernel (Inl 0) []) ex_flags (agent_received 0 agent_ex_msg) d1 = Some (pv_dubbo p) \<and>
     SendAgentRequest (ex_kernel (Inl 0) []) 0 200 1 [] [] ParamType_Result
       (AppendResp [] [] (str ''200 OK'') [] [52, 50]) (pv_agents p) = Some a \<and>
     dubbo_worker (ex_kernel (Inl 0) []) (\<lambda>t. []) p = Some p1 \<and> pv_agents p1 = a \<and>
     dubbo_worker (ex_kernel (Inl 0) []) (\<lambda>t. []) p1 = Some p2 \<and> pv_agents p2 = a"
proof -
  let ?K = "ex_kernel (Inl 0) []" and ?r = "dubbo_received (dubbo_ex_msg\<lparr>dm_ID := 1\<rparr>)"
  have w: "\<exists>n \<le> length data. k_write ?K t fd data = Inl n" for t fd data by (simp add: ex_kernel_def)
  have "sendable_pool (ex_dubbo [?r, ?r])"
    using ex_pool_inv by (simp add: sendable_pool_def ex_dubbo_def) (simp add: ex_pool_def)
  then obtain d1 where d1: "SendDubboRequest ?K ex_flags (agent_received 3 agent_ex_msg) (ex_dubbo [?r, ?r]) = Some d1"
    and "sendable_pool d1" using SendDubboRequest_returns w by blast
  then obtain d2 where d2: "SendDubboRequest ?K ex_flags (agent_received 0 agent_ex_msg) d1 = Some d2"
    using SendDubboRequest_returns w by blast
  let ?p = "\<lparr>pv_agents = ex_server (ex_conn None NoAction) [], pv_dubbo = d2\<rparr>"
  obtain a where a: "SendAgentRequest ?K 0 200 1 [] [] ParamType_Result (AppendResp [] [] (str ''200 OK'') [] [52, 50]) (pv_agents ?p) = Some a"
    unfolding SendAgentRequest_def using conn_Send_returns [OF _ _ w, of "pv_agents ?p" 0] by fastforce
  have "\<exists>p1 p2. dubbo_worker ?K (\<lambda>t. []) ?p = Some p1 \<and> pv_agents p1 = a \<and>
      dubbo_worker ?K (\<lambda>t. []) p1 = Some p2 \<and> pv_agents p2 = a"
    using d1 d2 a
    by (intro dubbo_answer_misdelivered [where ?req1.0 = "agent_received 3 agent_ex_msg" and ?req2.0 = "agent_received 0 agent_ex_msg"
          and ?resp1.0 = ?r and ?resp2.0 = ?r and ?c2.0 = 0 and d = "ex_dubbo [?r, ?r]" and ?d1.0 = d1])
      (simp_all add: agent_received_def agent_ex_msg_def dubbo_received_def dubbo_ex_msg_def ex_dubbo_def)
  then obtain p1 p2 where "dubbo_worker ?K (\<lambda>t. []) ?p = Some p1 \<and> pv_agents p1 = a \<and>
      dubbo_worker ?K (\<lambda>t. []) p1 = Some p2 \<and> pv_agents p2 = a" by blast
  with d1 d2 a show ?thesis by (intro exI [of _ d1] exI [of _ ?p] exI [of _ a] exI [of _ p1] exI [of _ p2]) simp
qed

end
