(* ===== verification/Dubbo_Alias.thy ===== *)
theory Dubbo_Alias
  imports Dubbo_Agent
begin

text \<open>
  The \<^verbatim>\<open>Data\<close> event of \<^verbatim>\<open>dubbo_agent.go\<close> once more, with the sharing that the value model of \<open>Dubbo_Agent\<close> does not
  see: byte slices are views of arrays in a store. The response that \<^verbatim>\<open>UnpackResponse\<close> returns holds a slice of
  the input, the input may be the stream's own buffer, and \<^verbatim>\<open>End\<close> moves the unprocessed rest to the front of
  that buffer while the response waits in the queue. \<open>grow\<close> is the capacity that \<^verbatim>\<open>append\<close> chooses for a new
  array.
\<close>

subsection \<open>Slices\<close>

record go_slice =
  sl_arr :: nat
  sl_off :: nat
  sl_len :: nat
  sl_cap :: nat

record store =
  st_arrays :: "nat \<Rightarrow> bytes"
  st_next :: nat

definition sl_val :: "store \<Rightarrow> go_slice \<Rightarrow> bytes" where
  "sl_val st s = take (sl_len s) (drop (sl_off s) (st_arrays st (sl_arr s)))"

definition sl_range :: "go_slice \<Rightarrow> int \<Rightarrow> int \<Rightarrow> go_slice go" where
  "sl_range s lo hi =
     (if 0 \<le> lo \<and> lo \<le> hi \<and> hi \<le> int (sl_cap s)
      then Some (s\<lparr>sl_off := sl_off s + nat lo, sl_len := nat hi - nat lo, sl_cap := sl_cap s - nat lo\<rparr>)
      else None)"

definition sl_from :: "go_slice \<Rightarrow> int \<Rightarrow> go_slice go" where
  "sl_from s lo = sl_range s lo (int (sl_len s))"

text \<open>\<^verbatim>\<open>append\<close> writes in place when the capacity suffices and copies to a new array otherwise.\<close>

definition sl_append :: "(nat \<Rightarrow> nat \<Rightarrow> nat) \<Rightarrow> go_slice \<Rightarrow> bytes \<Rightarrow> store \<Rightarrow> go_slice \<times> store" where
  "sl_append grow s d st =
     (let n = sl_len s + length d in
      if n \<le> sl_cap s
      then (s\<lparr>sl_len := n\<rparr>,
        st\<lparr>st_arrays := (st_arrays st)(sl_arr s := copy_at (sl_off s + sl_len s) d (st_arrays st (sl_arr s)))\<rparr>)
      else (let cap = grow (sl_cap s) n in
        (\<lparr>sl_arr = st_next st, sl_off = 0, sl_len = n, sl_cap = cap\<rparr>,
         st\<lparr>st_arrays := (st_arrays st)(st_next st := (sl_val st s @ d) @ replicate (cap - n) 0), st_next := Suc (st_next st)\<rparr>)))"

text \<open>A slice lies inside its array, and its array was allocated.\<close>

definition sl_ok :: "store \<Rightarrow> go_slice \<Rightarrow> bool" where
  "sl_ok st s \<longleftrightarrow> sl_len s \<le> sl_cap s \<and> sl_off s + sl_cap s \<le> length (st_arrays st (sl_arr s)) \<and> sl_arr s < st_next st"

subsection \<open>InputStream\<close>

definition Begin_s :: "(nat \<Rightarrow> nat \<Rightarrow> nat) \<Rightarrow> go_slice \<Rightarrow> go_slice \<Rightarrow> store \<Rightarrow> go_slice \<times> go_slice \<times> store" where
  "Begin_s grow b packet st =
     (let data = packet in
      if sl_len b > 0
      then (let (b, st) = sl_append grow b (sl_val st data) st in (b, b, st))
      else (b, data, st))"

definition End_s :: "(nat \<Rightarrow> nat \<Rightarrow> nat) \<Rightarrow> go_slice \<Rightarrow> go_slice \<Rightarrow> store \<Rightarrow> go_slice \<times> store" where
  "End_s grow b data st =
     (if sl_len data > 0
      then if sl_len data \<noteq> sl_len b then sl_append grow (b\<lparr>sl_len := 0\<rparr>) (sl_val st data) st else (b, st)
      else if sl_len b > 0 then (b\<lparr>sl_len := 0\<rparr>, st) else (b, st))"

subsection \<open>UnpackResponse\<close>

record sl_Response =
  sr_ID :: "64 word"
  sr_Status :: byte
  sr_Data :: go_slice

definition sr_val :: "store \<Rightarrow> sl_Response \<Rightarrow> Response" where
  "sr_val st r = \<lparr>rs_ID = sr_ID r, rs_Status = sr_Status r, rs_Data = sl_val st (sr_Data r)\<rparr>"

definition UnpackResponse_s :: "store \<Rightarrow> go_slice \<Rightarrow> (go_slice \<times> sl_Response option \<times> codec_error option) go" where
  "UnpackResponse_s st buf =
     (let readable = sl_len buf in
      if readable < HEADER_LENGTH then Some (buf, None, Some ErrHeaderNotEnough)
      else do {
        header \<leftarrow> sl_range buf 0 16;
        dataLen \<leftarrow> sl_range header 12 16;
        dLen \<leftarrow> get_be 4 (sl_val st dataLen);
        let tt = dLen + (16 :: 32 word);
        if sint (of_nat readable :: 32 word) < sint tt then Some (buf, None, Some ErrHeaderNotEnough)
        else do {
          idBytes \<leftarrow> sl_range buf 4 12;
          id' \<leftarrow> get_be 8 (sl_val st idBytes);
          status \<leftarrow> index (sl_val st buf) 3;
          data \<leftarrow> sl_range buf 18 (sint (tt - 1));
          leftover \<leftarrow> sl_from buf (sint tt);
          Some (leftover, Some \<lparr>sr_ID = id', sr_Status = status, sr_Data = data\<rparr>, None)
        }
      })"

lemma UnpackResponse_s_shorter:
  assumes "UnpackResponse_s st buf = Some (l, resp, None)"
  shows "sl_len l < sl_len buf"
proof -
  from assms have n: "\<not> sl_len buf < 16" by (auto simp: UnpackResponse_s_def)
  with assms obtain dl :: "32 word" and data where
    1: "sl_range buf 18 (sint (15 + dl)) = Some data" "sl_from buf (sint (dl + 16)) = Some l"
    by (auto simp: UnpackResponse_s_def Let_def split: bind_splits if_splits)
  from 1(2) have "0 \<le> sint (dl + 16)" "sl_len l = sl_len buf - nat (sint (dl + 16))"
    by (auto simp: sl_from_def sl_range_def split: if_splits)
  moreover have "sint (dl + 16) \<noteq> 0"
  proof
    assume "sint (dl + 16) = 0"
    then have "15 + dl = -1" by (simp add: signed_eq_0_iff eq_neg_iff_add_eq_0 add.commute)
    with 1(1) show False by (simp add: sl_range_def split: if_splits)
  qed
  ultimately show ?thesis using n by simp
qed

subsection \<open>The Data event\<close>

function dubbo_Data_loop_s ::
  "store \<Rightarrow> go_slice \<Rightarrow> sl_Response list \<Rightarrow> (go_slice \<times> sl_Response list \<times> Action) go" where
  "dubbo_Data_loop_s st data q =
     (case UnpackResponse_s st data of
        None \<Rightarrow> None
      | Some (leftover, resp, err) \<Rightarrow>
          if err \<noteq> None then
            if err = Some ErrHeaderNotEnough then Some (leftover, q, NoAction) else Some (data, q, Close)
          else do {
            r \<leftarrow> resp;
            dubbo_Data_loop_s st leftover (q @ [r])
          })"
  by pat_completeness auto
termination
  by (relation "measure (\<lambda>(st, data, q). sl_len data)") (auto dest: UnpackResponse_s_shorter)

declare dubbo_Data_loop_s.simps [simp del]

definition dubbo_Data_s ::
  "(nat \<Rightarrow> nat \<Rightarrow> nat) \<Rightarrow> go_slice \<Rightarrow> go_slice \<Rightarrow> store \<Rightarrow> (go_slice \<times> sl_Response list \<times> Action \<times> store) go" where
  "dubbo_Data_s grow b packet st = do {
     let (b, data, st) = Begin_s grow b packet st;
     (data, q, action) \<leftarrow> dubbo_Data_loop_s st data [];
     let (b, st) = End_s grow b data st;
     Some (b, q, action, st)
   }"

subsection \<open>Slices and their values\<close>

lemma sl_val_length [simp]: "sl_ok st s \<Longrightarrow> length (sl_val st s) = sl_len s"
  by (auto simp: sl_ok_def sl_val_def)

definition sl_sub :: "go_slice \<Rightarrow> nat \<Rightarrow> nat \<Rightarrow> go_slice" where
  "sl_sub s k n = s\<lparr>sl_off := sl_off s + k, sl_len := n, sl_cap := sl_cap s - k\<rparr>"

lemma sl_range_sub:
  "k + n \<le> sl_cap s \<Longrightarrow> sl_range s (int k) (int (k + n)) = Some (sl_sub s k n)"
  by (simp add: sl_range_def sl_sub_def)

lemma sl_sub_ok: "sl_ok st s \<Longrightarrow> k + n \<le> sl_len s \<Longrightarrow> sl_ok st (sl_sub s k n)"
  by (auto simp: sl_ok_def sl_sub_def)

lemma sl_val_sub: "k + n \<le> sl_len s \<Longrightarrow> sl_val st (sl_sub s k n) = take n (drop k (sl_val st s))"
  by (simp add: sl_val_def sl_sub_def drop_take add.commute min_def)

lemma UnpackResponse_s_eq:
  assumes "sl_ok st b" and "sl_len b < 2 ^ 31" and "16 \<le> sl_len b"
  defines "a \<equiv> sint (announced_len (sl_val st b) + 16)"
  shows "UnpackResponse_s st b =
    (if int (sl_len b) < a then Some (b, None, Some ErrHeaderNotEnough)
     else do {
       data \<leftarrow> sl_range b 18 (sint (announced_len (sl_val st b) + 16 - 1));
       leftover \<leftarrow> sl_from b a;
       Some (leftover, Some \<lparr>sr_ID = be_word (take 8 (drop 4 (sl_val st b))), sr_Status = sl_val st b ! 3, sr_Data = data\<rparr>, None)
     })"
proof -
  have cap: "sl_len b \<le> sl_cap b" using assms(1) by (simp add: sl_ok_def)
  have "sint (of_nat (sl_len b) :: 32 word) = int (sl_len b)" using assms(2) by (simp add: sint_small)
  moreover have "sl_range b 0 16 = Some (sl_sub b 0 16)" using sl_range_sub [of 0 16 b] assms(3) cap by simp
  moreover have "sl_range (sl_sub b 0 16) 12 16 = Some (sl_sub b 12 4)"
    using sl_range_sub [of 12 4 "sl_sub b 0 16"] assms(3) cap by (simp add: sl_sub_def)
  moreover have "sl_range b 4 12 = Some (sl_sub b 4 8)" using sl_range_sub [of 4 8 b] assms(3) cap by simp
  moreover have "get_be 4 (sl_val st (sl_sub b 12 4)) = Some (announced_len (sl_val st b))"
    "get_be 8 (sl_val st (sl_sub b 4 8)) = Some (be_word (take 8 (drop 4 (sl_val st b))) :: 64 word)"
    using assms(1,3) by (simp_all add: sl_val_sub get_be_def announced_len_def)
  moreover have "index (sl_val st b) 3 = Some (sl_val st b ! 3)" using assms(1,3) by (simp add: index_def)
  ultimately show ?thesis using assms(3) by (simp add: UnpackResponse_s_def Let_def a_def)
qed

lemma UnpackResponse_s_incomplete:
  assumes "sl_ok st b" and "sl_len b < 2 ^ 31" and "dubbo_frame (sl_val st b) = Some (Incomplete l)"
  shows "UnpackResponse_s st b = Some (b, None, Some ErrHeaderNotEnough)"
proof (cases "sl_len b < 16")
  case True
  then show ?thesis by (simp add: UnpackResponse_s_def)
next
  case False
  with assms dubbo_frame_eq [of "sl_val st b"] show ?thesis
    by (auto simp: UnpackResponse_s_eq dubbo_fits_def Let_def split: if_splits)
qed

lemma UnpackResponse_s_parsed:
  assumes "sl_ok st b" and "sl_len b < 2 ^ 31" and "dubbo_frame (sl_val st b) = Some (Parsed l r)"
  shows "\<exists>n. n \<le> sl_len b \<and> UnpackResponse_s st b = Some (sl_sub b n (sl_len b - n),
      Some \<lparr>sr_ID = rs_ID r, sr_Status = rs_Status r, sr_Data = sl_sub b 18 (length (rs_Data r))\<rparr>, None) \<and>
    l = drop n (sl_val st b) \<and> rs_Data r = sl_val st (sl_sub b 18 (length (rs_Data r)))"
proof -
  let ?v = "sl_val st b"
  define a where "a = sint (announced_len ?v + 16)"
  from assms dubbo_frame_eq [of ?v] have len: "16 \<le> sl_len b" "a \<le> int (sl_len b)" "19 \<le> a"
    and lr: "l = drop (nat a) ?v" "r = \<lparr>rs_ID = be_word (take 8 (drop 4 ?v)), rs_Status = ?v ! 3, rs_Data = take (nat a - 19) (drop 18 ?v)\<rparr>"
    by (auto simp: dubbo_fits_def Let_def a_def split: if_splits)
  have cap: "sl_len b \<le> sl_cap b" using assms(1) by (simp add: sl_ok_def)
  have lt: "a < 2 ^ 31" using sint_lt [of "announced_len ?v + 16"] by (simp add: a_def)
  have s: "sint (announced_len ?v + 16 - 1) = a - 1"
    using len(3) lt unfolding a_def by (subst sint_word_ariths) (simp add: signed_take_bit_int_eq_self)
  have d: "length (rs_Data r) = nat a - 19" using lr(2) len assms(1) by simp
  have "sl_range b 18 (a - 1) = Some (sl_sub b 18 (nat a - 19))"
    using sl_range_sub [of 18 "nat a - 19" b] len cap by (simp add: nat_diff_distrib' of_nat_diff)
  moreover have "sl_from b a = Some (sl_sub b (nat a) (sl_len b - nat a))"
    using sl_range_sub [of "nat a" "sl_len b - nat a" b] len cap by (simp add: sl_from_def)
  ultimately have "UnpackResponse_s st b = Some (sl_sub b (nat a) (sl_len b - nat a),
      Some \<lparr>sr_ID = rs_ID r, sr_Status = rs_Status r, sr_Data = sl_sub b 18 (length (rs_Data r))\<rparr>, None)"
    using len s lr(2) d by (simp add: UnpackResponse_s_eq [OF assms(1,2) len(1)] a_def [symmetric])
  moreover have "rs_Data r = sl_val st (sl_sub b 18 (length (rs_Data r)))"
    using len d lr(2) by (subst sl_val_sub) simp_all
  moreover have "nat a \<le> sl_len b" using len by simp
  ultimately show ?thesis using lr(1) by blast
qed

text \<open>Read before \<^verbatim>\<open>End\<close>, the queue holds the responses of the value model.\<close>

lemma dubbo_Data_loop_s_refines:
  assumes "frames dubbo_frame d rs e" and "d = sl_val st b" and "sl_ok st b" and "sl_len b < 2 ^ 31"
  shows "\<exists>q' k. dubbo_Data_loop_s st b q = Some (sl_sub b k (sl_len b - k), q @ q', NoAction) \<and>
    map (sr_val st) q' = rs \<and> k \<le> sl_len b \<and> e = drop k (sl_val st b) \<and>
    list_all (\<lambda>r. sl_arr (sr_Data r) = sl_arr b) q' \<and>
    (q' \<noteq> [] \<longrightarrow> sr_Data (hd q') = sl_sub b 18 (length (rs_Data (hd rs))))"
  using assms
proof (induction arbitrary: b q rule: frames.induct)
  case (frames_rest d l)
  then have "UnpackResponse_s st b = Some (b, None, Some ErrHeaderNotEnough)"
    using UnpackResponse_s_incomplete by blast
  with frames_rest show ?case by (subst dubbo_Data_loop_s.simps) (auto simp: sl_sub_def intro!: exI [of _ 0])
next
  case (frames_next d l r rs e)
  from UnpackResponse_s_parsed [of st b l r] frames_next obtain n where n: "n \<le> sl_len b"
    and u: "UnpackResponse_s st b = Some (sl_sub b n (sl_len b - n),
      Some \<lparr>sr_ID = rs_ID r, sr_Status = rs_Status r, sr_Data = sl_sub b 18 (length (rs_Data r))\<rparr>, None)"
    and l: "l = drop n (sl_val st b)" and rd: "rs_Data r = sl_val st (sl_sub b 18 (length (rs_Data r)))"
    by blast
  let ?b = "sl_sub b n (sl_len b - n)"
  let ?r = "\<lparr>sr_ID = rs_ID r, sr_Status = rs_Status r, sr_Data = sl_sub b 18 (length (rs_Data r))\<rparr>"
  have v: "l = sl_val st ?b" using n l frames_next.prems(2) by (simp add: sl_val_sub)
  have "sl_ok st ?b" using frames_next.prems(2) n by (simp add: sl_sub_ok)
  moreover have "sl_len ?b < 2 ^ 31" using frames_next.prems(3) by (simp add: sl_sub_def)
  ultimately obtain q' k where IH: "dubbo_Data_loop_s st ?b (q @ [?r]) = Some (sl_sub ?b k (sl_len ?b - k), (q @ [?r]) @ q', NoAction)"
    "map (sr_val st) q' = rs" "k \<le> sl_len ?b" "e = drop k (sl_val st ?b)" "list_all (\<lambda>r. sl_arr (sr_Data r) = sl_arr ?b) q'"
    using frames_next.IH [OF v, of "q @ [?r]"] by blast
  have "sl_sub ?b k (sl_len ?b - k) = sl_sub b (n + k) (sl_len b - (n + k))"
    using IH(3) n by (simp add: sl_sub_def)
  moreover have "sr_val st ?r = r" using rd by (simp add: sr_val_def)
  moreover have "drop k (sl_val st ?b) = drop (n + k) (sl_val st b)"
    unfolding v [symmetric] l by (simp add: add.commute)
  ultimately show ?case
    using u IH n by (subst dubbo_Data_loop_s.simps) (auto simp: sl_sub_def intro!: exI [of _ "?r # q'"] exI [of _ "n + k"])
qed

lemma sl_append_ok:
  assumes "sl_ok st s" and "\<And>c n. n \<le> grow c n" and "sl_append grow s d st = (s', st')"
  shows "sl_ok st' s' \<and> sl_val st' s' = sl_val st s @ d"
proof -
  have len: "length (sl_val st s) = sl_len s" using assms(1) by simp
  show ?thesis
  proof (cases "sl_len s + length d \<le> sl_cap s")
    case True
    let ?a = "st_arrays st (sl_arr s)"
    have "sl_off s + sl_len s + length d \<le> length ?a" using assms(1) True by (simp add: sl_ok_def)
    then have c: "copy_at (sl_off s + sl_len s) d ?a = take (sl_off s + sl_len s) ?a @ d @ drop (sl_off s + sl_len s + length d) ?a"
      by (rule copy_at_exact)
    have "take (sl_off s + sl_len s) ?a = take (sl_off s) ?a @ sl_val st s"
      by (simp add: sl_val_def take_add)
    moreover have "length (take (sl_off s) ?a) = sl_off s" using assms(1) by (simp add: sl_ok_def)
    ultimately have "take (sl_len s + length d) (drop (sl_off s) (copy_at (sl_off s + sl_len s) d ?a)) = sl_val st s @ d"
      unfolding c using len by simp
    moreover have "length (copy_at (sl_off s + sl_len s) d ?a) = length ?a" using assms(1) by (simp add: sl_ok_def)
    ultimately show ?thesis using True assms(1,3) by (auto simp: sl_append_def sl_ok_def sl_val_def)
  next
    case False
    with assms(3) len assms(2) [of "sl_len s + length d" "sl_cap s"] show ?thesis
      by (auto simp: sl_append_def Let_def sl_ok_def sl_val_def [of st'] )
  qed
qed

text \<open>A slice of another array keeps its value.\<close>

lemma sl_append_other:
  assumes "sl_append grow s d st = (s', st')" and "sl_arr t \<noteq> sl_arr s" and "sl_arr t < st_next st"
  shows "sl_val st' t = sl_val st t"
  using assms by (auto simp: sl_append_def Let_def sl_val_def split: if_splits)

lemma overwritten_data:
  assumes "length p = 18" and "18 < length h"
  shows "take (length d) (drop 18 (h @ drop (length h) ((p @ d @ x) @ y))) =
    take (min (length h - 18) (length d)) (drop 18 h) @ drop (min (length h - 18) (length d)) d"
  using assms by (cases "length h - 18 \<le> length d") (auto simp: min_def)

subsection \<open>Properties\<close>

text \<open>
  C24: as long as no partial response was left over, the queued responses keep their contents. When the stream is
  empty and the packet has an array of its own, every queued response reads, after the event, as
  the response that was sent, and the rest of the packet is carried over.
\<close>

theorem dubbo_data_kept:
  assumes "sl_ok st b" and "sl_len b = 0" and "sl_ok st packet" and "sl_len packet < 2 ^ 31" and "sl_arr packet \<noteq> sl_arr b"
    and "\<And>c n. n \<le> grow c n" and "sl_val st packet = concat (map dubbo_packet ms) @ h" and "dubbo_kept h"
  shows "\<exists>b' q st'. dubbo_Data_s grow b packet st = Some (b', q, NoAction, st') \<and>
    map (sr_val st') q = map dubbo_received ms \<and> sl_val st' b' = h"
proof -
  let ?v = "sl_val st packet"
  have "dubbo_fits ?v" using assms(3,4) by (simp add: dubbo_fits_def)
  with dubbo_packets.frames_packets [of ms h] assms(7,8) have f: "frames dubbo_frame ?v (map dubbo_received ms) h"
    by (simp add: list_all_iff)
  from dubbo_Data_loop_s_refines [OF f refl assms(3,4), of "[]"] obtain q k where
    loop: "dubbo_Data_loop_s st packet [] = Some (sl_sub packet k (sl_len packet - k), q, NoAction)"
    and q: "map (sr_val st) q = map dubbo_received ms" "list_all (\<lambda>r. sl_arr (sr_Data r) = sl_arr packet) q"
    and k: "k \<le> sl_len packet" "h = drop k ?v" by auto
  let ?rest = "sl_sub packet k (sl_len packet - k)"
  have rest: "sl_val st ?rest = h" using k assms(3) by (simp add: sl_val_sub)
  have rl: "sl_len ?rest = length h" using k assms(3) by (simp add: sl_sub_def)
  obtain b' st' where e: "End_s grow b ?rest st = (b', st')" by fastforce
  have "sl_val st' b' = h \<and> (\<forall>t. sl_arr t = sl_arr packet \<longrightarrow> sl_val st' t = sl_val st t)"
  proof (cases "h = []")
    case True
    with e rl assms(1,2) show ?thesis by (auto simp: End_s_def sl_val_def)
  next
    case False
    with e rl rest assms(2) have a: "sl_append grow (b\<lparr>sl_len := 0\<rparr>) h st = (b', st')" by (simp add: End_s_def)
    have "sl_ok st (b\<lparr>sl_len := 0\<rparr>)" using assms(1) by (simp add: sl_ok_def)
    from sl_append_ok [OF this assms(6) a] have "sl_val st' b' = h" by (simp add: sl_val_def [of st])
    moreover have "sl_val st' t = sl_val st t" if "sl_arr t = sl_arr packet" for t
      using sl_append_other [OF a, of t] that assms(3,5) by (simp add: sl_ok_def)
    ultimately show ?thesis by blast
  qed
  moreover from this q(2) have "map (sr_val st') q = map (sr_val st) q" by (auto simp: sr_val_def list_all_iff)
  ultimately show ?thesis
    using loop e q(1) assms(2) by (simp add: dubbo_Data_s_def Begin_s_def)
qed

definition dubbo_ex_other :: dubbo_msg where
  "dubbo_ex_other = \<lparr>dm_flags = 6, dm_Status = 20, dm_ID = 8, dm_Data = [57, 57]\<rparr>"

definition ex_store :: "bytes \<Rightarrow> bytes \<Rightarrow> store" where
  "ex_store x y = \<lparr>st_arrays = (\<lambda>_. [])(0 := x, 1 := y), st_next = 2\<rparr>"

lemma dubbo_ex_simps:
  "length (dubbo_packet dubbo_ex_msg) = 21" "length (dubbo_packet dubbo_ex_other) = 21"
  "dm_Data dubbo_ex_msg = [52, 50]" "dm_ID dubbo_ex_msg = 7"
  by (simp_all add: dubbo_packet_def dubbo_ex_msg_def dubbo_ex_other_def)

lemma ex_other_kept: "dubbo_kept (take 20 (dubbo_packet dubbo_ex_other))"
  by code_simp

theorem dubbo_data_kept_witness:
  "\<exists>b' q st'. dubbo_Data_s (\<lambda>c n. n) \<lparr>sl_arr = 0, sl_off = 0, sl_len = 0, sl_cap = 0\<rparr>
      \<lparr>sl_arr = 1, sl_off = 0, sl_len = 41, sl_cap = 41\<rparr>
      (ex_store [] (dubbo_packet dubbo_ex_msg @ take 20 (dubbo_packet dubbo_ex_other))) = Some (b', q, NoAction, st') \<and>
    map (sr_val st') q = map dubbo_received [dubbo_ex_msg] \<and> sl_val st' b' = take 20 (dubbo_packet dubbo_ex_other)"
  by (rule dubbo_data_kept)
    (simp_all add: ex_store_def sl_ok_def sl_val_def dubbo_ex_simps ex_other_kept)

text \<open>
  C38: otherwise they do not. When the front of a response waited in the stream, and its end arrives together with
  more than 18 bytes of the next response, the queued response holds a slice of the stream's buffer, and the
  move of the rest to the front of the buffer overwrites the response before a worker reads it: its data
  then starts with bytes of the next response.
\<close>

theorem dubbo_data_overwritten:
  assumes "sl_ok st b" and "sl_val st b = take j (dubbo_packet m)" and "0 < j" and "j < length (dubbo_packet m)"
    and "sl_ok st packet" and "sl_val st packet = drop j (dubbo_packet m) @ h"
    and "dubbo_kept h" and "18 < length h" and "length (dubbo_packet m @ h) < 2 ^ 31" and "\<And>c n. n \<le> grow c n"
    and "n = min (length h - 18) (length (dm_Data m))"
  shows "\<exists>b' r st'. dubbo_Data_s grow b packet st = Some (b', [r], NoAction, st') \<and> sl_val st' b' = h \<and>
    sr_ID r = dm_ID m \<and> sl_val st' (sr_Data r) = take n (drop 18 h) @ drop n (dm_Data m)"
proof -
  let ?p = "dubbo_packet m"
  have bl: "sl_len b = j" using assms(1,2,4) by (metis length_take min.absorb4 sl_val_length)
  obtain b1 st1 where a: "sl_append grow b (sl_val st packet) st = (b1, st1)" by fastforce
  from sl_append_ok [OF assms(1,10) a] assms(2,6) have ok1: "sl_ok st1 b1" and v1: "sl_val st1 b1 = ?p @ h"
    by (simp_all flip: append_assoc)
  have len1: "sl_len b1 = length ?p + length h" using ok1 v1 by (metis length_append sl_val_length)
  have "dubbo_fits (?p @ h)" using assms(9) by (simp add: dubbo_fits_def)
  with dubbo_packets.frames_packets [of "[m]" h] assms(7) have "frames dubbo_frame (sl_val st1 b1) [dubbo_received m] h"
    by (simp add: v1)
  from dubbo_Data_loop_s_refines [OF this refl ok1, of "[]"] len1 assms(9) obtain r k where
    loop: "dubbo_Data_loop_s st1 b1 [] = Some (sl_sub b1 k (sl_len b1 - k), [r], NoAction)"
    and k: "k \<le> sl_len b1" "h = drop k (sl_val st1 b1)"
    and rv: "sr_val st1 r = dubbo_received m" and rd: "sr_Data r = sl_sub b1 18 (length (rs_Data (dubbo_received m)))"
    by (auto simp: Cons_eq_map_conv)
  from rv have id: "sr_ID r = dm_ID m" by (simp add: sr_val_def dubbo_received_def)
  let ?n = "length (dm_Data m)"
  have rd: "sr_Data r = sl_sub b1 18 ?n" using rd by (simp add: dubbo_received_def)
  let ?rest = "sl_sub b1 k (sl_len b1 - k)"
  have rest: "sl_val st1 ?rest = h" "sl_len ?rest = length h" 
    using k ok1 sl_val_sub [of k "sl_len b1 - k" b1 st1] by (simp, simp add: sl_sub_def)
  let ?arr = "st_arrays st1 (sl_arr b1)"
  let ?st' = "st1\<lparr>st_arrays := (st_arrays st1)(sl_arr b1 := copy_at (sl_off b1) h ?arr)\<rparr>"
  have "End_s grow b1 ?rest st1 = (b1\<lparr>sl_len := length h\<rparr>, ?st')"
    using rest assms(8) len1 ok1 by (auto simp: End_s_def sl_append_def sl_ok_def dubbo_packet_def)
  then have ev: "dubbo_Data_s grow b packet st = Some (b1\<lparr>sl_len := length h\<rparr>, [r], NoAction, ?st')"
    using a loop bl assms(3) by (simp add: dubbo_Data_s_def Begin_s_def)
  have fit: "sl_off b1 + length h \<le> length ?arr" using ok1 len1 by (simp add: sl_ok_def)
  have c: "drop (sl_off b1) (copy_at (sl_off b1) h ?arr) = h @ drop (length h) (drop (sl_off b1) ?arr)"
    using fit by (simp add: copy_at_exact add.commute)
  have "take (length ?p + length h) (drop (sl_off b1) ?arr) = ?p @ h" using v1 len1 by (simp add: sl_val_def)
  then have arr: "drop (sl_off b1) ?arr = ?p @ h @ drop (length ?p + length h) (drop (sl_off b1) ?arr)"
    by (metis append_assoc append_take_drop_id)
  obtain p where p: "?p = p @ dm_Data m @ [LF]" "length p = 18"
    by (rule that [of "take 18 ?p"]) (simp_all add: dubbo_packet_def dubbo_response_def numeral_eq_Suc be_bytes_def)
  have "sl_val ?st' (b1\<lparr>sl_len := length h\<rparr>) = h" using c by (simp add: sl_val_def)
  moreover have "sl_val ?st' (sr_Data r) = take ?n (drop 18 (h @ drop (length h) (drop (sl_off b1) ?arr)))"
    unfolding c [symmetric] by (simp add: rd sl_val_def sl_sub_def add.commute)
  moreover have "\<dots> = take n (drop 18 h) @ drop n (dm_Data m)"
    by (subst arr, subst p) (rule overwritten_data [OF p(2) assms(8), of "dm_Data m" "[LF]", folded assms(11)])
  ultimately show ?thesis using ev id by auto
qed

theorem dubbo_data_overwritten_witness:
  "\<exists>b' r st'. dubbo_Data_s (\<lambda>c n. n) \<lparr>sl_arr = 0, sl_off = 0, sl_len = 5, sl_cap = 5\<rparr>
      \<lparr>sl_arr = 1, sl_off = 0, sl_len = 36, sl_cap = 36\<rparr>
      (ex_store (take 5 (dubbo_packet dubbo_ex_msg)) (drop 5 (dubbo_packet dubbo_ex_msg) @ take 20 (dubbo_packet dubbo_ex_other))) =
    Some (b', [r], NoAction, st') \<and> sr_ID r = 7 \<and> dm_Data dubbo_ex_msg = [52, 50] \<and> sl_val st' (sr_Data r) = [57, 57]"
proof -
  let ?h = "take 20 (dubbo_packet dubbo_ex_other)"
  let ?p = "dubbo_packet dubbo_ex_msg"
  let ?st = "ex_store (take 5 ?p) (drop 5 ?p @ ?h)"
  have "drop 18 ?h = [57, 57]" by (simp add: dubbo_ex_other_def dubbo_packet_def dubbo_response_def)
  moreover have "\<exists>b' r st'. dubbo_Data_s (\<lambda>c n. n) \<lparr>sl_arr = 0, sl_off = 0, sl_len = 5, sl_cap = 5\<rparr>
      \<lparr>sl_arr = 1, sl_off = 0, sl_len = 36, sl_cap = 36\<rparr> ?st = Some (b', [r], NoAction, st') \<and> sl_val st' b' = ?h \<and>
    sr_ID r = dm_ID dubbo_ex_msg \<and> sl_val st' (sr_Data r) = take 2 (drop 18 ?h) @ drop 2 (dm_Data dubbo_ex_msg)"
    by (rule dubbo_data_overwritten [where j = 5])
      (simp_all add: ex_store_def sl_ok_def sl_val_def dubbo_ex_simps ex_other_kept)
  ultimately show ?thesis by (auto simp: dubbo_ex_simps)
qed

end
