(* ===== verification/Remote_Agent.thy ===== *)
theory Remote_Agent
  imports Dubbo_Agent
begin

text \<open>
  \<^verbatim>\<open>remote_agent.go\<close> and the workers of \<^verbatim>\<open>local_http.go\<close>: the consumer side. The manager keeps the remote agents
  that were announced in etcd, each with its pool of connections and its table of pending requests; a worker of
  the HTTP server forwards a request to one of them and another worker returns the answer. The agents are Go
  pointers, here indices into \<open>ram_heap\<close>; the connections carry the index of their agent in their context. What
  etcd returns is an argument of \<open>listen_get\<close> and \<open>watch_event\<close>.

  The invariant \<open>ram_inv\<close> relates the pools to the contexts: a pool lists live connections of its own agent. The
  consumer, two event loops and their workers, is the step relation \<open>co_step\<close>.
\<close>

subsection \<open>Remote agents\<close>

datatype remote_error = noAgentConnectionError | noAgentError

definition remote_error_Error :: "remote_error \<Rightarrow> gostring" where
  "remote_error_Error e =
     (case e of noAgentConnectionError \<Rightarrow> str ''noAgentConnectionError'' | noAgentError \<Rightarrow> str ''noAgentError'')"

record RemoteAgent =
  ra_connManager :: "cid ConnectionManager"
  ra_lastSendIndex :: int
  ra_sendCount :: u64
  ra_addr :: gostring
  ra_port :: int
  ra_allInterface :: "gostring list"
  ra_requestMap :: "u64 \<rightharpoonup> cid HttpRequest"
  ra_reqID :: u64
  ra_defaultConn :: int

definition new_RemoteAgent :: RemoteAgent where
  "new_RemoteAgent = \<lparr>ra_connManager = new_ConnectionManager, ra_lastSendIndex = 0, ra_sendCount = 0, ra_addr = [],
     ra_port = 0, ra_allInterface = [], ra_requestMap = Map.empty, ra_reqID = 0, ra_defaultConn = 0\<rparr>"

text \<open>\<open>ram_spawned\<close> lists the goroutines \<^verbatim>\<open>go ra.CreateConnection(nil)\<close> that have not run yet, by their agent.\<close>

record RemoteAgentManager =
  ram_heap :: "RemoteAgent list"
  ram_hackManager :: "nat ConnectionManager"
  ram_workerRespQueue :: "cid AgentRequest list"
  ram_spawned :: "nat list"

definition new_RemoteAgentManager :: RemoteAgentManager where
  "new_RemoteAgentManager =
     \<lparr>ram_heap = [], ram_hackManager = new_ConnectionManager, ram_workerRespQueue = [], ram_spawned = []\<rparr>"

type_synonym ram_server = "(RemoteAgentManager, (cid, nat) AgentContext) server"

definition agent_at :: "nat \<Rightarrow> ('x RemoteAgentManager_scheme, 'y) server \<Rightarrow> RemoteAgent go" where
  "agent_at a s = index (ram_heap (s_user s)) (int a)"

definition put_agent :: "nat \<Rightarrow> RemoteAgent \<Rightarrow> ram_server \<Rightarrow> ram_server" where
  "put_agent a ra s = upd_user (\<lambda>u. u\<lparr>ram_heap := (ram_heap u)[a := ra]\<rparr>) s"

definition AddInterface :: "gostring \<Rightarrow> RemoteAgent \<Rightarrow> RemoteAgent" where
  "AddInterface interf ra = ra\<lparr>ra_allInterface := List.insert interf (ra_allInterface ra)\<rparr>"

text \<open>\<^verbatim>\<open>outConnect\<close> returns a connection whenever it returns no error.\<close>

definition CreateConnection :: "kernel \<Rightarrow> nat \<Rightarrow> ram_server \<Rightarrow> (cid option \<times> errno option \<times> ram_server) go" where
  "CreateConnection K a s = do {
     ra \<leftarrow> agent_at a s;
     (conn, err, s) \<leftarrow> outConnect K (ra_addr ra) (ra_port ra) (Some (new_AgentContext\<lparr>ac_ra := Some a\<rparr>)) s;
     if err = None then do {
       cid \<leftarrow> conn;
       (n, cm) \<leftarrow> AddConnection cid (ra_connManager ra);
       Some (conn, err, put_agent a (ra\<lparr>ra_connManager := cm\<rparr>) s)
     }
     else Some (conn, err, s)
   }"

definition remote_GetConnection :: "kernel \<Rightarrow> nat \<Rightarrow> ram_server \<Rightarrow> (cid option \<times> ram_server) go" where
  "remote_GetConnection K a s = do {
     ra \<leftarrow> agent_at a s;
     (connInterf, connCount, cm) \<leftarrow> GetConnection (ra_connManager ra);
     let s = put_agent a (ra\<lparr>ra_connManager := cm\<rparr>) s;
     let createConnCount = ra_defaultConn ra - int connCount;
     let s = upd_user (\<lambda>u. u\<lparr>ram_spawned := ram_spawned u @ replicate (nat createConnCount) a\<rparr>) s;
     case connInterf of
       Some cid \<Rightarrow> Some (Some cid, s)
     | None \<Rightarrow> do {
         (conn, err, s) \<leftarrow> CreateConnection K a s;
         Some (conn, s)
       }
   }"

definition SendRequest ::
  "kernel \<Rightarrow> nat \<Rightarrow> 'c AgentRequest \<Rightarrow> cid HttpRequest \<Rightarrow> ram_server \<Rightarrow> (remote_error option \<times> ram_server) go" where
  "SendRequest K a req httpReq s = do {
     (conn, s) \<leftarrow> remote_GetConnection K a s;
     case conn of
       None \<Rightarrow> Some (Some noAgentConnectionError, s)
     | Some cid \<Rightarrow> do {
         ra \<leftarrow> agent_at a s;
         let reqID = ra_reqID ra + 1;
         let s = put_agent a (ra\<lparr>ra_reqID := reqID, ra_requestMap := (ra_requestMap ra)(reqID \<mapsto> httpReq)\<rparr>) s;
         s \<leftarrow> SendAgentRequest K cid (ar_Result req) reqID (ar_Interf req) (ar_Method req) (ar_ParamType req) (ar_Param req) s;
         Some (None, s)
       }
   }"

subsection \<open>The manager\<close>

text \<open>The search of \<^verbatim>\<open>AddAgent\<close>, from the position \<open>idx\<close>.\<close>

fun find_agent :: "gostring \<Rightarrow> int \<Rightarrow> RemoteAgent list \<Rightarrow> nat \<Rightarrow> nat list \<Rightarrow> int go" where
  "find_agent addr port heap idx [] = Some (-1)"
| "find_agent addr port heap idx (a # as) = do {
     agent \<leftarrow> index heap (int a);
     if ra_addr agent = addr \<and> ra_port agent = port then Some (int idx)
     else find_agent addr port heap (Suc idx) as
   }"

fun create_conns :: "kernel \<Rightarrow> nat \<Rightarrow> nat \<Rightarrow> ram_server \<Rightarrow> ram_server go" where
  "create_conns K a 0 s = Some s"
| "create_conns K a (Suc n) s = do {
     (conn, err, s) \<leftarrow> CreateConnection K a s;
     create_conns K a n s
   }"

definition AddAgent ::
  "kernel \<Rightarrow> gostring \<Rightarrow> int \<Rightarrow> gostring \<Rightarrow> int \<Rightarrow> int \<Rightarrow> ram_server \<Rightarrow> ram_server go" where
  "AddAgent K addr port interf defaultConn weight s = do {
     let allConns = GetAllConnections (ram_hackManager (s_user s));
     existIdx \<leftarrow> find_agent addr port (ram_heap (s_user s)) 0 allConns;
     if existIdx \<ge> 0 then do {
       cm \<leftarrow> UpdateLB (of_int existIdx) (of_int weight) (ram_hackManager (s_user s));
       Some (upd_user (\<lambda>u. u\<lparr>ram_hackManager := cm\<rparr>) s)
     }
     else do {
       let existIdx = length allConns;
       let ra = AddInterface interf (new_RemoteAgent\<lparr>ra_addr := addr, ra_port := port, ra_defaultConn := defaultConn\<rparr>);
       let a = length (ram_heap (s_user s));
       let s = upd_user (\<lambda>u. u\<lparr>ram_heap := ram_heap u @ [ra]\<rparr>) s;
       s \<leftarrow> create_conns K a (nat defaultConn) s;
       (n, cm) \<leftarrow> AddConnection a (ram_hackManager (s_user s));
       cm \<leftarrow> UpdateLB (of_nat existIdx) (of_int weight) cm;
       Some (upd_user (\<lambda>u. u\<lparr>ram_hackManager := cm\<rparr>) s)
     }
   }"

definition getInterfaceKey :: "gostring \<Rightarrow> gostring \<Rightarrow> int \<Rightarrow> gostring" where
  "getInterfaceKey hostName interf port = interf @ hostName @ str '':'' @ Itoa port"

definition ForwardRequest ::
  "kernel \<Rightarrow> 'c AgentRequest \<Rightarrow> cid HttpRequest \<Rightarrow> ram_server \<Rightarrow> (remote_error option \<times> ram_server) go" where
  "ForwardRequest K agentReq httpReq s = do {
     (conn, connCount, cm) \<leftarrow> GetConnection (ram_hackManager (s_user s));
     let s = upd_user (\<lambda>u. u\<lparr>ram_hackManager := cm\<rparr>) s;
     if connCount = 0 then Some (Some noAgentError, s)
     else do {
       a \<leftarrow> conn;
       SendRequest K a agentReq httpReq s
     }
   }"

definition DeleteRemoteAgentConnection :: "kernel \<Rightarrow> cid \<Rightarrow> ram_server \<Rightarrow> ram_server go" where
  "DeleteRemoteAgentConnection K cid s = do {
     ctx \<leftarrow> conn_Context cid s;
     agentCtx \<leftarrow> ctx;
     a \<leftarrow> ac_ra agentCtx;
     ra \<leftarrow> agent_at a s;
     (deletedCount, cm) \<leftarrow> DeleteConnection cid (ra_connManager ra);
     (conn, err, s) \<leftarrow> CreateConnection K a (put_agent a (ra\<lparr>ra_connManager := cm\<rparr>) s);
     Some s
   }"

definition ram_closed_event ::
  "kernel \<Rightarrow> cid \<Rightarrow> ev_error option \<Rightarrow> ram_server \<Rightarrow> (Action \<times> ram_server) go" where
  "ram_closed_event K cid err s = do {
     s \<leftarrow> DeleteRemoteAgentConnection K cid s;
     Some (NoAction, s)
   }"

definition ram_enqueue :: "cid AgentRequest list \<Rightarrow> RemoteAgentManager \<Rightarrow> RemoteAgentManager" where
  "ram_enqueue q u = u\<lparr>ram_workerRespQueue := ram_workerRespQueue u @ q\<rparr>"

definition ram_events :: "kernel \<Rightarrow> int \<Rightarrow> (RemoteAgentManager, (cid, nat) AgentContext) Events" where
  "ram_events K loops = (agent_events loops ram_enqueue)\<lparr>ev_Closed := Some (ram_closed_event K)\<rparr>"

subsection \<open>ListenInterface\<close>

text \<open>The keys are \<^verbatim>\<open>.../host:port\<close>.\<close>

definition interface_addr :: "gostring \<Rightarrow> (gostring \<times> int) go" where
  "interface_addr keyTotal = do {
     tail \<leftarrow> slice_from keyTotal (LastIndexByte keyTotal 47 + 1);
     let keyValuePairs = Split tail (str '':'');
     addr \<leftarrow> index keyValuePairs 0;
     second \<leftarrow> index keyValuePairs 1;
     Some (addr, fst (Atoi second))
   }"

fun listen_get :: "kernel \<Rightarrow> int \<Rightarrow> gostring \<Rightarrow> gostring list \<Rightarrow> ram_server \<Rightarrow> ram_server go" where
  "listen_get K defaultAgentCount interf [] s = Some s"
| "listen_get K defaultAgentCount interf (key # keys) s = do {
     (addr, port) \<leftarrow> interface_addr key;
     s \<leftarrow> AddAgent K addr port interf defaultAgentCount 1000 s;
     listen_get K defaultAgentCount interf keys s
   }"

datatype etcd_event = PUT gostring gostring | DELETE gostring

definition watch_event :: "kernel \<Rightarrow> gostring \<Rightarrow> etcd_event \<Rightarrow> ram_server \<Rightarrow> ram_server go" where
  "watch_event K interf ev s =
     (case ev of
        PUT key val \<Rightarrow> do {
          (addr, port) \<leftarrow> interface_addr key;
          let weight = fst (Atoi val);
          if weight > 0 then AddAgent K addr port interf 4 weight s
          else AddAgent K addr port interf 4 1000 s
        }
      | DELETE key \<Rightarrow> Some s)"

subsection \<open>The consumer\<close>

text \<open>The consumer runs two servers, the HTTP server and the connections to the agents.\<close>

record consumer =
  co_http :: "(cid HttpRequest list, cid HttpContext) server"
  co_ram :: ram_server

text \<open>A worker of \<^verbatim>\<open>LocalHttpServer\<close> takes a request from the queue.\<close>

definition forwarded :: "'d HttpRequest \<Rightarrow> cid AgentRequest" where
  "forwarded req = new_AgentRequest\<lparr>ar_Interf := hq_interf req, ar_Method := hq_callMethod req,
     ar_ParamType := ParamType_String, ar_Param := hq_parameter req\<rparr>"

definition http_worker :: "kernel \<Rightarrow> kernel \<Rightarrow> (nat \<Rightarrow> bytes) \<Rightarrow> consumer \<Rightarrow> consumer go" where
  "http_worker Kh Kr date c =
     (case s_user (co_http c) of
        [] \<Rightarrow> Some c
      | req # q \<Rightarrow> do {
          let h = (co_http c)\<lparr>s_user := q\<rparr>;
          (err, r) \<leftarrow> ForwardRequest Kr (forwarded req) req (co_ram c);
          h \<leftarrow> (case err of
                 None \<Rightarrow> Some h
               | Some e \<Rightarrow> do {
                   conn \<leftarrow> hq_conn req;
                   conn_Send Kh conn (AppendResp (date (s_clock h)) [] (str ''500'') (remote_error_Error e)
                     (str ''forward request error'')) h
                 });
          Some (c\<lparr>co_http := h, co_ram := r\<rparr>)
        })"

text \<open>A worker of \<^verbatim>\<open>ServeConnectAgent\<close> takes a response from the queue.\<close>

definition remote_worker :: "kernel \<Rightarrow> (nat \<Rightarrow> bytes) \<Rightarrow> consumer \<Rightarrow> consumer go" where
  "remote_worker Kh date c =
     (case ram_workerRespQueue (s_user (co_ram c)) of
        [] \<Rightarrow> Some c
      | resp # q \<Rightarrow> do {
          let r = upd_user (\<lambda>u. u\<lparr>ram_workerRespQueue := q\<rparr>) (co_ram c);
          conn \<leftarrow> ar_conn resp;
          lastCtx \<leftarrow> conn_Context conn r;
          ctx \<leftarrow> lastCtx;
          a \<leftarrow> ac_ra ctx;
          ra \<leftarrow> agent_at a r;
          case ra_requestMap ra (ar_RequestID resp) of
            None \<Rightarrow> Some (c\<lparr>co_ram := r\<rparr>)
          | Some httpReq \<Rightarrow> do {
              hconn \<leftarrow> hq_conn httpReq;
              h \<leftarrow> conn_Send Kh hconn (http_Response (date (s_clock (co_http c))) httpReq resp) (co_http c);
              Some (c\<lparr>co_http := h,
                co_ram := put_agent a (ra\<lparr>ra_requestMap := (ra_requestMap ra)(ar_RequestID resp := None)\<rparr>) r\<rparr>)
            }
        })"

text \<open>A goroutine that was started to add a connection.\<close>

definition spawned_CreateConnection :: "kernel \<Rightarrow> nat \<Rightarrow> ram_server \<Rightarrow> ram_server go" where
  "spawned_CreateConnection K a s = do {
     (conn, err, s) \<leftarrow> CreateConnection K a (upd_user (\<lambda>u. u\<lparr>ram_spawned := remove1 a (ram_spawned u)\<rparr>) s);
     Some s
   }"

inductive co_step ::
  "kernel \<Rightarrow> kernel \<Rightarrow> (nat \<Rightarrow> bytes) \<Rightarrow> int \<Rightarrow> int \<Rightarrow> gostring \<Rightarrow> int \<Rightarrow> consumer \<Rightarrow> consumer \<Rightarrow> bool"
  for Kh Kr date lh lr interf count where
  http_loop: "loop_step Kh (http_events lh date) (co_http c) h \<Longrightarrow>
    co_step Kh Kr date lh lr interf count c (c\<lparr>co_http := h\<rparr>)"
| ram_loop: "loop_step Kr (ram_events Kr lr) (co_ram c) r \<Longrightarrow>
    co_step Kh Kr date lh lr interf count c (c\<lparr>co_ram := r\<rparr>)"
| http_request: "http_worker Kh Kr date c = Some c' \<Longrightarrow> co_step Kh Kr date lh lr interf count c c'"
| remote_reply: "remote_worker Kh date c = Some c' \<Longrightarrow> co_step Kh Kr date lh lr interf count c c'"
| remote_connect: "a \<in> set (ram_spawned (s_user (co_ram c))) \<Longrightarrow> spawned_CreateConnection Kr a (co_ram c) = Some r \<Longrightarrow>
    co_step Kh Kr date lh lr interf count c (c\<lparr>co_ram := r\<rparr>)"
| etcd_get: "listen_get Kr count interf keys (co_ram c) = Some r \<Longrightarrow>
    co_step Kh Kr date lh lr interf count c (c\<lparr>co_ram := r\<rparr>)"
| etcd_watch: "watch_event Kr interf ev (co_ram c) = Some r \<Longrightarrow>
    co_step Kh Kr date lh lr interf count c (c\<lparr>co_ram := r\<rparr>)"

subsection \<open>Its invariant\<close>

definition conn_agent :: "cid \<Rightarrow> ('u, ('c, nat) AgentContext) server \<Rightarrow> nat option" where
  "conn_agent cid s = (case s_heap s cid of None \<Rightarrow> None | Some c \<Rightarrow> (case c_ctx c of None \<Rightarrow> None | Some ctx \<Rightarrow> ac_ra ctx))"

text \<open>The pool of agent \<open>a\<close> lists live connections of that agent.\<close>

definition agent_pool :: "nat \<Rightarrow> cid ConnectionManager \<Rightarrow> ram_server \<Rightarrow> bool" where
  "agent_pool a cm s \<longleftrightarrow> live_pool cm s \<and>
     (s_next s < 4294967295 \<longrightarrow> list_all (\<lambda>cid. conn_agent cid s = Some a) (cm_connList cm))"

text \<open>The manager lists existing agents, each once.\<close>

definition agents_ok :: "RemoteAgentManager \<Rightarrow> bool" where
  "agents_ok u \<longleftrightarrow> (length (ram_heap u) < 4294967295 \<longrightarrow>
     cm_inv (ram_hackManager u) \<and> set (cm_connList (ram_hackManager u)) \<subseteq> {..<length (ram_heap u)})"

definition ram_inv :: "ram_server \<Rightarrow> bool" where
  "ram_inv s \<longleftrightarrow> s_lns s = [] \<and> agents_ok (s_user s) \<and>
     (\<forall>cid. s_heap s cid \<noteq> None \<longrightarrow> (\<exists>a < length (ram_heap (s_user s)). conn_agent cid s = Some a)) \<and>
     (\<forall>a < length (ram_heap (s_user s)). agent_pool a (ra_connManager (ram_heap (s_user s) ! a)) s)"

definition ram_safe :: "ram_server \<Rightarrow> ram_server \<Rightarrow> bool" where
  "ram_safe s s' \<longleftrightarrow> (ram_inv s \<longrightarrow> ram_inv s') \<and> (ev_inv s \<longrightarrow> keeps s s')"

lemma ram_safe_refl: "ram_safe s s"
  by (simp add: ram_safe_def keeps_refl)

lemma ram_safe_trans [trans]: "ram_safe s s' \<Longrightarrow> ram_safe s' s'' \<Longrightarrow> ram_safe s s''"
  by (auto simp: ram_safe_def dest: keeps_inv intro: keeps_trans)

lemma ram_user_safe:
  assumes "ram_inv s \<Longrightarrow> ram_inv (upd_user f s)"
  shows "ram_safe s (upd_user f s)"
  using assms by (simp add: ram_safe_def upd_user_keeps)

lemma conn_agent_simps [simp]: "conn_agent cid (upd_user f s) = conn_agent cid s"
  by (simp add: conn_agent_def)

lemma agent_pool_simps [simp]: "agent_pool a cm (upd_user f s) = agent_pool a cm s"
  by (simp add: agent_pool_def)

lemma conn_agent_view:
  assumes "user_view s' = user_view s"
  shows "conn_agent cid s' = conn_agent cid s"
proof -
  have "map_option c_ctx (s_heap s' cid) = map_option c_ctx (s_heap s cid)"
    using assms by (auto simp: user_view_def dest: fun_cong)
  then show ?thesis by (auto simp: conn_agent_def split: option.splits)
qed

lemma agent_pool_view: "user_view s' = user_view s \<Longrightarrow> agent_pool a cm s' = agent_pool a cm s"
  using live_pool_view [of s' s] conn_agent_view [of s' s] user_view_eqD [of s' s] by (simp add: agent_pool_def)

lemma view_live: "user_view s' = user_view s \<Longrightarrow> (s_heap s' cid = None) = (s_heap s cid = None)"
  using user_view_extends [of s' s] user_view_extends [of s s'] by (auto simp: extends_def)

lemma ram_inv_view: "user_view s' = user_view s \<Longrightarrow> ram_inv s' = ram_inv s"
  using agent_pool_view [of s' s] conn_agent_view [of s' s] user_view_eqD [of s' s] view_live [of s' s]
  by (simp add: ram_inv_def)

text \<open>Fields of an agent other than its pool do not matter.\<close>

lemma agent_at_Some: "agent_at a s = Some ra \<longleftrightarrow> a < length (ram_heap (s_user s)) \<and> ra = ram_heap (s_user s) ! a"
  by (auto simp: agent_at_def index_def)

lemma put_agent_inv:
  assumes "ram_inv s" and "a < length (ram_heap (s_user s))" and "agent_pool a (ra_connManager ra) s"
  shows "ram_inv (put_agent a ra s)"
  using assms by (auto simp: ram_inv_def put_agent_def agents_ok_def nth_list_update)

lemma put_agent_safe:
  assumes "agent_at a s = Some ra" and "ram_inv s \<Longrightarrow> agent_pool a (ra_connManager ra) s \<Longrightarrow> agent_pool a (ra_connManager ra') s"
  shows "ram_safe s (put_agent a ra' s)"
proof -
  have "ram_inv (put_agent a ra' s)" if "ram_inv s"
    using that assms(1) by (intro put_agent_inv assms(2)) (auto simp: agent_at_Some ram_inv_def)
  then show ?thesis by (simp add: ram_safe_def put_agent_def upd_user_keeps)
qed

text \<open>A new connection of agent \<open>a\<close>.\<close>

lemma outConnect_agent:
  assumes "outConnect K addr port (Some (new_AgentContext\<lparr>ac_ra := Some a\<rparr>)) s = Some (res, err, s')"
  shows "conn_agent cid s' = (if res = Some cid then Some a else conn_agent cid s)"
proof (cases res)
  case None
  with outConnect_view [OF assms] show ?thesis by (simp add: conn_agent_view [of s' s])
next
  case (Some x)
  with outConnect_view [OF assms] have "map_option c_ctx (s_heap s' cid) =
      (if cid = x then Some (Some (new_AgentContext\<lparr>ac_ra := Some a\<rparr>)) else map_option c_ctx (s_heap s cid))" by simp
  with Some show ?thesis by (auto simp: conn_agent_def split: option.splits if_splits)
qed

lemma live_pool_less: "live_pool cm s \<Longrightarrow> s_next s < 4294967295 \<Longrightarrow> cid \<in> set (cm_connList cm) \<Longrightarrow> cid < s_next s"
  by (auto simp: live_pool_def list_all_iff)

lemma outConnect_agent_pool:
  assumes "outConnect K addr port (Some (new_AgentContext\<lparr>ac_ra := Some a\<rparr>)) s = Some (res, err, s')" and "agent_pool b cm s"
  shows "agent_pool b cm s'"
proof -
  have n: "s_next s \<le> s_next s'" using outConnect_extends [OF assms(1)] by (simp add: extends_def)
  have "conn_agent cid s' = conn_agent cid s" if "s_next s < 4294967295" "cid \<in> set (cm_connList cm)" for cid
  proof -
    have "cid < s_next s" using assms(2) that by (auto simp: agent_pool_def intro: live_pool_less)
    moreover have "res \<noteq> Some (s_next s) \<longrightarrow> res = None" using outConnect_view [OF assms(1)] by (auto split: option.splits)
    ultimately show ?thesis using outConnect_agent [OF assms(1), of cid] by auto
  qed
  with assms(2) n live_pool_extends [OF _ outConnect_extends [OF assms(1)]] show ?thesis
    by (auto simp: agent_pool_def list_all_iff)
qed

lemma outConnect_live:
  assumes "outConnect K addr port ctx s = Some (res, err, s')" and "res \<noteq> Some cid"
  shows "(s_heap s' cid = None) = (s_heap s cid = None)"
proof (cases res)
  case None
  with outConnect_view [OF assms(1)] show ?thesis by (simp add: view_live [of s' s])
next
  case (Some x)
  with outConnect_view [OF assms(1)] assms(2) have "map_option c_ctx (s_heap s' cid) = map_option c_ctx (s_heap s cid)" by auto
  then show ?thesis by (rule map_option_live)
qed

lemma outConnect_inv:
  assumes "ram_inv s" and "a < length (ram_heap (s_user s))"
    and "outConnect K addr port (Some (new_AgentContext\<lparr>ac_ra := Some a\<rparr>)) s = Some (res, err, s')"
  shows "ram_inv s'"
proof -
  have u: "s_user s' = s_user s" "s_lns s' = s_lns s" using outConnect_view [OF assms(3)] by auto
  have "\<exists>b < length (ram_heap (s_user s)). conn_agent cid s' = Some b" if "s_heap s' cid \<noteq> None" for cid
  proof (cases "res = Some cid")
    case True
    with outConnect_agent [OF assms(3), of cid] assms(2) show ?thesis by auto
  next
    case False
    then have "s_heap s cid \<noteq> None" using outConnect_live [OF assms(3)] that by simp
    with False outConnect_agent [OF assms(3), of cid] assms(1) show ?thesis by (auto simp: ram_inv_def)
  qed
  with assms(1) u outConnect_agent_pool [OF assms(3)] show ?thesis by (auto simp: ram_inv_def)
qed

lemma agent_pool_add:
  assumes "agent_pool a cm s"
    and "outConnect K addr port (Some (new_AgentContext\<lparr>ac_ra := Some a\<rparr>)) s = Some (Some cid, err, s')"
    and "AddConnection cid cm = Some (k, cm')"
  shows "agent_pool a cm' s'"
proof -
  have "cm_connList cm' = cm_connList cm @ [cid]" using assms(3) by (auto simp: AddConnection_def split: bind_splits)
  moreover have "live_pool cm' s'" using assms live_pool_add by (auto simp: agent_pool_def)
  ultimately show ?thesis
    using outConnect_agent_pool [OF assms(2,1)] outConnect_agent [OF assms(2), of cid] by (simp add: agent_pool_def)
qed

lemma agent_pool_delete: "agent_pool a cm s \<Longrightarrow> DeleteConnection c cm = Some (k, cm') \<Longrightarrow> agent_pool a cm' s"
  using live_pool_delete [of cm s c k cm'] DeleteConnection_inv [of cm c]
  by (auto simp: agent_pool_def live_pool_def list_all_iff dest: set_remove1_subset [THEN subsetD])

lemma agent_pool_get: "agent_pool a cm s \<Longrightarrow> GetConnection cm = Some (r, k, cm') \<Longrightarrow> agent_pool a cm' s"
  using live_pool_get [of cm s r k cm'] GetConnection_inv [of cm] by (auto simp: agent_pool_def live_pool_def)

subsubsection \<open>The operations\<close>

lemma CreateConnection_safe:
  assumes "CreateConnection K a s = Some (conn, err, s')"
  shows "ram_safe s s'"
proof -
  from assms obtain ra s1 where ra: "agent_at a s = Some ra"
    and o: "outConnect K (ra_addr ra) (ra_port ra) (Some (new_AgentContext\<lparr>ac_ra := Some a\<rparr>)) s = Some (conn, err, s1)"
    by (auto simp: CreateConnection_def split: bind_splits if_splits)
  have u: "s_user s1 = s_user s" using outConnect_view [OF o] by simp
  from ra have a: "a < length (ram_heap (s_user s))" "ra = ram_heap (s_user s) ! a" by (simp_all add: agent_at_Some)
  have 1: "ram_safe s s1"
    using outConnect_inv [OF _ a(1) o] outConnect_keeps [OF _ o] by (simp add: ram_safe_def)
  show ?thesis
  proof (cases err)
    case None
    with assms ra o obtain cid n cm where cid: "conn = Some cid" and add: "AddConnection cid (ra_connManager ra) = Some (n, cm)"
      and s': "s' = put_agent a (ra\<lparr>ra_connManager := cm\<rparr>) s1"
      by (auto simp: CreateConnection_def split: bind_splits)
    have "ram_inv s'" if "ram_inv s"
      unfolding s'
    proof (rule put_agent_inv)
      show "ram_inv s1" using 1 that by (simp add: ram_safe_def)
      show "a < length (ram_heap (s_user s1))" using a u by simp
      have "agent_pool a (ra_connManager ra) s" using that a by (simp add: ram_inv_def)
      then show "agent_pool a (ra_connManager (ra\<lparr>ra_connManager := cm\<rparr>)) s1"
        using agent_pool_add [OF _ o [unfolded cid] add] by simp
    qed
    moreover have "keeps s s'" if "ev_inv s"
      using 1 that upd_user_keeps [of s1] keeps_inv [of s s1] unfolding s' put_agent_def ram_safe_def
      by (meson keeps_trans)
    ultimately show ?thesis by (simp add: ram_safe_def)
  next
    case (Some e)
    with assms ra o have "s' = s1" by (auto simp: CreateConnection_def split: bind_splits)
    with 1 show ?thesis by simp
  qed
qed

lemma spawned_safe: "ram_safe s (upd_user (\<lambda>u. u\<lparr>ram_spawned := f u\<rparr>) s)"
  by (rule ram_user_safe) (simp add: ram_inv_def agents_ok_def)

lemma queue_safe: "ram_safe s (upd_user (\<lambda>u. u\<lparr>ram_workerRespQueue := f u\<rparr>) s)"
  by (rule ram_user_safe) (simp add: ram_inv_def agents_ok_def)

lemma remote_GetConnection_safe:
  assumes "remote_GetConnection K a s = Some (conn, s')"
  shows "ram_safe s s'"
proof -
  from assms obtain ra r n cm where ra: "agent_at a s = Some ra" and g: "GetConnection (ra_connManager ra) = Some (r, n, cm)"
    by (auto simp: remote_GetConnection_def split: bind_splits)
  define s1 where "s1 = upd_user (\<lambda>u. u\<lparr>ram_spawned := ram_spawned u @ replicate (nat (ra_defaultConn ra - int n)) a\<rparr>)
    (put_agent a (ra\<lparr>ra_connManager := cm\<rparr>) s)"
  have "ram_safe s (put_agent a (ra\<lparr>ra_connManager := cm\<rparr>) s)"
    by (rule put_agent_safe [OF ra]) (simp add: agent_pool_get [OF _ g])
  also have "ram_safe (put_agent a (ra\<lparr>ra_connManager := cm\<rparr>) s) s1" unfolding s1_def by (rule spawned_safe)
  finally have 1: "ram_safe s s1" .
  from assms ra g have "(case r of Some cid \<Rightarrow> Some (Some cid, s1)
      | None \<Rightarrow> do { (conn, err, s) \<leftarrow> CreateConnection K a s1; Some (conn, s) }) = Some (conn, s')"
    by (auto simp: remote_GetConnection_def s1_def Let_def split: option.splits)
  with 1 show ?thesis
    by (auto split: option.splits bind_splits intro: ram_safe_trans CreateConnection_safe)
qed

lemma conn_Send_safe: "conn_Send K cid data s = Some s' \<Longrightarrow> ram_safe s s'"
  using ram_inv_view [OF user_view_conn_Send, of K cid data s s'] by (auto simp: ram_safe_def intro: conn_Send_keeps)

lemma SendRequest_safe:
  assumes "SendRequest K a req httpReq s = Some (err, s')"
  shows "ram_safe s s'"
proof -
  from assms obtain conn s1 where g: "remote_GetConnection K a s = Some (conn, s1)"
    by (auto simp: SendRequest_def split: bind_splits)
  note 1 = remote_GetConnection_safe [OF g]
  show ?thesis
  proof (cases conn)
    case None
    with assms g 1 show ?thesis by (simp add: SendRequest_def)
  next
    case (Some cid)
    with assms g obtain ra data where ra: "agent_at a s1 = Some ra"
      and sent: "conn_Send K cid data (put_agent a (ra\<lparr>ra_reqID := ra_reqID ra + 1,
        ra_requestMap := (ra_requestMap ra)(ra_reqID ra + 1 \<mapsto> httpReq)\<rparr>) s1) = Some s'"
      by (auto simp: SendRequest_def SendAgentRequest_def Let_def split: bind_splits)
    note 1
    also have "ram_safe s1 (put_agent a (ra\<lparr>ra_reqID := ra_reqID ra + 1,
        ra_requestMap := (ra_requestMap ra)(ra_reqID ra + 1 \<mapsto> httpReq)\<rparr>) s1)"
      by (rule put_agent_safe [OF ra]) simp
    also note conn_Send_safe [OF sent]
    finally show ?thesis .
  qed
qed

lemma hack_get_safe:
  assumes "GetConnection (ram_hackManager (s_user s)) = Some (r, n, cm)"
  shows "ram_safe s (upd_user (\<lambda>u. u\<lparr>ram_hackManager := cm\<rparr>) s)"
  using GetConnection_inv [of "ram_hackManager (s_user s)"] assms
  by (intro ram_user_safe) (auto simp: ram_inv_def agents_ok_def)

lemma ForwardRequest_safe:
  assumes "ForwardRequest K req httpReq s = Some (err, s')"
  shows "ram_safe s s'"
proof -
  from assms obtain r n cm where g: "GetConnection (ram_hackManager (s_user s)) = Some (r, n, cm)"
    by (auto simp: ForwardRequest_def split: bind_splits)
  note 1 = hack_get_safe [OF g]
  from assms g 1 show ?thesis
    by (auto simp: ForwardRequest_def Let_def split: bind_splits if_splits intro: ram_safe_trans SendRequest_safe)
qed

lemma DeleteRemoteAgentConnection_safe:
  assumes "DeleteRemoteAgentConnection K cid s = Some s'"
  shows "ram_safe s s'"
proof -
  from assms obtain a ra n cm conn err where ra: "agent_at a s = Some ra"
    and d: "DeleteConnection cid (ra_connManager ra) = Some (n, cm)"
    and c: "CreateConnection K a (put_agent a (ra\<lparr>ra_connManager := cm\<rparr>) s) = Some (conn, err, s')"
    by (auto simp: DeleteRemoteAgentConnection_def split: bind_splits)
  have "ram_safe s (put_agent a (ra\<lparr>ra_connManager := cm\<rparr>) s)"
    by (rule put_agent_safe [OF ra]) (simp add: agent_pool_delete [OF _ d])
  also note CreateConnection_safe [OF c]
  finally show ?thesis .
qed

lemma CreateConnection_manager:
  "CreateConnection K a s = Some (conn, err, s') \<Longrightarrow>
   ram_hackManager (s_user s') = ram_hackManager (s_user s) \<and> length (ram_heap (s_user s')) = length (ram_heap (s_user s))"
  by (auto simp: CreateConnection_def put_agent_def split: bind_splits if_splits dest!: outConnect_view)

lemma create_conns_safe:
  "create_conns K a n s = Some s' \<Longrightarrow> ram_safe s s' \<and>
   ram_hackManager (s_user s') = ram_hackManager (s_user s) \<and> length (ram_heap (s_user s')) = length (ram_heap (s_user s))"
proof (induction n arbitrary: s)
  case 0
  then show ?case by (simp add: ram_safe_refl)
next
  case (Suc n)
  then show ?case
    by (auto split: bind_splits dest!: Suc.IH dest: CreateConnection_manager intro: ram_safe_trans CreateConnection_safe)
qed

lemma find_agent_found: "find_agent addr port heap idx as = Some i \<Longrightarrow> 0 \<le> i \<Longrightarrow> idx \<le> nat i \<and> nat i < idx + length as"
  by (induction addr port heap idx as rule: find_agent.induct) (auto split: bind_splits if_splits)

text \<open>A new agent has an empty pool.\<close>

lemma new_agent_safe:
  assumes "ra_connManager ra = new_ConnectionManager"
  shows "ram_safe s (upd_user (\<lambda>u. u\<lparr>ram_heap := ram_heap u @ [ra]\<rparr>) s)"
proof (rule ram_user_safe)
  assume i: "ram_inv s"
  have "agent_pool (length (ram_heap (s_user s))) new_ConnectionManager s"
    by (simp add: agent_pool_def live_pool_new) (simp add: new_ConnectionManager_def)
  with i assms show "ram_inv (upd_user (\<lambda>u. u\<lparr>ram_heap := ram_heap u @ [ra]\<rparr>) s)"
    by (auto simp: ram_inv_def agents_ok_def nth_append less_Suc_eq)
qed

lemma agents_length:
  assumes "cm_inv cm" and "set (cm_connList cm) \<subseteq> {..<n}"
  shows "length (cm_connList cm) \<le> n"
proof -
  have "distinct (cm_connList cm)" using assms(1) by (simp add: cm_inv_def)
  with assms(2) show ?thesis by (metis card_lessThan card_mono distinct_card finite_lessThan)
qed

lemma agents_ok_update:
  assumes "agents_ok u" and "UpdateLB i w (ram_hackManager u) = Some cm" and "unat i < length (cm_connList (ram_hackManager u))"
  shows "agents_ok (u\<lparr>ram_hackManager := cm\<rparr>)"
  using assms UpdateLB_inv [of "ram_hackManager u" i w] agents_length [of "ram_hackManager u" "length (ram_heap u)"]
  by (auto simp: agents_ok_def)

lemma agents_ok_add:
  assumes "agents_ok u" and "AddConnection (length (ram_heap u)) (ram_hackManager u) = Some (n, cm)"
    and "UpdateLB (of_nat (length (cm_connList (ram_hackManager u)))) w cm = Some cm'"
    and "length heap = Suc (length (ram_heap u))"
  shows "agents_ok (u\<lparr>ram_heap := heap, ram_hackManager := cm'\<rparr>)"
proof -
  let ?l = "length (ram_heap u)" and ?cs = "cm_connList (ram_hackManager u)"
  have "cm_inv cm' \<and> set (cm_connList cm') \<subseteq> {..<Suc ?l}" if "Suc ?l < 4294967295"
  proof -
    from assms(1) that have inv: "cm_inv (ram_hackManager u)" and sub: "set ?cs \<subseteq> {..<?l}" by (simp_all add: agents_ok_def)
    have "length ?cs \<le> ?l" using inv sub by (rule agents_length)
    moreover have "?l \<notin> set ?cs" using sub by auto
    ultimately have cm: "cm_inv cm" "cm_connList cm = ?cs @ [?l]"
      using AddConnection_inv [OF inv, of ?l] that assms(2) by auto
    have "unat (of_nat (length ?cs) :: u32) = length ?cs"
      using \<open>length ?cs \<le> ?l\<close> that by (simp add: unat_of_nat_u32)
    with UpdateLB_inv [OF cm(1), of "of_nat (length ?cs)" w] assms(3) cm \<open>length ?cs \<le> ?l\<close> that sub show ?thesis by auto
  qed
  with assms(4) show ?thesis by (simp add: agents_ok_def)
qed

lemma AddAgent_safe:
  assumes "AddAgent K addr port interf count weight s = Some s'"
  shows "ram_safe s s'"
proof -
  let ?m = "ram_hackManager (s_user s)"
  from assms obtain i where f: "find_agent addr port (ram_heap (s_user s)) 0 (GetAllConnections ?m) = Some i"
    by (auto simp: AddAgent_def Let_def split: bind_splits)
  show ?thesis
  proof (cases "0 \<le> i")
    case True
    with assms f obtain cm where up: "UpdateLB (of_int i) (of_int weight) ?m = Some cm"
      and s': "s' = upd_user (\<lambda>u. u\<lparr>ram_hackManager := cm\<rparr>) s"
      by (auto simp: AddAgent_def Let_def split: bind_splits)
    have "nat i < length (cm_connList ?m)" using find_agent_found [OF f True] by (simp add: GetAllConnections_def)
    moreover have "unat (of_int i :: u32) \<le> nat i"
      using True by (simp add: unat_eq_nat_uint uint_word_of_int nat_mono zmod_le_nonneg_dividend)
    ultimately have "agents_ok ((s_user s)\<lparr>ram_hackManager := cm\<rparr>)" if "agents_ok (s_user s)"
      using that up by (intro agents_ok_update [where i = "of_int i"]) simp_all
    then show ?thesis unfolding s' by (intro ram_user_safe) (simp add: ram_inv_def)
  next
    case False
    define ra where "ra = AddInterface interf (new_RemoteAgent\<lparr>ra_addr := addr, ra_port := port, ra_defaultConn := count\<rparr>)"
    define a where "a = length (ram_heap (s_user s))"
    define s1 where "s1 = upd_user (\<lambda>u. u\<lparr>ram_heap := ram_heap u @ [ra]\<rparr>) s"
    from False assms f obtain s2 n cm cm' where c: "create_conns K a (nat count) s1 = Some s2"
      and add: "AddConnection a (ram_hackManager (s_user s2)) = Some (n, cm)"
      and up: "UpdateLB (of_nat (length (GetAllConnections ?m))) (of_int weight) cm = Some cm'"
      and s': "s' = upd_user (\<lambda>u. u\<lparr>ram_hackManager := cm'\<rparr>) s2"
      by (auto simp: AddAgent_def Let_def s1_def ra_def a_def split: bind_splits)
    have 1: "ram_safe s s1" unfolding s1_def
      by (rule new_agent_safe) (simp add: ra_def AddInterface_def new_RemoteAgent_def)
    have 2: "ram_safe s1 s2" "ram_hackManager (s_user s2) = ?m" "length (ram_heap (s_user s2)) = Suc a"
      using create_conns_safe [OF c] by (simp_all add: s1_def a_def)
    have "ram_inv s'" if "ram_inv s"
    proof -
      have i2: "ram_inv s2" using that 1 2(1) by (simp add: ram_safe_def)
      have "agents_ok ((s_user s)\<lparr>ram_heap := ram_heap (s_user s2), ram_hackManager := cm'\<rparr>)"
        by (rule agents_ok_add [of _ n cm "of_int weight"])
          (use that add up 2 in \<open>simp_all add: ram_inv_def a_def GetAllConnections_def\<close>)
      with i2 show ?thesis unfolding s' by (simp add: ram_inv_def agents_ok_def)
    qed
    moreover have "keeps s s'" if "ev_inv s"
      using ram_safe_trans [OF 1 2(1)] that upd_user_keeps [of s2] keeps_inv [of s s2] unfolding s' ram_safe_def
      by (meson keeps_trans)
    ultimately show ?thesis by (simp add: ram_safe_def)
  qed
qed

lemma listen_get_safe: "listen_get K n interf keys s = Some s' \<Longrightarrow> ram_safe s s'"
proof (induction keys arbitrary: s)
  case Nil
  then show ?case by (simp add: ram_safe_refl)
next
  case (Cons key keys)
  from Cons.prems obtain addr port s1 where "AddAgent K addr port interf n 1000 s = Some s1" "listen_get K n interf keys s1 = Some s'"
    by (auto split: bind_splits)
  with Cons.IH [of s1] show ?case by (blast intro: ram_safe_trans AddAgent_safe)
qed

lemma watch_event_safe: "watch_event K interf ev s = Some s' \<Longrightarrow> ram_safe s s'"
  by (auto simp: watch_event_def Let_def split: etcd_event.splits bind_splits if_splits intro: ram_safe_refl AddAgent_safe)

lemma spawned_CreateConnection_safe: "spawned_CreateConnection K a s = Some s' \<Longrightarrow> ram_safe s s'"
  by (auto simp: spawned_CreateConnection_def split: bind_splits intro: ram_safe_trans [OF spawned_safe CreateConnection_safe])

text \<open>The handlers change the contexts but not the agent of a connection.\<close>

lemma SetContext_ra_safe:
  assumes "s_heap s cid = Some c" and "c_ctx c = Some ctx" and "ac_ra ctx' = ac_ra ctx"
  shows "ram_safe s (conn_SetContext (Some ctx') cid s)"
proof -
  let ?s = "conn_SetContext (Some ctx') cid s"
  have a: "conn_agent x ?s = conn_agent x s" for x
    using assms by (simp add: conn_agent_def conn_SetContext_def)
  have "agent_pool a cm ?s = agent_pool a cm s" for a cm
    using a by (simp add: agent_pool_def) (simp add: conn_SetContext_def)
  with a have "ram_inv ?s = ram_inv s" by (simp add: ram_inv_def) (auto simp: conn_SetContext_def)
  then show ?thesis by (simp add: ram_safe_def SetContext_keeps)
qed

lemma agent_Data_loop_ra: "agent_Data_loop c ctx data q = Some (ctx', r) \<Longrightarrow> ac_ra ctx' = ac_ra ctx"
proof (induction "length data" arbitrary: ctx data q rule: less_induct)
  case less
  have "ac_ra ctx' = ac_ra x" if "parseAgentReq data (new_AgentRequest\<lparr>ar_conn := Some c\<rparr>) = Some (l, None, True, req)"
    "agent_Data_loop c x l y = Some (ctx', r)" for x l req y
    using less.hyps [OF _ that(2)] parseAgentReq_shorter [OF _ that(1)] by (simp add: new_AgentRequest_def)
  from this [of _ _ "ctx\<lparr>ac_is := ac_is ctx\<lparr>is_b := []\<rparr>, ac_req := None\<rparr>"] less.prems show ?case
    by (subst (asm) agent_Data_loop.simps) (auto simp: Let_def split: if_splits option.splits)
qed

lemma agent_Data_ra: "agent_Data c ctx packet = Some (ctx', r) \<Longrightarrow> ac_ra ctx' = ac_ra ctx"
  by (auto simp: agent_Data_def split: option.splits bind_splits prod.splits dest!: agent_Data_loop_ra)

lemma ram_opened_safe:
  assumes "agent_opened_event cid s = Some (out, opts, a, s')"
  shows "ram_safe s s'"
proof -
  from assms obtain c where c: "s_heap s cid = Some c"
    by (auto simp: agent_opened_event_def conn_Context_def split: bind_splits)
  show ?thesis
  proof (cases "c_ctx c")
    case None
    then have "\<not> ram_inv s" using c by (auto simp: ram_inv_def conn_agent_def)
    with assms show ?thesis
      by (auto simp: agent_opened_event_def agent_Opened_def ram_safe_def SetContext_keeps split: bind_splits)
  next
    case (Some ctx)
    with assms c SetContext_ra_safe [OF c Some refl] show ?thesis
      by (simp add: agent_opened_event_def agent_Opened_def conn_Context_def)
  qed
qed

lemma ram_data_safe:
  assumes "agent_data_event ram_enqueue cid packet s = Some (out, a, s')"
  shows "ram_safe s s'"
proof -
  from assms obtain c ctx ctx' q where c: "s_heap s cid = Some c" "c_ctx c = Some ctx"
    and d: "agent_Data cid ctx (Some packet) = Some (ctx', q, out, a)"
    and s': "s' = (conn_SetContext (Some ctx') cid s)\<lparr>s_user := ram_enqueue q (s_user s)\<rparr>"
    by (auto simp: agent_data_event_def conn_Context_def split: bind_splits)
  have "ram_safe s (conn_SetContext (Some ctx') cid s)"
    by (rule SetContext_ra_safe [OF c agent_Data_ra [OF d]])
  also have "ram_safe (conn_SetContext (Some ctx') cid s) (upd_user (\<lambda>u. u\<lparr>ram_workerRespQueue := ram_workerRespQueue u @ q\<rparr>)
      (conn_SetContext (Some ctx') cid s))"
    by (rule queue_safe)
  also have "\<dots> = s'" unfolding s' by (simp add: upd_user_def ram_enqueue_def conn_SetContext_def upd_conn_def)
  finally show ?thesis .
qed

lemma ram_closed_safe: "ram_closed_event K cid e s = Some (a, s') \<Longrightarrow> ram_safe s s'"
  by (auto simp: ram_closed_event_def split: bind_splits intro: DeleteRemoteAgentConnection_safe)

lemmas ram_events_safe = ram_opened_safe ram_closed_safe ram_data_safe

interpretation ram_loop: callbacks "ram_events K loops" for K loops
  by unfold_locales
    (auto simp: ram_events_def agent_events_def keeps_refl dest!: ram_events_safe simp: ram_safe_def)

interpretation ram_user: user_invariant "ram_events K loops" ram_inv for K loops
proof
  show "ram_inv s' = ram_inv s" if "user_view s' = user_view s" for s s' using that by (rule ram_inv_view)
  show "s_lns s = []" if "ram_inv s" for s using that by (simp add: ram_inv_def)
qed (auto simp: ram_events_def agent_events_def dest!: ram_events_safe simp: ram_safe_def)

subsection \<open>The consumer as a whole\<close>

definition co_inv :: "consumer \<Rightarrow> bool" where
  "co_inv c \<longleftrightarrow> ev_inv (co_http c) \<and> ev_inv (co_ram c) \<and> ram_inv (co_ram c)"

lemma co_inv_ram: "co_inv c \<Longrightarrow> ram_safe (co_ram c) r \<Longrightarrow> co_inv (c\<lparr>co_ram := r\<rparr>)"
  by (auto simp: co_inv_def ram_safe_def dest: keeps_inv)

lemma co_inv_both: "co_inv c \<Longrightarrow> ram_safe (co_ram c) r \<Longrightarrow> ev_inv h \<Longrightarrow> co_inv (c\<lparr>co_http := h, co_ram := r\<rparr>)"
  by (auto simp: co_inv_def ram_safe_def dest: keeps_inv)

lemma http_worker_inv:
  assumes "co_inv c" and "http_worker Kh Kr date c = Some c'"
  shows "co_inv c'"
proof (cases "s_user (co_http c)")
  case Nil
  with assms show ?thesis by (simp add: http_worker_def)
next
  case (Cons req q)
  let ?h = "(co_http c)\<lparr>s_user := q\<rparr>"
  have h: "ev_inv ?h" using assms(1) by (simp add: co_inv_def ev_inv_user)
  have "co_inv (c\<lparr>co_http := ?h, co_ram := r\<rparr>)" if "ForwardRequest Kr (forwarded req) req (co_ram c) = Some (err, r)" for err r
    using assms(1) ForwardRequest_safe [OF that] h by (rule co_inv_both)
  moreover have "co_inv (c\<lparr>co_http := h, co_ram := r\<rparr>)"
    if "ForwardRequest Kr (forwarded req) req (co_ram c) = Some (err, r)" "conn_Send Kh conn data ?h = Some h" for err r conn data h
    using assms(1) ForwardRequest_safe [OF that(1)] by (rule co_inv_both) (use h that(2) in \<open>auto dest: conn_Send_keeps keeps_inv\<close>)
  ultimately show ?thesis
    using Cons assms(2) by (auto simp: http_worker_def Let_def split: bind_splits option.splits)
qed

lemma remote_worker_inv:
  assumes "co_inv c" and "remote_worker Kh date c = Some c'"
  shows "co_inv c'"
proof (cases "ram_workerRespQueue (s_user (co_ram c))")
  case Nil
  with assms show ?thesis by (simp add: remote_worker_def)
next
  case (Cons resp q)
  define r where "r = upd_user (\<lambda>u. u\<lparr>ram_workerRespQueue := q\<rparr>) (co_ram c)"
  have 1: "ram_safe (co_ram c) r" unfolding r_def by (rule queue_safe)
  have "co_inv (c\<lparr>co_http := h, co_ram := put_agent a (ra\<lparr>ra_requestMap := m\<rparr>) r\<rparr>)"
    if "agent_at a r = Some ra" "conn_Send Kh hconn data (co_http c) = Some h" for a ra hconn data h m
  proof (rule co_inv_both [OF assms(1)])
    show "ram_safe (co_ram c) (put_agent a (ra\<lparr>ra_requestMap := m\<rparr>) r)"
      by (rule ram_safe_trans [OF 1 put_agent_safe [OF that(1)]]) simp
    show "ev_inv h" using that(2) assms(1) by (auto simp: co_inv_def dest: conn_Send_keeps keeps_inv)
  qed
  with Cons assms(2) co_inv_ram [OF assms(1) 1] show ?thesis
    by (auto simp: remote_worker_def r_def Let_def split: bind_splits option.splits)
qed

lemma co_step_inv: "co_step Kh Kr date lh lr interf count c c' \<Longrightarrow> co_inv c \<Longrightarrow> co_inv c'"
proof (induction rule: co_step.induct)
  case (http_loop c h)
  then have "ev_inv h"
    using http_loop.ev_step_grows [OF _ loop_step_ev_step [OF http_loop(1)]] by (auto simp: co_inv_def dest: grows_inv)
  with http_loop show ?case by (simp add: co_inv_def)
next
  case (ram_loop c r)
  then have "ev_inv r" "ram_inv r"
    using ram_loop.ev_step_grows [OF _ loop_step_ev_step [OF ram_loop(1)]] ram_user.loop_step_I [OF ram_loop(1)]
    by (auto simp: co_inv_def dest: grows_inv)
  with ram_loop show ?case by (simp add: co_inv_def)
next
  case (remote_connect a c r)
  then show ?case by (auto intro: co_inv_ram spawned_CreateConnection_safe)
next
  case (etcd_get keys c r)
  then show ?case by (auto intro: co_inv_ram listen_get_safe)
next
  case (etcd_watch ev c r)
  then show ?case by (auto intro: co_inv_ram watch_event_safe)
qed (auto intro: http_worker_inv remote_worker_inv)

lemma co_steps_inv: "(co_step Kh Kr date lh lr interf count)\<^sup>*\<^sup>* c c' \<Longrightarrow> co_inv c \<Longrightarrow> co_inv c'"
  by (induction rule: rtranclp_induct) (auto intro: co_step_inv)

subsection \<open>Agents join\<close>

lemma interface_addr_key:
  assumes "47 \<notin> set hostName" and "58 \<notin> set hostName" and "interf = pre @ [47]" and "- (2 ^ 63) \<le> port" and "port < 2 ^ 63"
  shows "interface_addr (getInterfaceKey hostName interf port) = Some (hostName, port)"
proof -
  have n: "47 \<notin> set (Itoa port)" "58 \<notin> set (Itoa port)" by (auto dest: Itoa_chars)
  let ?t = "hostName @ 58 # Itoa port"
  have "LastIndexByte (pre @ 47 # ?t) 47 = int (length pre)" using assms(1) n by (intro LastIndexByte_last) auto
  moreover have "Split ?t [58] = [hostName, Itoa port]" using assms(2) n by (simp add: Split_cut Split_last)
  ultimately show ?thesis
    using assms(3-5)
    by (simp add: interface_addr_def getInterfaceKey_def str_def slice_from_def slice_range_def index_def Atoi_Itoa nat_add_distrib)
qed

definition ram_ready :: "ram_server \<Rightarrow> bool" where
  "ram_ready s \<longleftrightarrow> s_loops s \<noteq> [] \<and> s_balance s = Random"

abbreviation (input) pool_of :: "nat \<Rightarrow> ram_server \<Rightarrow> cid list" where
  "pool_of a s \<equiv> cm_connList (ra_connManager (ram_heap (s_user s) ! a))"

abbreviation (input) with_pool :: "nat \<Rightarrow> cid ConnectionManager \<Rightarrow> ram_server \<Rightarrow> RemoteAgentManager" where
  "with_pool a cm s \<equiv> (s_user s)\<lparr>ram_heap := (ram_heap (s_user s))[a := (ram_heap (s_user s) ! a)\<lparr>ra_connManager := cm\<rparr>]\<rparr>"

lemma CreateConnection_adds:
  assumes "ram_inv s" and "ram_ready s" and "intn_ok K" and "accepts_from 0 K" and "a < length (ram_heap (s_user s))"
    and "s_next s < 2 ^ 32 - 2"
  shows "\<exists>s'. CreateConnection K a s = Some (Some (s_next s), None, s') \<and> ram_ready s' \<and> s_next s' = Suc (s_next s) \<and>
    (\<exists>cm. cm_connList cm = pool_of a s @ [s_next s] \<and>
      s_user s' = with_pool a cm s)"
proof -
  define ra where "ra = ram_heap (s_user s) ! a"
  obtain s1 where o: "outConnect K (ra_addr ra) (ra_port ra) (Some (new_AgentContext\<lparr>ac_ra := Some a\<rparr>)) s = Some (Some (s_next s), None, s1)"
    and r1: "ram_ready s1"
    using outConnect_returns [of s K "ra_addr ra" "ra_port ra" "Some (new_AgentContext\<lparr>ac_ra := Some a\<rparr>)" 0] assms(2-4)
    by (auto simp: ram_ready_def)
  have u: "s_user s1 = s_user s" "s_next s1 = Suc (s_next s)" using outConnect_view [OF o] by auto
  have pool: "agent_pool a (ra_connManager ra) s" using assms(1,5) by (simp add: ram_inv_def ra_def)
  then have inv: "cm_inv (ra_connManager ra)" and lt: "set (cm_connList (ra_connManager ra)) \<subseteq> {..<s_next s}"
    using assms(6) by (auto simp: agent_pool_def live_pool_def list_all_iff)
  have "length (cm_connList (ra_connManager ra)) < 4294967295" using agents_length [OF inv lt] assms(6) by simp
  moreover have "s_next s \<notin> set (cm_connList (ra_connManager ra))" using lt by auto
  ultimately obtain n cm where "AddConnection (s_next s) (ra_connManager ra) = Some (n, cm)"
    "cm_connList cm = cm_connList (ra_connManager ra) @ [s_next s]"
    using AddConnection_inv [OF inv] by blast
  with o u r1 assms(5) show ?thesis
    by (simp add: CreateConnection_def agent_at_def index_def ra_def put_agent_def ram_ready_def exI [of _ cm])
qed

lemma create_conns_adds:
  assumes "ram_inv s" and "ram_ready s" and "intn_ok K" and "accepts_from 0 K" and "a < length (ram_heap (s_user s))"
    and "s_next s + n < 2 ^ 32 - 1"
  shows "\<exists>s'. create_conns K a n s = Some s' \<and> ram_ready s' \<and> s_next s' = s_next s + n \<and>
    (\<exists>cm. cm_connList cm = pool_of a s @ [s_next s..<s_next s + n] \<and>
      s_user s' = with_pool a cm s)"
  using assms(1,2,5,6)
proof (induction n arbitrary: s)
  case 0
  then show ?case by (auto intro!: exI [of _ "ra_connManager (ram_heap (s_user s) ! a)"])
next
  case (Suc n)
  from CreateConnection_adds [OF Suc.prems(1,2) assms(3,4) Suc.prems(3)] Suc.prems(4) obtain s1 cm where
    c: "CreateConnection K a s = Some (Some (s_next s), None, s1)" and s1: "ram_ready s1" "s_next s1 = Suc (s_next s)"
    and cm: "cm_connList cm = pool_of a s @ [s_next s]"
    and u1: "s_user s1 = with_pool a cm s"
    by auto
  have "ram_inv s1" using CreateConnection_safe [OF c] Suc.prems(1) by (simp add: ram_safe_def)
  from Suc.IH [OF this s1(1)] s1(2) u1 Suc.prems(3,4) obtain s2 cm2 where
    "create_conns K a n s1 = Some s2" "ram_ready s2" "s_next s2 = Suc (s_next s) + n"
    "cm_connList cm2 = pool_of a s1 @ [Suc (s_next s)..<Suc (s_next s) + n]"
    "s_user s2 = with_pool a cm2 s1"
    by auto
  with c cm u1 Suc.prems(3) show ?case
    by (auto simp: upt_conv_Cons intro!: exI [of _ cm2])
qed

lemma find_agent_absent:
  assumes "set as \<subseteq> {..<length heap}" and "\<And>a. a \<in> set as \<Longrightarrow> \<not> (ra_addr (heap ! a) = addr \<and> ra_port (heap ! a) = port)"
  shows "find_agent addr port heap idx as = Some (-1)"
  using assms by (induction as arbitrary: idx) (auto simp: index_def)

text \<open>The agent of a provider is not known yet.\<close>

definition unknown_agent :: "gostring \<Rightarrow> int \<Rightarrow> RemoteAgentManager \<Rightarrow> bool" where
  "unknown_agent addr port u \<longleftrightarrow>
     list_all (\<lambda>a. ra_addr (ram_heap u ! a) \<noteq> addr \<or> ra_port (ram_heap u ! a) \<noteq> port) (cm_connList (ram_hackManager u))"

lemma AddAgent_joins:
  assumes "ram_inv s" and "ram_ready s" and "intn_ok K" and "accepts_from 0 K" and "unknown_agent addr port (s_user s)"
    and "s_next s + nat count < 2 ^ 32 - 1" and "length (ram_heap (s_user s)) < 2 ^ 32 - 2"
  defines "a \<equiv> length (ram_heap (s_user s))"
  shows "\<exists>s'. AddAgent K addr port interf count weight s = Some s' \<and> ram_ready s' \<and>
    length (ram_heap (s_user s')) = Suc a \<and> take a (ram_heap (s_user s')) = ram_heap (s_user s) \<and>
    cm_connList (ram_hackManager (s_user s')) = cm_connList (ram_hackManager (s_user s)) @ [a] \<and>
    ra_addr (ram_heap (s_user s') ! a) = addr \<and> ra_port (ram_heap (s_user s') ! a) = port \<and>
    pool_of a s' = [s_next s..<s_next s + nat count] \<and> s_next s' = s_next s + nat count"
proof -
  let ?m = "ram_hackManager (s_user s)"
  define ra where "ra = AddInterface interf (new_RemoteAgent\<lparr>ra_addr := addr, ra_port := port, ra_defaultConn := count\<rparr>)"
  have ra: "ra_connManager ra = new_ConnectionManager" "ra_addr ra = addr" "ra_port ra = port"
    by (simp_all add: ra_def AddInterface_def new_RemoteAgent_def)
  define s1 where "s1 = upd_user (\<lambda>u. u\<lparr>ram_heap := ram_heap u @ [ra]\<rparr>) s"
  have ok: "cm_inv ?m" "set (cm_connList ?m) \<subseteq> {..<a}" using assms(1,7) by (auto simp: ram_inv_def agents_ok_def a_def)
  have f: "find_agent addr port (ram_heap (s_user s)) 0 (GetAllConnections ?m) = Some (-1)"
    using ok(2) assms(5) by (intro find_agent_absent) (auto simp: GetAllConnections_def a_def unknown_agent_def list_all_iff)
  have "ram_inv s1" using new_agent_safe [OF ra(1), of s] assms(1) by (simp add: s1_def ram_safe_def)
  moreover have "ram_ready s1" using assms(2) by (simp add: ram_ready_def s1_def)
  ultimately obtain s2 cm where c: "create_conns K a (nat count) s1 = Some s2" and n: "s_next s2 = s_next s + nat count" "ram_ready s2"
    and cm: "cm_connList cm = [s_next s..<s_next s + nat count]"
    and u2: "s_user s2 = (s_user s)\<lparr>ram_heap := ram_heap (s_user s) @ [ra\<lparr>ra_connManager := cm\<rparr>]\<rparr>"
    using create_conns_adds [of s1 K a "nat count"] assms(3,4,6) ra
    by (auto simp: s1_def a_def new_ConnectionManager_def)
  have len: "length (cm_connList ?m) \<le> a" using ok by (rule agents_length)
  then obtain k m1 where add: "AddConnection a ?m = Some (k, m1)" and m1: "cm_connList m1 = cm_connList ?m @ [a]" "cm_inv m1"
    using AddConnection_inv [OF ok(1), of a] ok(2) assms(7) by (auto simp: a_def)
  have "unat (of_nat (length (cm_connList ?m)) :: u32) = length (cm_connList ?m)"
    using len assms(7) by (simp add: unat_of_nat_u32 a_def)
  then obtain m2 where up: "UpdateLB (of_nat (length (GetAllConnections ?m))) (of_int weight) m1 = Some m2"
    and m2: "cm_connList m2 = cm_connList ?m @ [a]"
    using UpdateLB_inv [OF m1(2), of "of_nat (length (cm_connList ?m))" "of_int weight"] m1(1) len assms(7)
    by (auto simp: GetAllConnections_def a_def)
  have "AddAgent K addr port interf count weight s = Some (upd_user (\<lambda>u. u\<lparr>ram_hackManager := m2\<rparr>) s2)"
    using f c add up u2 by (simp add: AddAgent_def Let_def a_def [symmetric] ra_def [symmetric] s1_def [symmetric])
  with m2 u2 n cm ra show ?thesis by (simp add: nth_append a_def ram_ready_def)
qed

text \<open>A manager that has just started, for the witnesses.\<close>

definition ex_ram :: ram_server where
  "ex_ram = (new_server new_RemoteAgentManager)\<lparr>s_loops := [new_loop [] 0 (5, 6)]\<rparr>"

lemma new_manager_inv: "s_user r = new_RemoteAgentManager \<Longrightarrow> s_lns r = [] \<Longrightarrow> s_heap r = Map.empty \<Longrightarrow> ram_inv r"
  by (simp add: ram_inv_def new_RemoteAgentManager_def agents_ok_def new_ConnectionManager_inv)
    (simp add: new_ConnectionManager_def)

lemma ex_ram_ok: "ram_inv ex_ram" "ram_ready ex_ram" "unknown_agent addr port (s_user ex_ram)"
  "s_next ex_ram = 0" "s_user ex_ram = new_RemoteAgentManager"
proof -
  show "ram_inv ex_ram" by (rule new_manager_inv) (simp_all add: ex_ram_def new_server_def)
qed (simp_all add: ram_ready_def unknown_agent_def ex_ram_def new_server_def new_RemoteAgentManager_def new_ConnectionManager_def)

lemma ex_kernel_ok: "intn_ok (ex_kernel w ps)" "accepts_from t0 (ex_kernel w ps)"
  by (simp_all add: intn_ok_def accepts_from_def ex_kernel_def)

subsection \<open>Properties\<close>



text \<open>
  A provider is found where it registered: the key that \<^verbatim>\<open>getInterfaceKey\<close> builds is read back by
  \<^verbatim>\<open>ListenInterface\<close> as the host name and the port, for a host name without slash and colon; a key
  without the colon makes \<^verbatim>\<open>ListenInterface\<close> panic.
\<close>

lemma interface_key_roundtrip:
  assumes "47 \<notin> set hostName" and "58 \<notin> set hostName" and "interf = pre @ [47]" and "- (2 ^ 63) \<le> port" and "port < 2 ^ 63"
  shows "interface_addr (getInterfaceKey hostName interf port) = Some (hostName, port) \<and>
    interface_addr (interf @ hostName) = None"
proof
  show "interface_addr (getInterfaceKey hostName interf port) = Some (hostName, port)" using assms by (rule interface_addr_key)
  show "interface_addr (interf @ hostName) = None"
    using assms(1-3) by (simp add: interface_addr_def str_def slice_from_def slice_range_def index_def Split_last nat_add_distrib)
qed

lemma interface_key_roundtrip_witness:
  "interface_addr (getInterfaceKey (str ''node7'') (str ''/dubbomesh/IHello/'') 30000) = Some (str ''node7'', 30000) \<and>
   interface_addr (str ''/dubbomesh/IHello/'' @ str ''node7'') = None"
  using interface_key_roundtrip [of "str ''node7''" "str ''/dubbomesh/IHello/''" "str ''/dubbomesh/IHello''" 30000]
  by (simp add: str_def)

text \<open>
  C21: a provider that registers joins: the event that etcd sends for its key adds an agent with the host name
  and port of the provider at the end of the manager's list, with four connections of its own, when the
  provider accepts connections.
\<close>

theorem provider_joins:
  assumes "47 \<notin> set hostName" and "58 \<notin> set hostName" and "interf = pre @ [47]" and "- (2 ^ 63) \<le> port" and "port < 2 ^ 63"
    and "ram_inv s" and "ram_ready s" and "intn_ok K" and "accepts_from 0 K" and "unknown_agent hostName port (s_user s)"
    and "s_next s + 4 < 2 ^ 32 - 1" and "length (ram_heap (s_user s)) < 2 ^ 32 - 2" and "a = length (ram_heap (s_user s))"
  shows "\<exists>s'. watch_event K interf (PUT (getInterfaceKey hostName interf port) val) s = Some s' \<and>
    cm_connList (ram_hackManager (s_user s')) = cm_connList (ram_hackManager (s_user s)) @ [a] \<and>
    ra_addr (ram_heap (s_user s') ! a) = hostName \<and> ra_port (ram_heap (s_user s') ! a) = port \<and>
    cm_connList (ra_connManager (ram_heap (s_user s') ! a)) = [s_next s..<s_next s + 4]"
proof -
  define w where "w = fst (Atoi val)"
  from AddAgent_joins [OF assms(6-10), of 4 interf "if w > 0 then w else 1000"] assms(11-13) show ?thesis
    by (auto simp: watch_event_def Let_def interface_addr_key [OF assms(1-5)] w_def split: if_splits)
qed

theorem provider_joins_witness:
  "\<exists>s'. watch_event (ex_kernel (Inl 0) []) (str ''/d/'') (PUT (getInterfaceKey (str ''node7'') (str ''/d/'') 30000) []) ex_ram = Some s' \<and>
    cm_connList (ram_hackManager (s_user s')) = [0] \<and> ra_addr (ram_heap (s_user s') ! 0) = str ''node7'' \<and>
    ra_port (ram_heap (s_user s') ! 0) = 30000 \<and> cm_connList (ra_connManager (ram_heap (s_user s') ! 0)) = [0..<4]"
  using provider_joins [of "str ''node7''" "str ''/d/''" "str ''/d''" 30000 ex_ram "ex_kernel (Inl 0) []" 0 "[]"] ex_ram_ok ex_kernel_ok
  by (simp add: str_def new_RemoteAgentManager_def new_ConnectionManager_def)

end
