(* ===== verification/Discovery.thy ===== *)
theory Discovery
  imports Remote_Agent "HOL-Library.Sublist"
begin

text \<open>
  How providers are found: \<^verbatim>\<open>RegisterInterface\<close> and \<^verbatim>\<open>ListenInterface\<close> of \<^verbatim>\<open>remote_agent.go\<close> over the client of etcd.
  The client is a parameter, the record \<open>etcd\<close> of the calls the code makes, on a store of any type; what is
  used of it is \<open>etcd_ok\<close>: reading by prefix gives the keys with this prefix that were put. A provider runs
  \<^verbatim>\<open>RegisterInterface\<close> in a goroutine that never returns, so its key stays as long as its lease is kept.
\<close>

subsection \<open>RegisterInterface and ListenInterface\<close>

record 'e etcd =
  et_New :: "gostring list \<Rightarrow> 'e \<Rightarrow> gostring + 'e"
  et_Grant :: "int \<Rightarrow> 'e \<Rightarrow> gostring + int \<times> 'e"
  et_Put :: "gostring \<Rightarrow> gostring \<Rightarrow> int \<Rightarrow> 'e \<Rightarrow> gostring + 'e"
  et_KeepAlive :: "int \<Rightarrow> 'e \<Rightarrow> gostring + 'e"
  et_Get :: "gostring \<Rightarrow> 'e \<Rightarrow> gostring + gostring list"
  et_Watch :: "gostring \<Rightarrow> 'e \<Rightarrow> etcd_event list list"

definition etcd_endpoints :: "gostring \<Rightarrow> int \<Rightarrow> gostring list" where
  "etcd_endpoints etcdHost etcdPort = [str ''http://'' @ etcdHost @ str '':'' @ Itoa etcdPort]"

text \<open>\<^verbatim>\<open>log.Fatal\<close> ends the process; otherwise \<^verbatim>\<open>select {}\<close> blocks for ever.\<close>

datatype 'a process = Fatal gostring | Blocks 'a

definition RegisterInterface :: "'e etcd \<Rightarrow> gostring list \<Rightarrow> gostring \<Rightarrow> gostring \<Rightarrow> int \<Rightarrow> 'e \<Rightarrow> 'e process" where
  "RegisterInterface E endpoints hostName interf port e =
     (case et_New E endpoints e of
        Inl err \<Rightarrow> Fatal err
      | Inr e \<Rightarrow>
      case et_Grant E 5 e of
        Inl err \<Rightarrow> Fatal err
      | Inr (lease, e) \<Rightarrow>
      case et_Put E (getInterfaceKey hostName interf port) [] lease e of
        Inl err \<Rightarrow> Fatal err
      | Inr e \<Rightarrow>
      case et_KeepAlive E lease e of
        Inl err \<Rightarrow> Fatal err
      | Inr e \<Rightarrow> Blocks e)"

fun watch_events :: "kernel \<Rightarrow> gostring \<Rightarrow> etcd_event list \<Rightarrow> ram_server \<Rightarrow> ram_server go" where
  "watch_events K interf [] s = Some s"
| "watch_events K interf (ev # evs) s = do { s \<leftarrow> watch_event K interf ev s; watch_events K interf evs s }"

text \<open>The end of the watch channel is the end of the listing: \<open>Inr\<close> is the return.\<close>

definition ListenInterface ::
  "'e etcd \<Rightarrow> gostring list \<Rightarrow> kernel \<Rightarrow> int \<Rightarrow> gostring \<Rightarrow> 'e \<Rightarrow> ram_server \<Rightarrow> (gostring + ram_server) go" where
  "ListenInterface E endpoints K defaultAgentCount interf e s =
     (case et_New E endpoints e of
        Inl err \<Rightarrow> Some (Inl err)
      | Inr e \<Rightarrow>
      case et_Get E interf e of
        Inl err \<Rightarrow> Some (Inl err)
      | Inr keys \<Rightarrow> do {
          s \<leftarrow> listen_get K defaultAgentCount interf keys s;
          s \<leftarrow> watch_events K interf (concat (et_Watch E interf e)) s;
          Some (Inr s)
        })"

subsection \<open>The agents of a manager\<close>

definition agents_of :: "ram_server \<Rightarrow> (gostring \<times> int) list" where
  "agents_of s = map (\<lambda>a. (ra_addr (ram_heap (s_user s) ! a), ra_port (ram_heap (s_user s) ! a))) (cm_connList (ram_hackManager (s_user s)))"

definition provider_ok :: "gostring \<times> int \<Rightarrow> bool" where
  "provider_ok hp \<longleftrightarrow> 47 \<notin> set (fst hp) \<and> 58 \<notin> set (fst hp) \<and> - (2 ^ 63) \<le> snd hp \<and> snd hp < 2 ^ 63"

abbreviation (input) key_of :: "gostring \<Rightarrow> gostring \<times> int \<Rightarrow> gostring" where
  "key_of interf hp \<equiv> getInterfaceKey (fst hp) interf (snd hp)"

lemma unknown_agents_of: "(addr, port) \<notin> set (agents_of s) \<Longrightarrow> unknown_agent addr port (s_user s)"
  by (auto simp: unknown_agent_def agents_of_def list_all_iff)

lemma key_of_addr: "provider_ok hp \<Longrightarrow> interf = pre @ [47] \<Longrightarrow> interface_addr (key_of interf hp) = Some hp"
  using interface_addr_key [of "fst hp" interf pre "snd hp"] by (simp add: provider_ok_def)

lemma AddAgent_agents:
  assumes "ram_inv s" and "ram_ready s" and "intn_ok K" and "accepts_from 0 K" and "hp \<notin> set (agents_of s)"
    and "s_next s + nat count < 2 ^ 32 - 1" and "length (ram_heap (s_user s)) < 2 ^ 32 - 2"
  shows "\<exists>s'. AddAgent K (fst hp) (snd hp) interf count weight s = Some s' \<and> ram_inv s' \<and> ram_ready s' \<and>
    agents_of s' = agents_of s @ [hp] \<and> s_next s' = s_next s + nat count \<and>
    length (ram_heap (s_user s')) = Suc (length (ram_heap (s_user s)))"
proof -
  let ?a = "length (ram_heap (s_user s))"
  have "unknown_agent (fst hp) (snd hp) (s_user s)" using assms(5) unknown_agents_of [of "fst hp" "snd hp" s] by simp
  from AddAgent_joins [OF assms(1-4) this assms(6,7), of interf weight] obtain s' where
    add: "AddAgent K (fst hp) (snd hp) interf count weight s = Some s'" and r: "ram_ready s'"
    and h: "length (ram_heap (s_user s')) = Suc ?a" "take ?a (ram_heap (s_user s')) = ram_heap (s_user s)"
    and l: "cm_connList (ram_hackManager (s_user s')) = cm_connList (ram_hackManager (s_user s)) @ [?a]"
    and hp: "ra_addr (ram_heap (s_user s') ! ?a) = fst hp" "ra_port (ram_heap (s_user s') ! ?a) = snd hp"
    and n: "s_next s' = s_next s + nat count"
    by blast
  have "ram_inv s'" using AddAgent_safe [OF add] assms(1) by (simp add: ram_safe_def)
  moreover have "set (cm_connList (ram_hackManager (s_user s))) \<subseteq> {..<?a}"
    using assms(1,7) by (auto simp: ram_inv_def agents_ok_def)
  then have "ram_heap (s_user s') ! a = ram_heap (s_user s) ! a" if "a \<in> set (cm_connList (ram_hackManager (s_user s)))" for a
    using that nth_take [of a ?a "ram_heap (s_user s')"] h(2) by auto
  then have "agents_of s' = agents_of s @ [hp]" using l hp by (simp add: agents_of_def)
  ultimately show ?thesis using add r n h(1) by blast
qed

lemma listen_get_agents:
  assumes "intn_ok K" and "accepts_from 0 K" and "interf = pre @ [47]" and "list_all provider_ok ps"
    and "ram_inv s" and "ram_ready s" and "distinct (agents_of s @ ps)"
    and "s_next s + length ps * nat count < 2 ^ 32 - 1" and "length (ram_heap (s_user s)) + length ps < 2 ^ 32 - 1"
  shows "\<exists>s'. listen_get K count interf (map (key_of interf) ps) s = Some s' \<and> agents_of s' = agents_of s @ ps \<and> ram_inv s'"
  using assms(4-)
proof (induction ps arbitrary: s)
  case Nil
  then show ?case by simp
next
  case (Cons hp ps)
  have "\<exists>s'. AddAgent K (fst hp) (snd hp) interf count 1000 s = Some s' \<and> ram_inv s' \<and> ram_ready s' \<and>
    agents_of s' = agents_of s @ [hp] \<and> s_next s' = s_next s + nat count \<and>
    length (ram_heap (s_user s')) = Suc (length (ram_heap (s_user s)))"
    by (rule AddAgent_agents [OF Cons.prems(2,3) assms(1,2)]) (use Cons.prems in auto)
  then obtain s1 where add: "AddAgent K (fst hp) (snd hp) interf count 1000 s = Some s1" and s1: "ram_inv s1" "ram_ready s1"
    "agents_of s1 = agents_of s @ [hp]" "s_next s1 = s_next s + nat count" "length (ram_heap (s_user s1)) = Suc (length (ram_heap (s_user s)))"
    by blast
  have "\<exists>s'. listen_get K count interf (map (key_of interf) ps) s1 = Some s' \<and> agents_of s' = agents_of s1 @ ps \<and> ram_inv s'"
    by (rule Cons.IH) (use Cons.prems s1 in \<open>simp_all add: algebra_simps\<close>)
  with add s1(3) key_of_addr [of hp interf pre] assms(3) Cons.prems(1) show ?case by (cases hp) auto
qed

subsection \<open>Registered providers\<close>

text \<open>What the store promises: \<open>ks\<close> gives the keys it holds.\<close>

definition etcd_ok :: "'e etcd \<Rightarrow> ('e \<Rightarrow> gostring set) \<Rightarrow> bool" where
  "etcd_ok E ks \<longleftrightarrow>
     (\<forall>p e keys. et_Get E p e = Inr keys \<longrightarrow> distinct keys \<and> set keys = {k \<in> ks e. prefix p k}) \<and>
     (\<forall>es e e'. et_New E es e = Inr e' \<longrightarrow> ks e' = ks e) \<and>
     (\<forall>n e l e'. et_Grant E n e = Inr (l, e') \<longrightarrow> ks e' = ks e) \<and>
     (\<forall>l e e'. et_KeepAlive E l e = Inr e' \<longrightarrow> ks e' = ks e) \<and>
     (\<forall>k v l e e'. et_Put E k v l e = Inr e' \<longrightarrow> ks e' = insert k (ks e))"

lemma etcd_okD:
  assumes "etcd_ok E ks"
  shows "et_Get E p e = Inr keys \<Longrightarrow> distinct keys \<and> set keys = {k \<in> ks e. prefix p k}"
    and "et_New E es e = Inr e' \<Longrightarrow> ks e' = ks e"
    and "et_Grant E n e = Inr (l, e') \<Longrightarrow> ks e' = ks e"
    and "et_KeepAlive E l e = Inr e' \<Longrightarrow> ks e' = ks e"
    and "et_Put E k v l e = Inr e' \<Longrightarrow> ks e' = insert k (ks e)"
  using assms unfolding etcd_ok_def by simp_all

lemma RegisterInterface_keys:
  assumes "etcd_ok E ks" and "RegisterInterface E es hostName interf port e = Blocks e'"
  shows "ks e' = insert (getInterfaceKey hostName interf port) (ks e)"
proof -
  from assms(2) obtain e1 l e2 e3 where n: "et_New E es e = Inr e1" and g: "et_Grant E 5 e1 = Inr (l, e2)"
    and p: "et_Put E (getInterfaceKey hostName interf port) [] l e2 = Inr e3" and k: "et_KeepAlive E l e3 = Inr e'"
    by (auto simp: RegisterInterface_def split: sum.splits prod.splits)
  show ?thesis
    unfolding etcd_okD(4) [OF assms(1) k] etcd_okD(5) [OF assms(1) p] etcd_okD(3) [OF assms(1) g] etcd_okD(2) [OF assms(1) n] ..
qed

text \<open>Providers that register one after the other.\<close>

inductive registered :: "'e etcd \<Rightarrow> gostring list \<Rightarrow> gostring \<Rightarrow> 'e \<Rightarrow> (gostring \<times> int) list \<Rightarrow> 'e \<Rightarrow> bool"
  for E es interf e where
  none: "registered E es interf e [] e"
| more: "registered E es interf e ps e' \<Longrightarrow> RegisterInterface E es (fst hp) interf (snd hp) e' = Blocks e'' \<Longrightarrow>
    registered E es interf e (ps @ [hp]) e''"

lemma registered_keys:
  assumes "registered E es interf e ps e'" and "etcd_ok E ks"
  shows "ks e' = ks e \<union> key_of interf ` set ps"
  using assms(1)
proof (induction rule: registered.induct)
  case (more ps e' hp e'')
  then show ?case using RegisterInterface_keys [OF assms(2) more.hyps(2)] by simp
qed simp

lemma keys_list:
  assumes "distinct keys" and "set keys = key_of interf ` set ps" and "list_all provider_ok ps" and "interf = pre @ [47]"
  shows "\<exists>qs. keys = map (key_of interf) qs \<and> distinct qs \<and> set qs = set ps"
proof -
  define qs where "qs = map (\<lambda>k. the (interface_addr k)) keys"
  have inv: "the (interface_addr (key_of interf hp)) = hp" if "hp \<in> set ps" for hp
    using that assms(3) key_of_addr [OF _ assms(4), of hp] by (simp add: list_all_iff)
  have k: "key_of interf (the (interface_addr k)) = k" if "k \<in> set keys" for k
    using that assms(2) inv by auto
  have "set qs = set ps" using assms(2) inv by (force simp: qs_def)
  moreover have keys: "keys = map (key_of interf) qs" using k by (simp add: qs_def map_idI)
  moreover have "distinct qs" using assms(1) unfolding keys by (simp add: distinct_map)
  ultimately show ?thesis by blast
qed

subsection \<open>Properties\<close>

text \<open>
  C11: registered providers are found: when providers have registered one after the other in an etcd that has no
  other key of the interface, a consumer that starts listening returns from the listing without a panic and has
  one agent for each provider, with its host name and port, and no other. This holds while nothing arrives on
  the watch, and for host names without slash and colon.
\<close>

theorem providers_found:
  assumes "etcd_ok E ks" and "interf = pre @ [47]" and "{k \<in> ks e0. prefix interf k} = {}"
    and "registered E es interf e0 ps e" and "list_all provider_ok ps"
    and "et_New E es e = Inr e1" and "et_Get E interf e1 = Inr keys" and "et_Watch E interf e1 = []"
    and "intn_ok K" and "accepts_from 0 K" and "ram_inv s" and "ram_ready s" and "agents_of s = []"
    and "s_next s + length ps * nat count < 2 ^ 32 - 1" and "length (ram_heap (s_user s)) + length ps < 2 ^ 32 - 1"
  shows "\<exists>s'. ListenInterface E es K count interf e s = Some (Inr s') \<and>
    set (agents_of s') = set ps \<and> distinct (agents_of s') \<and> ram_inv s'"
proof -
  have keys: "distinct keys" "set keys = {k \<in> ks e. prefix interf k}"
    using etcd_okD(1) [OF assms(1,7)] etcd_okD(2) [OF assms(1,6)] by simp_all
  have "set keys = key_of interf ` set ps"
    unfolding keys(2) registered_keys [OF assms(4,1)] using assms(3) by (auto simp: getInterfaceKey_def)
  from keys_list [OF keys(1) this assms(5,2)] obtain qs where
    qs: "keys = map (key_of interf) qs" "distinct qs" "set qs = set ps" by blast
  then have len: "length qs \<le> length ps" by (metis card_length distinct_card)
  have ok: "list_all provider_ok qs" using assms(5) qs(3) by (simp add: list_all_iff)
  have "length qs * nat count \<le> length ps * nat count" using len by (rule mult_le_mono1)
  then have "s_next s + length qs * nat count < 2 ^ 32 - 1" by (rule le_less_trans [OF add_left_mono assms(14)])
  then have "\<exists>s'. listen_get K count interf (map (key_of interf) qs) s = Some s' \<and> agents_of s' = agents_of s @ qs \<and> ram_inv s'"
    using assms(13-15) qs(2) len by (intro listen_get_agents [OF assms(9,10,2) ok assms(11,12)]) auto
  with qs assms(6-8,13) show ?thesis by (auto simp: ListenInterface_def)
qed

text \<open>An etcd that keeps a list of keys.\<close>

definition ex_etcd :: "gostring list etcd" where
  "ex_etcd = \<lparr>et_New = (\<lambda>es e. Inr e), et_Grant = (\<lambda>n e. Inr (7, e)), et_Put = (\<lambda>k v l e. Inr (k # removeAll k e)),
     et_KeepAlive = (\<lambda>l e. Inr e), et_Get = (\<lambda>p e. Inr (remdups (filter (prefix p) e))), et_Watch = (\<lambda>p e. [])\<rparr>"

lemma ex_etcd_ok: "etcd_ok ex_etcd set"
  by (auto simp: etcd_ok_def ex_etcd_def)

theorem providers_found_witness:
  "\<exists>e s'. registered ex_etcd [] (str ''/d/'') [] [(str ''node7'', 30000), (str ''node8'', 30000)] e \<and>
    ListenInterface ex_etcd [] (ex_kernel (Inl 0) []) 4 (str ''/d/'') e ex_ram = Some (Inr s') \<and>
    set (agents_of s') = {(str ''node7'', 30000), (str ''node8'', 30000)}"
proof -
  let ?d = "str ''/d/''" and ?p = "(str ''node7'', 30000 :: int)" and ?q = "(str ''node8'', 30000 :: int)"
  have "\<exists>e1. RegisterInterface ex_etcd [] (fst hp) ?d (snd hp) e0 = Blocks e1" for hp e0
    by (simp add: RegisterInterface_def ex_etcd_def)
  then obtain e1 e where "RegisterInterface ex_etcd [] (fst ?p) ?d (snd ?p) [] = Blocks e1"
    "RegisterInterface ex_etcd [] (fst ?q) ?d (snd ?q) e1 = Blocks e" by blast
  then have "registered ex_etcd [] ?d [] (([] @ [?p]) @ [?q]) e" by (blast intro: registered.intros)
  then have r: "registered ex_etcd [] ?d [] [?p, ?q] e" by simp
  have "\<exists>s'. ListenInterface ex_etcd [] (ex_kernel (Inl 0) []) 4 ?d e ex_ram = Some (Inr s') \<and>
    set (agents_of s') = set [?p, ?q] \<and> distinct (agents_of s') \<and> ram_inv s'"
    by (rule providers_found [OF ex_etcd_ok _ _ r, of "str ''/d''" e _ _])
      (simp_all add: ex_etcd_def ex_kernel_ok ex_ram_ok provider_ok_def str_def agents_of_def
        new_RemoteAgentManager_def new_ConnectionManager_def)
  with r show ?thesis by auto
qed

end
