(* ===== verification/Mesh.thy ===== *)
theory Mesh
  imports Remote_Agent
begin

text \<open>
  The way of one request through the mesh, hop by hop: from the queue of the consumer's HTTP server to a remote
  agent, from the provider's agent server to dubbo, and the answer back. Each lemma is one handler or worker in
  a state where its connection has no output pending and the kernel takes what is written; it gives
  the bytes that leave on the connection.
\<close>

definition writes_all :: "kernel \<Rightarrow> bool" where
  "writes_all K \<longleftrightarrow> (\<forall>t fd d. k_write K t fd d = Inl (length d))"

definition quiet :: "cid \<Rightarrow> ('u, 'x) server \<Rightarrow> bool" where
  "quiet cid s \<longleftrightarrow> (case s_heap s cid of None \<Rightarrow> False | Some c \<Rightarrow> c_out c = None)"

text \<open>Exactly \<open>d\<close> was written to connection \<open>cid\<close> on the way from \<open>s\<close> to \<open>s'\<close>, and nothing else.\<close>

definition sent :: "cid \<Rightarrow> bytes \<Rightarrow> ('u, 'x) server \<Rightarrow> ('u, 'x) server \<Rightarrow> bool" where
  "sent cid d s s' \<longleftrightarrow> (\<exists>c. s_heap s cid = Some c \<and> s_wire s' = (s_wire s)(c_fd c := s_wire s (c_fd c) @ d))"

lemma conn_Send_quiet:
  assumes "writes_all K" and "quiet cid s"
  shows "\<exists>s'. conn_Send K cid d s = Some s' \<and> sent cid d s s' \<and> s_heap s' = s_heap s \<and> s_user s' = s_user s"
  using assms
  by (auto simp: quiet_def writes_all_def conn_Send_def sys_write_def sent_def split: option.splits)

subsection \<open>The consumer sends\<close>

text \<open>A connection of agent \<open>a\<close> on which nothing is pending in either direction.\<close>

definition agent_conn :: "nat \<Rightarrow> cid \<Rightarrow> ram_server \<Rightarrow> bool" where
  "agent_conn a cid s \<longleftrightarrow> quiet cid s \<and>
     (case conn_Context cid s of Some (Some ctx) \<Rightarrow> ac_ra ctx = Some a \<and> is_b (ac_is ctx) = [] | _ \<Rightarrow> False)"

definition agents_reachable :: "ram_server \<Rightarrow> bool" where
  "agents_reachable s \<longleftrightarrow> cm_inv (ram_hackManager (s_user s)) \<and> cm_connList (ram_hackManager (s_user s)) \<noteq> [] \<and>
     (\<forall>a \<in> set (cm_connList (ram_hackManager (s_user s))). a < length (ram_heap (s_user s)) \<and>
        cm_inv (ra_connManager (ram_heap (s_user s) ! a)) \<and> pool_of a s \<noteq> [] \<and> list_all (\<lambda>cid. agent_conn a cid s) (pool_of a s))"

lemma GetConnection_picks:
  assumes "cm_inv cm" and "cm_connList cm \<noteq> []"
  shows "\<exists>c cm'. GetConnection cm = Some (Some c, length (cm_connList cm), cm') \<and> c \<in> set (cm_connList cm)"
  using GetConnection_inv [OF assms(1)] assms(2) by (auto split: option.splits)

lemma SendRequest_sends:
  assumes "writes_all K" and "a < length (ram_heap (s_user s))" and "cm_inv (ra_connManager (ram_heap (s_user s) ! a))"
    and "pool_of a s \<noteq> []" and "list_all (\<lambda>cid. agent_conn a cid s) (pool_of a s)"
  shows "\<exists>cid reqID s'. SendRequest K a req httpReq s = Some (None, s') \<and> agent_conn a cid s' \<and>
    sent cid (agent_out (ar_Result req) reqID (ar_Interf req) (ar_Method req) (ar_ParamType req) (ar_Param req)) s s' \<and>
    ram_workerRespQueue (s_user s') = ram_workerRespQueue (s_user s) \<and> a < length (ram_heap (s_user s')) \<and>
    ra_requestMap (ram_heap (s_user s') ! a) reqID = Some httpReq"
proof -
  define ra where "ra = ram_heap (s_user s) ! a"
  from GetConnection_picks [OF assms(3,4)] obtain cid cm where
    g: "GetConnection (ra_connManager ra) = Some (Some cid, length (pool_of a s), cm)" and cid: "cid \<in> set (pool_of a s)"
    by (auto simp: ra_def)
  define s1 where "s1 = upd_user (\<lambda>u. u\<lparr>ram_spawned := ram_spawned u @ replicate (nat (ra_defaultConn ra - int (length (pool_of a s)))) a\<rparr>)
    (put_agent a (ra\<lparr>ra_connManager := cm\<rparr>) s)"
  have get: "remote_GetConnection K a s = Some (Some cid, s1)"
    using g assms(2) by (simp add: remote_GetConnection_def agent_at_def index_def ra_def s1_def)
  have at: "agent_at a s1 = Some (ra\<lparr>ra_connManager := cm\<rparr>)"
    using assms(2) by (simp add: agent_at_def index_def s1_def put_agent_def)
  define s2 where "s2 = put_agent a (ra\<lparr>ra_connManager := cm, ra_reqID := ra_reqID ra + 1,
    ra_requestMap := (ra_requestMap ra)(ra_reqID ra + 1 \<mapsto> httpReq)\<rparr>) s1"
  have h: "s_heap s2 = s_heap s" "s_wire s2 = s_wire s" by (simp_all add: s2_def s1_def put_agent_def)
  have q: "agent_conn a cid s" using cid assms(5) by (simp add: list_all_iff)
  then have "quiet cid s2" using h by (simp add: agent_conn_def quiet_def)
  from conn_Send_quiet [OF assms(1) this] obtain s3 where
    c: "conn_Send K cid (agent_out (ar_Result req) (ra_reqID ra + 1) (ar_Interf req) (ar_Method req) (ar_ParamType req) (ar_Param req)) s2 = Some s3"
    and s3: "sent cid (agent_out (ar_Result req) (ra_reqID ra + 1) (ar_Interf req) (ar_Method req) (ar_ParamType req) (ar_Param req)) s2 s3"
      "s_heap s3 = s_heap s2" "s_user s3 = s_user s2"
    by blast
  have "SendRequest K a req httpReq s = Some (None, s3)"
    using get at c by (simp add: SendRequest_def SendAgentRequest_def s2_def)
  moreover have "agent_conn a cid s3" using q s3(2) h by (simp add: agent_conn_def quiet_def conn_Context_def)
  ultimately show ?thesis
    using s3 h assms(2) by (auto simp: sent_def s2_def s1_def put_agent_def intro!: exI [of _ cid] exI [of _ "ra_reqID ra + 1"])
qed

text \<open>The request is filed under its number with the agent that it was sent to.\<close>

definition awaits :: "cid \<Rightarrow> u64 \<Rightarrow> cid HttpRequest \<Rightarrow> ram_server \<Rightarrow> bool" where
  "awaits cid reqID req s \<longleftrightarrow> (\<exists>a. agent_conn a cid s \<and> a < length (ram_heap (s_user s)) \<and>
     ra_requestMap (ram_heap (s_user s) ! a) reqID = Some req)"

lemma http_worker_sends:
  assumes "writes_all Kr" and "agents_reachable (co_ram c)" and "s_user (co_http c) = req # q"
  shows "\<exists>cid reqID r. http_worker Kh Kr date c = Some (c\<lparr>co_http := (co_http c)\<lparr>s_user := q\<rparr>, co_ram := r\<rparr>) \<and>
    sent cid (agent_out 0 reqID (hq_interf req) (hq_callMethod req) ParamType_String (hq_parameter req)) (co_ram c) r \<and>
    ram_workerRespQueue (s_user r) = ram_workerRespQueue (s_user (co_ram c)) \<and> awaits cid reqID req r"
proof -
  let ?s = "co_ram c" and ?m = "ram_hackManager (s_user (co_ram c))"
  from assms(2) have ok: "cm_inv ?m" "cm_connList ?m \<noteq> []" by (simp_all add: agents_reachable_def)
  from GetConnection_picks [OF ok] obtain a cm where g: "GetConnection ?m = Some (Some a, length (cm_connList ?m), cm)"
    and a: "a \<in> set (cm_connList ?m)" by blast
  define s1 where "s1 = upd_user (\<lambda>u. u\<lparr>ram_hackManager := cm\<rparr>) ?s"
  have h: "s_heap s1 = s_heap ?s" "s_wire s1 = s_wire ?s" "ram_heap (s_user s1) = ram_heap (s_user ?s)"
    by (simp_all add: s1_def)
  then have ac: "agent_conn b cid s1 = agent_conn b cid ?s" for b cid by (simp add: agent_conn_def quiet_def conn_Context_def)
  from assms(2) a have "a < length (ram_heap (s_user s1))" "cm_inv (ra_connManager (ram_heap (s_user s1) ! a))"
    "pool_of a s1 \<noteq> []" "list_all (\<lambda>cid. agent_conn a cid s1) (pool_of a s1)"
    by (simp_all add: agents_reachable_def h ac)
  from SendRequest_sends [OF assms(1) this, of "forwarded req" req] obtain cid reqID r where
    sr: "SendRequest Kr a (forwarded req) req s1 = Some (None, r)" and r: "agent_conn a cid r"
      "sent cid (agent_out 0 reqID (hq_interf req) (hq_callMethod req) ParamType_String (hq_parameter req)) s1 r"
      "ram_workerRespQueue (s_user r) = ram_workerRespQueue (s_user s1)" "a < length (ram_heap (s_user r))"
      "ra_requestMap (ram_heap (s_user r) ! a) reqID = Some req"
    by (auto simp: forwarded_def new_AgentRequest_def)
  have "ForwardRequest Kr (forwarded req) req ?s = Some (None, r)"
    using g ok(2) sr by (simp add: ForwardRequest_def s1_def)
  then have "http_worker Kh Kr date c = Some (c\<lparr>co_http := (co_http c)\<lparr>s_user := q\<rparr>, co_ram := r\<rparr>)"
    using assms(3) by (simp add: http_worker_def)
  with r h show ?thesis by (auto simp: sent_def awaits_def s1_def)
qed

subsection \<open>An agent packet arrives\<close>

lemma agent_receives:
  assumes "conn_Context cid s = Some (Some ctx)" and "is_b (ac_is ctx) = []" and "agent_msg_ok m"
  shows "\<exists>ctx'. agent_data_event enq cid (agent_packet m) s =
      Some ([], NoAction, (conn_SetContext (Some ctx') cid s)\<lparr>s_user := enq [agent_received cid m] (s_user s)\<rparr>) \<and>
    is_b (ac_is ctx') = [] \<and> ac_ra ctx' = ac_ra ctx"
proof -
  have "frames (agent_frame cid) (is_b (ac_is ctx) @ agent_packet m) [agent_received cid m] []"
    using agent_packets.frames_packets [of "[m]" "[]" cid] assms(2,3) by simp
  from agent_feed_frames [OF this] obtain ctx' where f: "agent_feed cid ctx (agent_packet m) = Some (ctx', [agent_received cid m])"
    and e: "is_b (ac_is ctx') = []" by auto
  from f obtain out where d: "agent_Data cid ctx (Some (agent_packet m)) = Some (ctx', [agent_received cid m], out, NoAction)"
    by (auto simp: agent_feed_def split: option.splits if_splits)
  then have "out = []" by (auto simp: agent_Data_def split: bind_splits prod.splits)
  with d assms(1) e agent_Data_ra [OF d] show ?thesis by (intro exI [of _ ctx']) (simp add: agent_data_event_def)
qed

subsection \<open>The provider asks dubbo\<close>

definition dubbo_conn :: "cid \<Rightarrow> dubbo_server \<Rightarrow> bool" where
  "dubbo_conn cid s \<longleftrightarrow> quiet cid s \<and> (case conn_Context cid s of Some (Some ctx) \<Rightarrow> is_b (dc_is ctx) = [] | _ \<Rightarrow> False)"

definition dubbo_reachable :: "dubbo_server \<Rightarrow> bool" where
  "dubbo_reachable s \<longleftrightarrow> cm_inv (lda_connManager (s_user s)) \<and> cm_connList (lda_connManager (s_user s)) \<noteq> [] \<and>
     list_all (\<lambda>cid. dubbo_conn cid s) (cm_connList (lda_connManager (s_user s)))"

lemma SendDubboRequest_sends:
  assumes "writes_all K" and "dubbo_reachable s"
  shows "\<exists>cid ctx s'. SendDubboRequest K F req s = Some s' \<and> sent cid (PackRequest (dubbo_message req)) s s' \<and>
    conn_Context cid s' = Some (Some ctx) \<and> is_b (dc_is ctx) = []"
proof -
  let ?m = "lda_connManager (s_user s)"
  from assms(2) have ok: "cm_inv ?m" "cm_connList ?m \<noteq> []" by (simp_all add: dubbo_reachable_def)
  from GetConnection_picks [OF ok] obtain cid cm where g: "GetConnection ?m = Some (Some cid, length (cm_connList ?m), cm)"
    and cid: "cid \<in> set (cm_connList ?m)" by blast
  define s1 where "s1 = upd_user (\<lambda>u. u\<lparr>lda_spawned := lda_spawned u + nat (dubboConnCount F - int (length (cm_connList ?m)))\<rparr>)
    (upd_user (\<lambda>u. u\<lparr>lda_connManager := cm\<rparr>) (upd_user (\<lambda>u. u\<lparr>lda_requestMap := (lda_requestMap u)(ar_RequestID req \<mapsto> req)\<rparr>) s))"
  have get: "dubbo_GetConnection K F (upd_user (\<lambda>u. u\<lparr>lda_requestMap := (lda_requestMap u)(ar_RequestID req \<mapsto> req)\<rparr>) s) = Some (cid, s1)"
    using g ok(2) by (simp add: dubbo_GetConnection_def s1_def)
  have h: "s_heap s1 = s_heap s" "s_wire s1 = s_wire s" by (simp_all add: s1_def)
  from assms(2) cid have "dubbo_conn cid s" by (simp add: dubbo_reachable_def list_all_iff)
  then obtain ctx where q: "quiet cid s" and ctx: "conn_Context cid s = Some (Some ctx)" "is_b (dc_is ctx) = []"
    by (auto simp: dubbo_conn_def split: option.splits)
  from q h have "quiet cid s1" by (simp add: quiet_def)
  from conn_Send_quiet [OF assms(1) this, of "PackRequest (dubbo_message req)"] obtain s2 where
    "conn_Send K cid (PackRequest (dubbo_message req)) s1 = Some s2" "sent cid (PackRequest (dubbo_message req)) s1 s2" "s_heap s2 = s_heap s1"
    by blast
  with get h ctx show ?thesis
    by (intro exI [of _ cid] exI [of _ ctx] exI [of _ s2]) (simp add: SendDubboRequest_def sent_def conn_Context_def)
qed

lemma agent_worker_sends:
  assumes "writes_all Kd" and "dubbo_reachable (pv_dubbo p)" and "s_user (pv_agents p) = [req]"
    and "lda_workerRespQueue (s_user (pv_dubbo p)) = []"
  shows "\<exists>cid ctx d. agent_worker Kd F p = Some (p\<lparr>pv_agents := (pv_agents p)\<lparr>s_user := []\<rparr>, pv_dubbo := d\<rparr>) \<and>
    sent cid (PackRequest (dubbo_message req)) (pv_dubbo p) d \<and> conn_Context cid d = Some (Some ctx) \<and> is_b (dc_is ctx) = [] \<and>
    lda_requestMap (s_user d) (ar_RequestID req) = Some req \<and> lda_workerRespQueue (s_user d) = []"
proof -
  from SendDubboRequest_sends [OF assms(1,2)] obtain cid ctx d where d: "SendDubboRequest Kd F req (pv_dubbo p) = Some d"
    "sent cid (PackRequest (dubbo_message req)) (pv_dubbo p) d" "conn_Context cid d = Some (Some ctx)" "is_b (dc_is ctx) = []"
    by blast
  with SendDubboRequest_table [OF d(1)] assms(3,4) show ?thesis
    by (intro exI [of _ cid] exI [of _ ctx] exI [of _ d]) (simp add: agent_worker_def)
qed

subsection \<open>Dubbo answers\<close>

lemma dubbo_receives:
  assumes "conn_Context cid s = Some (Some ctx)" and "is_b (dc_is ctx) = []" and "length (dubbo_packet m) < 2 ^ 31"
  shows "\<exists>ctx'. dubbo_data_event cid (dubbo_packet m) s = Some ([], NoAction,
    upd_user (\<lambda>u. u\<lparr>lda_workerRespQueue := lda_workerRespQueue u @ [dubbo_received m]\<rparr>) (conn_SetContext (Some ctx') cid s))"
proof -
  have "dubbo_kept []" by (simp add: dubbo_kept_def dubbo_parser.parse_empty)
  then have "frames dubbo_frame (is_b (dc_is ctx) @ dubbo_packet m) [dubbo_received m] []"
    using dubbo_packets.frames_packets [of "[m]" "[]"] assms(2,3) by (simp add: dubbo_fits_def)
  from dubbo_feed_frames [OF this] obtain ctx' where "dubbo_feed ctx (dubbo_packet m) = Some (ctx', [dubbo_received m])" by auto
  then obtain out where d: "dubbo_Data ctx (Some (dubbo_packet m)) = Some (ctx', [dubbo_received m], out, NoAction)"
    by (auto simp: dubbo_feed_def split: option.splits if_splits)
  then have "out = []" by (auto simp: dubbo_Data_def split: bind_splits prod.splits)
  with d assms(1) show ?thesis by (intro exI [of _ ctx']) (simp add: dubbo_data_event_def)
qed

lemma dubbo_worker_sends:
  assumes "writes_all Ka" and "lda_workerRespQueue (s_user (pv_dubbo p)) = [resp]"
    and "lda_requestMap (s_user (pv_dubbo p)) (rs_ID resp) = Some req" and "ar_conn req = Some conn" and "quiet conn (pv_agents p)"
  shows "\<exists>p'. dubbo_worker Ka date p = Some p' \<and>
    sent conn (agent_out 200 (ar_RequestID req) [] [] ParamType_Result
      (AppendResp (date (s_clock (pv_agents p))) [] (str ''200 OK'') [] (rs_Data resp))) (pv_agents p) (pv_agents p')"
  using conn_Send_quiet [OF assms(1,5), of "agent_out 200 (ar_RequestID req) [] [] ParamType_Result
      (AppendResp (date (s_clock (pv_agents p))) [] (str ''200 OK'') [] (rs_Data resp))"] assms(2-4)
  by (auto simp: dubbo_worker_def SendAgentRequest_def)

subsection \<open>The answer reaches the client\<close>

lemma remote_worker_sends:
  assumes "writes_all Kh" and "ram_workerRespQueue (s_user (co_ram c)) = resp # q" and "ar_conn resp = Some cid"
    and "awaits cid (ar_RequestID resp) req (co_ram c)" and "hq_conn req = Some conn" and "quiet conn (co_http c)"
    and "ar_ParamType resp = ParamType_Result"
  shows "\<exists>c'. remote_worker Kh date c = Some c' \<and> sent conn (ar_Param resp) (co_http c) (co_http c')"
proof -
  from assms(4) obtain a ctx where "conn_Context cid (co_ram c) = Some (Some ctx)" "ac_ra ctx = Some a"
    "a < length (ram_heap (s_user (co_ram c)))" "ra_requestMap (ram_heap (s_user (co_ram c)) ! a) (ar_RequestID resp) = Some req"
    by (auto simp: awaits_def agent_conn_def split: option.splits)
  with conn_Send_quiet [OF assms(1,6), of "ar_Param resp"] assms(2,3,5,7) show ?thesis
    by (auto simp: remote_worker_def conn_Context_def agent_at_def index_def http_Response_def Let_def)
qed

lemma awaits_receives:
  assumes "awaits cid reqID req s" and "conn_Context cid s = Some (Some ctx)" and "ac_ra ctx' = ac_ra ctx" and "is_b (ac_is ctx') = []"
  shows "awaits cid reqID req ((conn_SetContext (Some ctx') cid s)\<lparr>s_user := ram_enqueue q (s_user s)\<rparr>)"
  using assms
  by (auto simp: awaits_def agent_conn_def quiet_def conn_Context_def conn_SetContext_def ram_enqueue_def split: option.splits)

lemma quiet_SetContext: "quiet cid ((conn_SetContext ctx cid' s)\<lparr>s_user := u\<rparr>) = quiet cid s"
  by (auto simp: quiet_def conn_SetContext_def split: option.splits)

subsection \<open>The legs of the way\<close>

text \<open>The provider has asked dubbo on \<open>dc\<close> for the request \<open>reqID\<close> that came on \<open>pc\<close>.\<close>

definition asked :: "cid \<Rightarrow> cid \<Rightarrow> u64 \<Rightarrow> provider \<Rightarrow> bool" where
  "asked pc dc reqID p \<longleftrightarrow> quiet pc (pv_agents p) \<and>
     (\<exists>ctx. conn_Context dc (pv_dubbo p) = Some (Some ctx) \<and> is_b (dc_is ctx) = []) \<and>
     (\<exists>req. lda_requestMap (s_user (pv_dubbo p)) reqID = Some req \<and> ar_conn req = Some pc \<and> ar_RequestID req = reqID) \<and>
     lda_workerRespQueue (s_user (pv_dubbo p)) = []"

lemma provider_asks:
  assumes "writes_all Kd" and "conn_Context pc (pv_agents p) = Some (Some ctx)" and "is_b (ac_is ctx) = []" and "quiet pc (pv_agents p)"
    and "s_user (pv_agents p) = []" and "dubbo_reachable (pv_dubbo p)" and "lda_workerRespQueue (s_user (pv_dubbo p)) = []"
    and "agent_msg_ok m"
  shows "\<exists>a1 p1 dc. agent_data_event (\<lambda>rs u. u @ rs) pc (agent_packet m) (pv_agents p) = Some ([], NoAction, a1) \<and>
    agent_worker Kd F (p\<lparr>pv_agents := a1\<rparr>) = Some p1 \<and>
    sent dc (PackRequest (dubbo_message (agent_received pc m))) (pv_dubbo p) (pv_dubbo p1) \<and>
    asked pc dc (am_RequestID m) p1 \<and> s_clock (pv_agents p1) = s_clock (pv_agents p)"
proof -
  from agent_receives [OF assms(2,3,8), of "\<lambda>rs u. u @ rs"] assms(5) obtain ctx' where
    1: "agent_data_event (\<lambda>rs u. u @ rs) pc (agent_packet m) (pv_agents p) =
      Some ([], NoAction, (conn_SetContext (Some ctx') pc (pv_agents p))\<lparr>s_user := [agent_received pc m]\<rparr>)"
    by auto
  define a1 where "a1 = (conn_SetContext (Some ctx') pc (pv_agents p))\<lparr>s_user := [agent_received pc m]\<rparr>"
  from agent_worker_sends [OF assms(1), of "p\<lparr>pv_agents := a1\<rparr>" "agent_received pc m" F] assms(6,7) obtain dc dctx d where
    2: "agent_worker Kd F (p\<lparr>pv_agents := a1\<rparr>) = Some (p\<lparr>pv_agents := a1\<lparr>s_user := []\<rparr>, pv_dubbo := d\<rparr>)"
      "sent dc (PackRequest (dubbo_message (agent_received pc m))) (pv_dubbo p) d"
    and d: "conn_Context dc d = Some (Some dctx)" "is_b (dc_is dctx) = []"
      "lda_requestMap (s_user d) (am_RequestID m) = Some (agent_received pc m)" "lda_workerRespQueue (s_user d) = []"
    by (auto simp: a1_def agent_received_def)
  have "quiet pc (a1\<lparr>s_user := []\<rparr>)" using assms(4) by (simp add: a1_def quiet_SetContext)
  with d have "asked pc dc (am_RequestID m) (p\<lparr>pv_agents := a1\<lparr>s_user := []\<rparr>, pv_dubbo := d\<rparr>)"
    by (simp add: asked_def agent_received_def)
  moreover have "s_clock a1 = s_clock (pv_agents p)" by (simp add: a1_def conn_SetContext_def)
  ultimately show ?thesis using 1 2 by (auto simp: a1_def)
qed

lemma provider_answers:
  assumes "writes_all Ka" and "asked pc dc reqID p" and "length (dubbo_response flags status reqID answer) < 2 ^ 31"
  shows "\<exists>d1 p2. dubbo_data_event dc (dubbo_response flags status reqID answer) (pv_dubbo p) = Some ([], NoAction, d1) \<and>
    dubbo_worker Ka date (p\<lparr>pv_dubbo := d1\<rparr>) = Some p2 \<and>
    sent pc (agent_out 200 reqID [] [] ParamType_Result
      (AppendResp (date (s_clock (pv_agents p))) [] (str ''200 OK'') [] answer)) (pv_agents p) (pv_agents p2)"
proof -
  define m where "m = \<lparr>dm_flags = flags, dm_Status = status, dm_ID = reqID, dm_Data = answer\<rparr>"
  have m: "dubbo_packet m = dubbo_response flags status reqID answer" "rs_ID (dubbo_received m) = reqID" "rs_Data (dubbo_received m) = answer"
    by (simp_all add: m_def dubbo_packet_def dubbo_received_def)
  from assms(2) obtain ctx req where a: "conn_Context dc (pv_dubbo p) = Some (Some ctx)" "is_b (dc_is ctx) = []"
    "lda_requestMap (s_user (pv_dubbo p)) reqID = Some req" "ar_conn req = Some pc" "ar_RequestID req = reqID"
    "lda_workerRespQueue (s_user (pv_dubbo p)) = []" "quiet pc (pv_agents p)"
    by (auto simp: asked_def)
  from dubbo_receives [OF a(1,2), of m] assms(3) m obtain ctx' where
    1: "dubbo_data_event dc (dubbo_packet m) (pv_dubbo p) = Some ([], NoAction,
      upd_user (\<lambda>u. u\<lparr>lda_workerRespQueue := lda_workerRespQueue u @ [dubbo_received m]\<rparr>) (conn_SetContext (Some ctx') dc (pv_dubbo p)))"
    by auto
  define d1 where "d1 = upd_user (\<lambda>u. u\<lparr>lda_workerRespQueue := lda_workerRespQueue u @ [dubbo_received m]\<rparr>)
    (conn_SetContext (Some ctx') dc (pv_dubbo p))"
  have "s_user d1 = (s_user (pv_dubbo p))\<lparr>lda_workerRespQueue := [dubbo_received m]\<rparr>"
    using a(6) by (simp add: d1_def conn_SetContext_def)
  with dubbo_worker_sends [OF assms(1), of "p\<lparr>pv_dubbo := d1\<rparr>" "dubbo_received m" req pc date] a m 1 [folded d1_def] show ?thesis
    by auto
qed

lemma consumer_answers:
  assumes "writes_all Kh" and "awaits ac reqID req (co_ram c)" and "ram_workerRespQueue (s_user (co_ram c)) = []"
    and "hq_conn req = Some hc" and "quiet hc (co_http c)" and "length resp < 4294967290"
  shows "\<exists>r1 c2. agent_data_event ram_enqueue ac (agent_out 200 reqID [] [] ParamType_Result resp) (co_ram c) = Some ([], NoAction, r1) \<and>
    remote_worker Kh date (c\<lparr>co_ram := r1\<rparr>) = Some c2 \<and> sent hc resp (co_http c) (co_http c2)"
proof -
  define m where "m = \<lparr>am_Result = 200, am_RequestID = reqID, am_Interf = [], am_Method = [], am_ParamType = ParamType_Result, am_Param = resp\<rparr>"
  have m: "agent_packet m = agent_out 200 reqID [] [] ParamType_Result resp" "agent_msg_ok m"
    using assms(6) by (simp_all add: m_def agent_packet_def agent_msg_ok_def agent_sendable_def)
  obtain ctx where ctx: "conn_Context ac (co_ram c) = Some (Some ctx)" "is_b (ac_is ctx) = []"
    using assms(2) by (auto simp: awaits_def agent_conn_def split: option.splits)
  from agent_receives [OF ctx m(2), of ram_enqueue] obtain ctx' where
    1: "agent_data_event ram_enqueue ac (agent_packet m) (co_ram c) = Some ([], NoAction,
      (conn_SetContext (Some ctx') ac (co_ram c))\<lparr>s_user := ram_enqueue [agent_received ac m] (s_user (co_ram c))\<rparr>)"
    and ctx': "is_b (ac_is ctx') = []" "ac_ra ctx' = ac_ra ctx"
    by blast
  define r1 where "r1 = (conn_SetContext (Some ctx') ac (co_ram c))\<lparr>s_user := ram_enqueue [agent_received ac m] (s_user (co_ram c))\<rparr>"
  have "awaits ac reqID req r1" unfolding r1_def using assms(2) ctx(1) ctx'(2,1) by (rule awaits_receives)
  moreover have "ram_workerRespQueue (s_user r1) = [agent_received ac m]" using assms(3) by (simp add: r1_def ram_enqueue_def)
  ultimately show ?thesis
    using remote_worker_sends [OF assms(1), of "c\<lparr>co_ram := r1\<rparr>" "agent_received ac m" "[]" ac req hc date] assms(4,5) 1 m(1)
    by (auto simp: r1_def agent_received_def m_def)
qed

subsection \<open>No agent\<close>

text \<open>Without an agent the worker writes one response with status 500 to the client, and nothing to the agents.\<close>

lemma http_worker_no_agent:
  assumes "writes_all Kh" and "s_user (co_http c) = req # q" and "hq_conn req = Some hc" and "quiet hc (co_http c)"
    and "cm_connList (ram_hackManager (s_user (co_ram c))) = []"
  shows "\<exists>c'. http_worker Kh Kr date c = Some c' \<and> s_user (co_http c') = q \<and> s_wire (co_ram c') = s_wire (co_ram c) \<and>
    sent hc (AppendResp (date (s_clock (co_http c))) [] (str ''500'') (remote_error_Error noAgentError) (str ''forward request error''))
      (co_http c) (co_http c')"
proof -
  let ?h = "(co_http c)\<lparr>s_user := q\<rparr>"
  let ?d = "AppendResp (date (s_clock ?h)) [] (str ''500'') (remote_error_Error noAgentError) (str ''forward request error'')"
  have "quiet hc ?h" using assms(4) by (simp add: quiet_def)
  from conn_Send_quiet [OF assms(1) this, of ?d] obtain h where
    "conn_Send Kh hc ?d ?h = Some h" "sent hc ?d ?h h" "s_user h = q" by auto
  with assms(2,3,5) show ?thesis
    by (simp add: http_worker_def ForwardRequest_def GetConnection_def sent_def)
qed

end
