(* ===== verification/Utilities.thy ===== *)
theory Utilities
  imports Go_Strings Utf8
begin

text \<open>
  The packages \<^verbatim>\<open>util\<close> and \<^verbatim>\<open>logger\<close> as far as they compute: lines of a file, random strings, snake case, cutting
  strings and paths (\<^verbatim>\<open>util.go\<close>), the choice of the external address (\<^verbatim>\<open>net.go\<close>) and the text of a log entry
  (\<^verbatim>\<open>logger.go\<close>); with them the keep-alive options of the package \<^verbatim>\<open>internal\<close>. What the operating system returns, the random bytes and the Unicode tables are parameters.
\<close>

subsection \<open>Lines of a file\<close>

text \<open>\<^verbatim>\<open>bufio.Reader.ReadString\<close> with the delimiter newline: the line, whether the end was met, and the rest.\<close>

definition ReadString :: "bytes \<Rightarrow> bytes \<times> bool \<times> bytes" where
  "ReadString s =
     (let i = IndexByte s LF in
      if i < 0 then (s, True, []) else (take (nat i + 1) s, False, drop (nat i + 1) s))"

definition Trim :: "gostring \<Rightarrow> byte \<Rightarrow> gostring" where
  "Trim s c = rev (dropWhile ((=) c) (rev (dropWhile ((=) c) s)))"

lemma ReadString_less: "ReadString s = (line, False, rest) \<Longrightarrow> length rest < length s"
  using IndexByte_bound [of s LF] by (auto simp: ReadString_def Let_def split: if_splits)

text \<open>The loop runs while \<open>i < limit\<close>, or without limit.\<close>

function read_lines_loop :: "bool \<Rightarrow> int \<Rightarrow> int \<Rightarrow> int \<Rightarrow> bytes \<Rightarrow> gostring list" where
  "read_lines_loop all limit offset i s =
     (if \<not> (i < limit \<or> all) then []
      else case ReadString s of
        (line, True, rest) \<Rightarrow> []
      | (line, False, rest) \<Rightarrow>
          if i < offset then read_lines_loop all limit offset (i + 1) rest
          else Trim line LF # read_lines_loop all limit offset (i + 1) rest)"
  by pat_completeness auto
termination
  by (relation "measure (\<lambda>(all, limit, offset, i, s). length s)") (auto dest!: sym [THEN ReadString_less])

declare read_lines_loop.simps [simp del]

text \<open>The file is its content, or the error of \<^verbatim>\<open>os.Open\<close>. The sum wraps at 64 bits.\<close>

definition ReadLinesOffsetN :: "'err + bytes \<Rightarrow> 64 word \<Rightarrow> int \<Rightarrow> gostring list \<times> 'err option" where
  "ReadLinesOffsetN f offset n =
     (case f of
        Inl err \<Rightarrow> ([[]], Some err)
      | Inr s \<Rightarrow> (read_lines_loop (n < 0) (sint (of_int (n + sint offset) :: 64 word)) (sint offset) 0 s, None))"

definition ReadLines :: "'err + bytes \<Rightarrow> gostring list \<times> 'err option" where
  "ReadLines f = ReadLinesOffsetN f 0 (-1)"

subsection \<open>Strings and paths\<close>

definition alphanum :: gostring where
  "alphanum = str ''0123456789ABCDEFGHIJKLMNOPQRSTUVWXYZabcdefghijklmnopqrstuvwxyz''"

text \<open>The random bytes are the parameter; there are \<^verbatim>\<open>n\<close> of them.\<close>

definition RandomString :: "bytes \<Rightarrow> gostring go" where
  "RandomString bytes = those (map (\<lambda>b. index alphanum (int (unat (b mod of_nat (length alphanum))))) bytes)"

record unicode =
  IsUpper :: "rune \<Rightarrow> bool"
  IsLower :: "rune \<Rightarrow> bool"
  ToLower :: "rune \<Rightarrow> rune"

text \<open>\<^verbatim>\<open>[]rune(s)\<close>: the runes of a string.\<close>

function runes_of :: "gostring \<Rightarrow> rune list" where
  "runes_of s = (if s = [] then [] else fst (DecodeRune s) # runes_of (drop (snd (DecodeRune s)) s))"
  by pat_completeness auto
termination
proof (relation "measure length")
  fix s :: gostring
  assume "s \<noteq> []"
  with DecodeRune_size [of s] show "(drop (snd (DecodeRune s)) s, s) \<in> measure length" by auto
qed simp

declare runes_of.simps [simp del]

definition snake_runes :: "unicode \<Rightarrow> rune list \<Rightarrow> rune list" where
  "snake_runes U runes =
     concat (map (\<lambda>i.
       (if i > 0 \<and> IsUpper U (runes ! i) \<and>
           (i + 1 < length runes \<and> IsLower U (runes ! (i + 1)) \<or> IsLower U (runes ! (i - 1))) then [95] else []) @
       [ToLower U (runes ! i)]) [0..<length runes])"

definition SnakeCase :: "unicode \<Rightarrow> gostring \<Rightarrow> gostring" where
  "SnakeCase U s = utf8 (snake_runes U (runes_of s))"

definition CutString :: "gostring \<Rightarrow> int \<Rightarrow> gostring go" where
  "CutString val maxLen = (if int (length val) < maxLen then Some val else slice_range val 0 maxLen)"

definition SplitPath :: "gostring \<Rightarrow> (gostring \<times> gostring) go" where
  "SplitPath path = do {
     let lastIndex = LastIndexByte path 47;
     let lastIndex2 = LastIndexByte path 92;
     if lastIndex < 0 \<and> lastIndex2 < 0 then Some ([], [])
     else do {
       let index = (if lastIndex > lastIndex2 then lastIndex else lastIndex2);
       dir \<leftarrow> slice_range path 0 index;
       filename \<leftarrow> slice_from path (index + 1);
       Some (dir, filename)
     }
   }"

subsection \<open>The external address\<close>

datatype if_addr = IPNet bytes | IPAddr bytes | OtherAddr

record 'err net_iface =
  if_Flags :: "64 word"
  if_Addrs :: "'err + if_addr list"

text \<open>Methods of \<^verbatim>\<open>net.IP\<close>; nil is the empty list.\<close>

definition To4 :: "bytes \<Rightarrow> bytes" where
  "To4 ip =
     (if length ip = 4 then ip
      else if length ip = 16 \<and> take 10 ip = replicate 10 0 \<and> ip ! 10 = 0xFF \<and> ip ! 11 = 0xFF then drop 12 ip
      else [])"

definition IsLoopback :: "bytes \<Rightarrow> bool" where
  "IsLoopback ip = (if To4 ip \<noteq> [] then To4 ip ! 0 = 127 else ip = replicate 15 0 @ [1])"

definition IPv4_String :: "bytes \<Rightarrow> gostring" where
  "IPv4_String ip = Itoa (uint (ip ! 0)) @ str ''.'' @ Itoa (uint (ip ! 1)) @ str ''.'' @ Itoa (uint (ip ! 2)) @ str ''.'' @ Itoa (uint (ip ! 3))"

definition addr_ip :: "if_addr \<Rightarrow> bytes" where
  "addr_ip addr = (case addr of IPNet ip \<Rightarrow> ip | IPAddr ip \<Rightarrow> ip | OtherAddr \<Rightarrow> [])"

fun first_ip :: "if_addr list \<Rightarrow> gostring option" where
  "first_ip [] = None"
| "first_ip (addr # addrs) =
     (let ip = addr_ip addr in
      if ip = [] \<or> IsLoopback ip then first_ip addrs
      else let ip = To4 ip in
      if ip = [] then first_ip addrs
      else Some (IPv4_String ip))"

datatype 'err ip_error = IfError 'err | NotConnected

fun ifaces_loop :: "'err net_iface list \<Rightarrow> 'err ip_error + gostring" where
  "ifaces_loop [] = Inl NotConnected"
| "ifaces_loop (iface # ifaces) =
     (if and (if_Flags iface) 1 = 0 then ifaces_loop ifaces
      else if and (if_Flags iface) 4 \<noteq> 0 then ifaces_loop ifaces
      else case if_Addrs iface of
        Inl err \<Rightarrow> Inl (IfError err)
      | Inr addrs \<Rightarrow> (case first_ip addrs of Some ip \<Rightarrow> Inr ip | None \<Rightarrow> ifaces_loop ifaces))"

definition getExternalIP :: "'err + 'err net_iface list \<Rightarrow> 'err ip_error + gostring" where
  "getExternalIP ifs = (case ifs of Inl err \<Rightarrow> Inl (IfError err) | Inr ifaces \<Rightarrow> ifaces_loop ifaces)"

subsection \<open>Log entries\<close>

text \<open>The arguments are given as \<^verbatim>\<open>%v\<close> prints them.\<close>

definition generateLog :: "gostring list \<Rightarrow> gostring" where
  "generateLog kvPairs =
     concat (map (\<lambda>i. kvPairs ! (2 * i) @ str '':'' @ kvPairs ! (2 * i + 1) @ [9]) [0..<length kvPairs div 2]) @
     (if odd (length kvPairs) then last kvPairs @ str '':'' @ [9] else [])"

subsection \<open>Keep-alive options\<close>

text \<open>
  \<^verbatim>\<open>SetKeepAlive\<close> of the three platforms, with the options that were set; \<open>setsockopt\<close> is the result of the system
  call. The numbers \<^verbatim>\<open>0x8\<close> and \<^verbatim>\<open>0x101\<close> are \<^verbatim>\<open>SO_KEEPALIVE\<close> and \<^verbatim>\<open>TCP_KEEPINTVL\<close> on Darwin.
\<close>

datatype sockopt = SO_KEEPALIVE | TCP_KEEPINTVL | TCP_KEEPIDLE | TCP_KEEPALIVE

datatype sockopt_error = ENOPROTOOPT | SockoptError int

definition SetKeepAlive_unix ::
  "(sockopt \<Rightarrow> int \<Rightarrow> sockopt_error option) \<Rightarrow> int \<Rightarrow> sockopt_error option \<times> (sockopt \<times> int) list" where
  "SetKeepAlive_unix setsockopt secs =
     (case setsockopt SO_KEEPALIVE 1 of
        Some err \<Rightarrow> (Some err, [])
      | None \<Rightarrow>
      case setsockopt TCP_KEEPINTVL secs of
        Some err \<Rightarrow> (Some err, [(SO_KEEPALIVE, 1)])
      | None \<Rightarrow>
      case setsockopt TCP_KEEPIDLE secs of
        Some err \<Rightarrow> (Some err, [(SO_KEEPALIVE, 1), (TCP_KEEPINTVL, secs)])
      | None \<Rightarrow> (None, [(SO_KEEPALIVE, 1), (TCP_KEEPINTVL, secs), (TCP_KEEPIDLE, secs)]))"

definition SetKeepAlive_darwin ::
  "(sockopt \<Rightarrow> int \<Rightarrow> sockopt_error option) \<Rightarrow> int \<Rightarrow> sockopt_error option \<times> (sockopt \<times> int) list" where
  "SetKeepAlive_darwin setsockopt secs =
     (case setsockopt SO_KEEPALIVE 1 of
        Some err \<Rightarrow> (Some err, [])
      | None \<Rightarrow>
          let err = setsockopt TCP_KEEPINTVL secs;
              opts = [(SO_KEEPALIVE, 1)] @ (if err = None then [(TCP_KEEPINTVL, secs)] else [])
          in if err \<noteq> None \<and> err \<noteq> Some ENOPROTOOPT then (err, opts)
          else case setsockopt TCP_KEEPALIVE secs of
            Some err \<Rightarrow> (Some err, opts)
          | None \<Rightarrow> (None, opts @ [(TCP_KEEPALIVE, secs)]))"

definition SetKeepAlive_openbsd :: "int \<Rightarrow> sockopt_error option \<times> (sockopt \<times> int) list" where
  "SetKeepAlive_openbsd secs = (None, [])"

text \<open>The idle time is set whenever no error is returned.\<close>

lemma SetKeepAlive_idle:
  "fst (SetKeepAlive_unix setsockopt secs) = None \<Longrightarrow> (TCP_KEEPIDLE, secs) \<in> set (snd (SetKeepAlive_unix setsockopt secs))"
  "fst (SetKeepAlive_darwin setsockopt secs) = None \<Longrightarrow> (TCP_KEEPALIVE, secs) \<in> set (snd (SetKeepAlive_darwin setsockopt secs))"
  by (auto simp: SetKeepAlive_unix_def SetKeepAlive_darwin_def Let_def split: option.splits if_splits)

subsection \<open>What they compute\<close>

lemma dropWhile_line: "c \<notin> set l \<Longrightarrow> dropWhile ((=) c) l = l"
  by (cases l) auto

lemma Trim_line: "c \<notin> set l \<Longrightarrow> Trim (l @ [c]) c = l"
  by (cases l) (auto simp: Trim_def dropWhile_line)

lemma ReadString_line: "LF \<notin> set l \<Longrightarrow> ReadString (l @ LF # s) = (l @ [LF], False, s)"
  by (simp add: ReadString_def)

lemma ReadString_end: "LF \<notin> set s \<Longrightarrow> ReadString s = (s, True, [])"
  by (simp add: ReadString_def)

lemma read_lines_loop_lines:
  assumes "list_all (\<lambda>l. LF \<notin> set l) ls" and "LF \<notin> set rest"
  shows "read_lines_loop all limit offset i (concat (map (\<lambda>l. l @ [LF]) ls) @ rest) =
    drop (nat (offset - i)) (if all then ls else take (nat (limit - i)) ls)"
  using assms
proof (induction ls arbitrary: i)
  case Nil
  then show ?case by (subst read_lines_loop.simps) (simp add: ReadString_end)
next
  case (Cons l ls)
  have r: "ReadString (concat (map (\<lambda>l. l @ [LF]) (l # ls)) @ rest) = (l @ [LF], False, concat (map (\<lambda>l. l @ [LF]) ls) @ rest)"
    using Cons.prems(1) by (simp add: ReadString_line)
  have n: "nat (j - i) = Suc (nat (j - (i + 1)))" if "i < j" for j using that by simp
  show ?case
  proof (cases "i < limit \<or> all")
    case True
    with Cons n [of offset] n [of limit] show ?thesis
      unfolding read_lines_loop.simps [of all limit offset i] r by (auto simp: Trim_line)
  next
    case False
    then show ?thesis by (subst read_lines_loop.simps) simp
  qed
qed

lemma alphanum_length: "length alphanum = 62"
  by (simp add: alphanum_def str_def)

lemma RandomString_alphanum:
  "\<exists>s. RandomString bs = Some s \<and> length s = length bs \<and> set s \<subseteq> set alphanum"
proof (induction bs)
  case Nil
  then show ?case by (simp add: RandomString_def)
next
  case (Cons b bs)
  have "unat (b mod of_nat (length alphanum)) < 62"
    by (simp add: alphanum_length unat_mod)
  then have "index alphanum (int (unat (b mod of_nat (length alphanum)))) = Some (alphanum ! unat (b mod of_nat (length alphanum)))"
    and "alphanum ! unat (b mod of_nat (length alphanum)) \<in> set alphanum"
    by (simp_all add: alphanum_length)
  with Cons show ?case by (auto simp: RandomString_def)
qed

lemma CutString_take: "0 \<le> maxLen \<Longrightarrow> CutString val maxLen = Some (take (nat maxLen) val)"
  by (auto simp: CutString_def slice_range_def)

lemma LastIndexByte_before: "d \<notin> set s \<Longrightarrow> LastIndexByte (p @ s) d = LastIndexByte p d"
  by (induction p) simp_all

lemma split_at:
  "slice_range (dir @ c # filename) 0 (int (length dir)) = Some dir"
  "slice_from (dir @ c # filename) (int (length dir) + 1) = Some filename"
  by (simp_all add: slice_range_def slice_from_def nat_add_distrib)

lemma SplitPath_last:
  assumes "c = 47 \<or> c = 92" and "47 \<notin> set filename" and "92 \<notin> set filename"
  shows "SplitPath (dir @ c # filename) = Some (dir, filename)"
proof -
  let ?p = "dir @ c # filename"
  have other: "LastIndexByte ?p d < int (length dir)" if "d \<noteq> c" "d \<notin> set filename" for d
    using that LastIndexByte_bound [of dir d] by (simp add: LastIndexByte_before)
  have last: "LastIndexByte ?p c = int (length dir)" if "c \<notin> set filename" using that by (rule LastIndexByte_last)
  from assms(1) show ?thesis
  proof
    assume "c = 47"
    with other [of 92] last assms(2,3) show ?thesis by (simp add: SplitPath_def Let_def split_at)
  next
    assume "c = 92"
    with other [of 47] last assms(2,3) show ?thesis by (simp add: SplitPath_def Let_def split_at)
  qed
qed

lemma generateLog_pair: "generateLog (k # v # kvs) = k @ str '':'' @ v @ [9] @ generateLog kvs"
proof -
  have "[0..<Suc (length kvs div 2)] = 0 # map Suc [0..<length kvs div 2]" by (simp add: map_Suc_upt upt_conv_Cons)
  then show ?thesis by (simp add: generateLog_def o_def)
qed

text \<open>The addresses that count, in the order of the interfaces.\<close>

definition usable :: "'err net_iface \<Rightarrow> bool" where
  "usable iface \<longleftrightarrow> and (if_Flags iface) 1 \<noteq> 0 \<and> and (if_Flags iface) 4 = 0"

definition external_ips :: "'err net_iface list \<Rightarrow> bytes list" where
  "external_ips ifaces =
     map To4 (filter (\<lambda>ip. To4 ip \<noteq> [] \<and> To4 ip ! 0 \<noteq> 127)
       (map addr_ip (concat (map (\<lambda>iface. case if_Addrs iface of Inl _ \<Rightarrow> [] | Inr addrs \<Rightarrow> addrs) (filter usable ifaces)))))"

lemma first_ip_filter:
  "first_ip addrs = (case map To4 (filter (\<lambda>ip. To4 ip \<noteq> [] \<and> To4 ip ! 0 \<noteq> 127) (map addr_ip addrs)) of [] \<Rightarrow> None | ip # _ \<Rightarrow> Some (IPv4_String ip))"
proof (induction addrs)
  case (Cons a addrs)
  have "To4 [] = []" by (simp add: To4_def)
  with Cons show ?case by (cases "addr_ip a = []"; cases "To4 (addr_ip a) = []") (simp_all add: IsLoopback_def Let_def)
qed simp

lemma external_ip_first:
  assumes "\<And>iface. iface \<in> set ifaces \<Longrightarrow> usable iface \<Longrightarrow> \<exists>addrs. if_Addrs iface = Inr addrs"
  shows "getExternalIP (Inr ifaces) = (case external_ips ifaces of [] \<Rightarrow> Inl NotConnected | ip # _ \<Rightarrow> Inr (IPv4_String ip))"
  using assms
proof (induction ifaces)
  case Nil
  then show ?case by (simp add: getExternalIP_def external_ips_def)
next
  case (Cons iface ifaces)
  show ?case
  proof (cases "usable iface")
    case True
    then obtain addrs where "if_Addrs iface = Inr addrs" using Cons.prems by auto
    with True Cons show ?thesis
      by (auto simp: usable_def getExternalIP_def external_ips_def first_ip_filter split: list.splits)
  next
    case False
    with Cons show ?thesis by (auto simp: usable_def getExternalIP_def external_ips_def)
  qed
qed

text \<open>Snake case changes nothing but the case of the letters, and it is done after one pass.\<close>

lemma snake_runes_letters:
  assumes "95 \<notin> ToLower U ` set runes"
  shows "filter ((\<noteq>) 95) (snake_runes U runes) = map (ToLower U) runes"
proof -
  have "filter ((\<noteq>) 95) (snake_runes U runes) = map (\<lambda>i. ToLower U (runes ! i)) [0..<length runes]"
    using assms unfolding snake_runes_def filter_concat map_map
    by (subst concat_map_singleton [symmetric], intro arg_cong [of _ _ concat] map_cong) auto
  also have "\<dots> = map (ToLower U) (map ((!) runes) [0..<length runes])" by simp
  finally show ?thesis by (simp only: map_nth)
qed

lemma snake_runes_idem:
  assumes "\<And>r. r \<in> set runes \<Longrightarrow> \<not> IsUpper U (ToLower U r) \<and> ToLower U (ToLower U r) = ToLower U r"
    and "\<not> IsUpper U 95" and "ToLower U 95 = 95"
  shows "snake_runes U (snake_runes U runes) = snake_runes U runes"
proof -
  have fixed: "snake_runes U s = s" if "\<And>r. r \<in> set s \<Longrightarrow> \<not> IsUpper U r \<and> ToLower U r = r" for s
  proof -
    have "snake_runes U s = concat (map (\<lambda>i. [s ! i]) [0..<length s])"
      using that unfolding snake_runes_def by (intro arg_cong [of _ _ concat] map_cong) auto
    then show ?thesis by (simp add: map_nth)
  qed
  show ?thesis by (rule fixed) (use assms in \<open>auto simp: snake_runes_def split: if_splits\<close>)
qed

lemma runes_of_utf8: "list_all valid_rune rs \<Longrightarrow> runes_of (utf8 rs) = rs"
proof (induction rs)
  case Nil
  then show ?case by (subst runes_of.simps) simp
next
  case (Cons r rs)
  then show ?case by (subst runes_of.simps) (simp add: DecodeRune_EncodeRune)
qed

lemma SnakeCase_idem:
  assumes "\<And>r. r \<in> set rs \<Longrightarrow> \<not> IsUpper U (ToLower U r) \<and> ToLower U (ToLower U r) = ToLower U r"
    and "\<not> IsUpper U 95" and "ToLower U 95 = 95"
    and "list_all valid_rune rs" and "list_all valid_rune (snake_runes U rs)"
  shows "SnakeCase U (SnakeCase U (utf8 rs)) = SnakeCase U (utf8 rs)"
  using snake_runes_idem [OF assms(1-3)] assms(4,5) by (simp add: SnakeCase_def runes_of_utf8)

subsection \<open>Properties\<close>

text \<open>
  \<^verbatim>\<open>ReadLinesOffsetN\<close> returns the lines of the file from line \<^verbatim>\<open>offset\<close> on, at most \<^verbatim>\<open>n\<close> of them or all for a
  negative \<^verbatim>\<open>n\<close>, without their newlines. A last line that does not end in a newline is dropped.
\<close>

lemma read_lines:
  assumes "list_all (\<lambda>l. LF \<notin> set l) ls" and "LF \<notin> set rest"
    and "0 \<le> sint offset" and "- (2 ^ 63) \<le> n" and "n + sint offset < 2 ^ 63"
  shows "ReadLinesOffsetN (Inr (concat (map (\<lambda>l. l @ [LF]) ls) @ rest)) offset n =
    (let from = drop (nat (sint offset)) ls in if n < 0 then from else take (nat n) from, None)"
proof -
  have "sint (of_int (n + sint offset) :: 64 word) = n + sint offset"
    unfolding sint_sbintrunc' by (rule signed_take_bit_int_eq_self) (use assms(3-5) in simp_all)
  then show ?thesis
    using assms by (simp add: ReadLinesOffsetN_def read_lines_loop_lines [OF assms(1,2)] drop_take nat_add_distrib)
qed

lemma read_lines_witness:
  "ReadLinesOffsetN (Inr ([97, LF, 98, LF, 99, LF, 100] :: bytes) :: gostring + bytes) 1 1 = ([[98]], None)"
  using read_lines [of "[[97], [98], [99]]" "[100]" 1 1] by simp

end
