(* ===== verification/Spec2Isabelle.thy ===== *)
theory Spec2Isabelle
  imports Connection_Manager Serve_Listeners Shutdown_Signal Dubbo_Decoder Dubbo_Alias Discovery Mesh Utilities
begin

text \<open>
  A verification of \<^verbatim>\<open>evio\<close>: an event-loop networking library, and the service-mesh agent that is built on it.

  \<^bold>\<open>The program.\<close> \<^verbatim>\<open>Serve\<close> (\<^verbatim>\<open>evio.go\<close>) opens listeners and runs event loops (\<^verbatim>\<open>evio_unix.go\<close>) over a poller
  (\<^verbatim>\<open>internal\<close>). The loops call the event handlers of the HTTP server (\<^verbatim>\<open>http_server.go\<close>), of the protocol between
  agents (\<^verbatim>\<open>agent_server.go\<close>) and of the client of dubbo (\<^verbatim>\<open>dubbo_agent.go\<close>), which parse the input and put requests
  on queues; workers take them from there. A consumer forwards HTTP requests to remote agents
  (\<^verbatim>\<open>local_http.go\<close>, \<^verbatim>\<open>remote_agent.go\<close>), which it finds in etcd and chooses from with a load balancer
  (\<^verbatim>\<open>connection_manager.go\<close>, \<^verbatim>\<open>load_balancer.go\<close>). A provider turns them into dubbo requests (\<^verbatim>\<open>local_agent.go\<close>,
  \<^verbatim>\<open>codec\<close>) and sends the answers back on the same way.

  \<^bold>\<open>The model.\<close> A byte is an \<open>8 word\<close>, strings and byte slices are lists of bytes, fixed-width integers are words.
  A result \<open>None\<close> of type \<open>go\<close> is a run-time panic. Structs are records, pointers are indices into a heap where
  objects are shared (connections, remote agents, byte arrays). The definitions carry the names of the code; where
  two parts use one name, a prefix tells them apart. Goroutines that share state are step relations, one step for
  each piece of code that runs under a lock or in one loop: \<open>poll_step\<close> for the note queue, \<open>loop_step\<close> for
  a server, \<open>pv_step\<close> and \<open>co_step\<close> for a provider and a consumer, \<open>sd_step\<close> for the end of a server.

  \<^bold>\<open>Basis.\<close>
  \<^item> \<open>Prelude\<close>: Go's slices, panics, byte orders, and the shared lemmas. \<open>Go_Strings\<close>, \<open>Utf8\<close>: what is used of
    \<^verbatim>\<open>strings\<close>, \<^verbatim>\<open>strconv\<close>, \<^verbatim>\<open>unicode/utf8\<close> and \<^verbatim>\<open>encoding/json\<close>.
  \<^item> \<open>Evio_Types\<close>: actions and options of \<^verbatim>\<open>evio.go\<close>.
  \<^item> \<open>Input_Stream\<close>: \<^verbatim>\<open>InputStream.Begin\<close> and \<^verbatim>\<open>End\<close>, and the locales \<open>frame_parser\<close>, \<open>stream_handler\<close> and
    \<open>packet_stream\<close>, which hold the argument that a handler delivers the same requests however TCP cuts the
    input. They are interpreted for the three protocols.

  \<^bold>\<open>The event loop.\<close>
  \<^item> \<open>Note_Queue\<close>: \<^verbatim>\<open>notequeue.go\<close>, its spin lock and \<^verbatim>\<open>Trigger\<close> against \<^verbatim>\<open>Wait\<close>, interleaved at atomic operations: no
    note is lost, repeated or reordered, but a wake-up can be lost.
  \<^item> \<open>Poll\<close>: \<^verbatim>\<open>internal_linux.go\<close> and \<^verbatim>\<open>internal_bsd.go\<close>, both interpretations of the locale \<open>poller\<close>.
  \<^item> \<open>Net_Addr\<close>: \<^verbatim>\<open>parseAddr\<close> and \<^verbatim>\<open>SockaddrToAddr\<close>.
  \<^item> \<open>Event_Loop\<close>: the functions of \<^verbatim>\<open>evio_unix.go\<close> (\<^verbatim>\<open>loopAccept\<close>, \<^verbatim>\<open>loopOpened\<close>, \<^verbatim>\<open>loopRead\<close>, \<^verbatim>\<open>loopWrite\<close>, \<^verbatim>\<open>loopAction\<close>,
    \<^verbatim>\<open>loopNote\<close>, \<^verbatim>\<open>loopCloseConn\<close>, \<^verbatim>\<open>loopDetachConn\<close>, \<^verbatim>\<open>loopUDPRead\<close>, \<^verbatim>\<open>outConnect\<close>, \<^verbatim>\<open>conn.Send\<close>, \<^verbatim>\<open>serve\<close>). System calls are
    answered by a parameter \<open>kernel\<close>.
  \<^item> \<open>Loop_Invariant\<close>: tables, connections, descriptors and watches agree in every reachable state, for all handlers
    that satisfy the locale \<open>callbacks\<close>. \<open>Loop_User\<close>: the same for the state of the handlers (\<open>user_invariant\<close>).
  \<^item> \<open>Loop_Output\<close>, \<open>Loop_Accept\<close>: output is sent in order and completely, connections are spread over the loops;
    and the cases where this fails.
  \<^item> \<open>Serve_Listeners\<close>: \<^verbatim>\<open>Serve\<close>, \<^verbatim>\<open>listener.system\<close> and \<^verbatim>\<open>listener.close\<close>: nothing stays open. \<open>Shutdown_Signal\<close>: the end of
    \<^verbatim>\<open>serve\<close> with \<^verbatim>\<open>waitForShutdown\<close>, \<^verbatim>\<open>signalShutdown\<close> and the wait group: the server comes down, unless the
    signal comes before the wait.
  \<^item> \<open>Server_Events\<close>: the handlers of the two servers in the loop. The locale \<open>stream_events\<close> carries delivery
    from the bytes that the kernel returns to the queue of the workers.

  \<^bold>\<open>The protocols.\<close>
  \<^item> \<open>Agent_Server\<close>: packet format, parser, \<^verbatim>\<open>Data\<close> event: round trip, delivery, absence of panics, and the inputs on
    which they fail.
  \<^item> \<open>Http_Parser\<close>, \<open>Http_Server\<close>: the index loops of \<^verbatim>\<open>parsereq\<close> equal a reference reader; delivery; responses.
  \<^item> \<open>Dubbo_Codec\<close>: \<^verbatim>\<open>PackRequest\<close>, \<^verbatim>\<open>UnpackResponse\<close> and the Hessian encoder with round trips. \<open>Dubbo_Decoder\<close>: \<^verbatim>\<open>decode.go\<close> over
    \<^verbatim>\<open>bufio.Reader\<close> refines a cursor over a byte string.

  \<^bold>\<open>The mesh.\<close>
  \<^item> \<open>Load_Balancer\<close>, \<open>Connection_Manager\<close>: weighted round robin, and a refinement of an abstract pool (locale
    \<open>connection_pool\<close>). \<open>Conn_Pool\<close>: pools hold live connections of the loop.
  \<^item> \<open>Dubbo_Agent\<close>: \<^verbatim>\<open>dubbo_agent.go\<close>, \<^verbatim>\<open>local_agent.go\<close> and the provider. \<open>Dubbo_Alias\<close>: its \<^verbatim>\<open>Data\<close> event again over a
    store of byte arrays, to see which responses keep their bytes.
  \<^item> \<open>Remote_Agent\<close>: \<^verbatim>\<open>remote_agent.go\<close>, \<^verbatim>\<open>local_http.go\<close> and the consumer. \<open>Discovery\<close>: \<^verbatim>\<open>RegisterInterface\<close> and
    \<^verbatim>\<open>ListenInterface\<close>: registered providers are found.
  \<^item> \<open>Mesh\<close> and this theory: one request through all parts and its answer back.
  \<^item> \<open>Utilities\<close>: what computes in \<^verbatim>\<open>util\<close>, \<^verbatim>\<open>logger\<close> and the keep-alive options.

  \<^bold>\<open>Bounds.\<close> Loops are structural recursions or functions with a termination proof; none uses fuel. The loop of
  \<^verbatim>\<open>GetConnection\<close> that connects until it succeeds is a \<open>partial_function\<close>, with a theorem that it returns once a
  connection is accepted. Pool invariants hold while fewer than \<^verbatim>\<open>1 << 32 - 1\<close> connections were made, the range of the
  load balancer's index. The results of system calls, dates, random numbers and etcd are parameters, numbered by a
  clock where they may change. What is assumed of them is a hypothesis of the theorem, with a witness.

  \<^bold>\<open>Not modelled.\<close> Go channels are unbounded queues, so workers that block on a full one do not appear. The memory
  model is sequentially consistent. The profile time stamps and log output are left out. Without a model are:
  \<^verbatim>\<open>main.go\<close> (flags, profiling, start of goroutines), the set-up of \<^verbatim>\<open>logger.go\<close> (a third-party package), the
  functions of \<^verbatim>\<open>util.go\<close> for TLS, commands with a timeout, random sleeps and durations (operating system,
  cryptography, floating point; the program does not call them), \<^verbatim>\<open>evio_other.go\<close> (does not compile), the
  wrappers of the reuseport package, \<^verbatim>\<open>detachedConn.Read\<close> (one system call), the constants of \<^verbatim>\<open>const.go\<close> that no
  code uses, and the load test client.
\<close>

text \<open>
  C1: a request goes through the mesh and its answer comes back to the client that asked. The worker of the
  consumer takes the HTTP request and writes one packet on a connection of a remote agent; the provider that
  receives this packet writes the dubbo request for the same interface, method and parameter;
  whatever data dubbo answers under the number of that request, the provider returns in one packet on the
  same connection; and the consumer that receives it writes the HTTP response with this data, and nothing else,
  to the connection of the request. The kernels take what is written, and no output is pending on the connections used.
\<close>

theorem mesh_answers:
  assumes "writes_all Kh" and "writes_all Kr" and "writes_all Ka" and "writes_all Kd"
    and "s_user (co_http c) = req # q" and "hq_conn req = Some hc" and "quiet hc (co_http c)"
    and "agents_reachable (co_ram c)" and "ram_workerRespQueue (s_user (co_ram c)) = []"
    and "conn_Context pc (pv_agents p) = Some (Some ctx)" and "is_b (ac_is ctx) = []" and "quiet pc (pv_agents p)"
    and "s_user (pv_agents p) = []" and "dubbo_reachable (pv_dubbo p)" and "lda_workerRespQueue (s_user (pv_dubbo p)) = []"
    and "agent_sendable (hq_interf req) (hq_callMethod req) (hq_parameter req)"
    and "length (AppendResp (date (s_clock (pv_agents p))) [] (str ''200 OK'') [] answer) < 4294967290"
    and "length (dubbo_response flags status 0 answer) < 2 ^ 31"
  shows "\<exists>ac pkt c1 a1 dc m p1 d1 p2 rpkt r1 c2.
    http_worker Kh Kr date c = Some c1 \<and> sent ac pkt (co_ram c) (co_ram c1) \<and>
    agent_data_event (\<lambda>rs u. u @ rs) pc pkt (pv_agents p) = Some ([], NoAction, a1) \<and>
    agent_worker Kd F (p\<lparr>pv_agents := a1\<rparr>) = Some p1 \<and> sent dc (PackRequest m) (pv_dubbo p) (pv_dubbo p1) \<and>
    m_Interface m = hq_interf req \<and> m_Method m = hq_callMethod req \<and>
    map_option ri_Args (m_Data m) = Some (hq_parameter req) \<and>
    dubbo_data_event dc (dubbo_response flags status (m_ID m) answer) (pv_dubbo p1) = Some ([], NoAction, d1) \<and>
    dubbo_worker Ka date (p1\<lparr>pv_dubbo := d1\<rparr>) = Some p2 \<and> sent pc rpkt (pv_agents p1) (pv_agents p2) \<and>
    agent_data_event ram_enqueue ac rpkt (co_ram c1) = Some ([], NoAction, r1) \<and>
    remote_worker Kh date (c1\<lparr>co_ram := r1\<rparr>) = Some c2 \<and>
    sent hc (AppendResp (date (s_clock (pv_agents p))) [] (str ''200 OK'') [] answer) (co_http c) (co_http c2)"
proof -
  from http_worker_sends [OF assms(2,8,5), of Kh date] obtain ac reqID r where
    c1: "http_worker Kh Kr date c = Some (c\<lparr>co_http := (co_http c)\<lparr>s_user := q\<rparr>, co_ram := r\<rparr>)"
    and out: "sent ac (agent_out 0 reqID (hq_interf req) (hq_callMethod req) ParamType_String (hq_parameter req)) (co_ram c) r"
    and r: "ram_workerRespQueue (s_user r) = []" "awaits ac reqID req r"
    using assms(9) by auto
  define m where "m = \<lparr>am_Result = 0, am_RequestID = reqID, am_Interf = hq_interf req, am_Method = hq_callMethod req,
    am_ParamType = ParamType_String, am_Param = hq_parameter req\<rparr>"
  have m: "agent_msg_ok m" "agent_packet m = agent_out 0 reqID (hq_interf req) (hq_callMethod req) ParamType_String (hq_parameter req)"
    using assms(16) by (simp_all add: m_def agent_msg_ok_def agent_packet_def)
  define dm where "dm = dubbo_message (agent_received pc m)"
  have dm: "m_Interface dm = hq_interf req" "m_Method dm = hq_callMethod req" "map_option ri_Args (m_Data dm) = Some (hq_parameter req)"
    "m_ID dm = reqID"
    by (simp_all add: dm_def dubbo_message_def agent_received_def m_def)
  from provider_asks [OF assms(4,10-15) m(1), of F] obtain a1 p1 dc where
    asks: "agent_data_event (\<lambda>rs u. u @ rs) pc (agent_packet m) (pv_agents p) = Some ([], NoAction, a1)"
      "agent_worker Kd F (p\<lparr>pv_agents := a1\<rparr>) = Some p1" "sent dc (PackRequest dm) (pv_dubbo p) (pv_dubbo p1)"
    and p1: "asked pc dc reqID p1" "s_clock (pv_agents p1) = s_clock (pv_agents p)"
    by (auto simp: dm_def m_def)
  let ?resp = "AppendResp (date (s_clock (pv_agents p))) [] (str ''200 OK'') [] answer"
  from provider_answers [OF assms(3) p1(1), of flags status answer date] assms(18) p1(2) obtain d1 p2 where
    answers: "dubbo_data_event dc (dubbo_response flags status reqID answer) (pv_dubbo p1) = Some ([], NoAction, d1)"
      "dubbo_worker Ka date (p1\<lparr>pv_dubbo := d1\<rparr>) = Some p2"
      "sent pc (agent_out 200 reqID [] [] ParamType_Result ?resp) (pv_agents p1) (pv_agents p2)"
    by auto
  let ?c1 = "c\<lparr>co_http := (co_http c)\<lparr>s_user := q\<rparr>, co_ram := r\<rparr>"
  have "quiet hc (co_http ?c1)" using assms(7) by (simp add: quiet_def)
  from consumer_answers [OF assms(1), of ac reqID req ?c1 hc ?resp date] r assms(6,17) this obtain r1 c2 where
    ret: "agent_data_event ram_enqueue ac (agent_out 200 reqID [] [] ParamType_Result ?resp) r = Some ([], NoAction, r1)"
      "remote_worker Kh date (?c1\<lparr>co_ram := r1\<rparr>) = Some c2" "sent hc ?resp (co_http c) (co_http c2)"
    by (auto simp: sent_def)
  show ?thesis
    by (rule exI [of _ ac], rule exI [of _ "agent_packet m"], rule exI [of _ ?c1], rule exI [of _ a1], rule exI [of _ dc],
        rule exI [of _ dm], rule exI [of _ p1], rule exI [of _ d1], rule exI [of _ p2],
        rule exI [of _ "agent_out 200 reqID [] [] ParamType_Result ?resp"], rule exI [of _ r1], rule exI [of _ c2])
      (use c1 out m(2) dm asks answers ret in simp)
qed

definition ex_writer :: kernel where
  "ex_writer = (ex_kernel (Inl 0) [])\<lparr>k_write := \<lambda>t fd d. Inl (length d)\<rparr>"

definition ex_http_request :: "cid HttpRequest" where
  "ex_http_request = new_HttpRequest\<lparr>hq_conn := Some 0, hq_interf := str ''IHello'', hq_callMethod := str ''hash'', hq_parameter := str ''abc''\<rparr>"

definition ex_consumer :: consumer where
  "ex_consumer = \<lparr>co_http = ex_server (ex_conn None NoAction) [ex_http_request],
     co_ram = ex_server ((ex_conn None NoAction)\<lparr>c_ctx := Some (new_AgentContext\<lparr>ac_ra := Some 0\<rparr>)\<rparr>)
       (new_RemoteAgentManager\<lparr>ram_heap := [new_RemoteAgent\<lparr>ra_connManager := ex_pool\<rparr>], ram_hackManager := ex_pool\<rparr>)\<rparr>"

definition ex_provider :: provider where
  "ex_provider = \<lparr>pv_agents = ex_server ((ex_conn None NoAction)\<lparr>c_ctx := Some new_AgentContext\<rparr>) [],
     pv_dubbo = ex_server ((ex_conn None NoAction)\<lparr>c_ctx := Some new_DubboContext\<rparr>) (new_LocalDubboAgent\<lparr>lda_connManager := ex_pool\<rparr>)\<rparr>"

lemma ex_mesh_ok:
  "writes_all ex_writer" "agents_reachable (co_ram ex_consumer)" "dubbo_reachable (pv_dubbo ex_provider)"
  using ex_pool_inv
  by (simp_all add: writes_all_def ex_writer_def agents_reachable_def ex_consumer_def ex_simps new_RemoteAgentManager_def
      new_RemoteAgent_def agent_conn_def quiet_def conn_Context_def new_AgentContext_def dubbo_reachable_def dubbo_conn_def
      ex_provider_def new_LocalDubboAgent_def new_DubboContext_def ex_pool_def)

theorem mesh_answers_witness:
  "\<exists>ac pkt c1 a1 dc m p1 d1 p2 rpkt r1 c2.
    http_worker ex_writer ex_writer (\<lambda>t. []) ex_consumer = Some c1 \<and> sent ac pkt (co_ram ex_consumer) (co_ram c1) \<and>
    agent_data_event (\<lambda>rs u. u @ rs) 0 pkt (pv_agents ex_provider) = Some ([], NoAction, a1) \<and>
    agent_worker ex_writer ex_flags (ex_provider\<lparr>pv_agents := a1\<rparr>) = Some p1 \<and>
    sent dc (PackRequest m) (pv_dubbo ex_provider) (pv_dubbo p1) \<and>
    m_Interface m = hq_interf ex_http_request \<and> m_Method m = hq_callMethod ex_http_request \<and>
    map_option ri_Args (m_Data m) = Some (hq_parameter ex_http_request) \<and>
    dubbo_data_event dc (dubbo_response 2 20 (m_ID m) [52, 50]) (pv_dubbo p1) = Some ([], NoAction, d1) \<and>
    dubbo_worker ex_writer (\<lambda>t. []) (p1\<lparr>pv_dubbo := d1\<rparr>) = Some p2 \<and> sent 0 rpkt (pv_agents p1) (pv_agents p2) \<and>
    agent_data_event ram_enqueue ac rpkt (co_ram c1) = Some ([], NoAction, r1) \<and>
    remote_worker ex_writer (\<lambda>t. []) (c1\<lparr>co_ram := r1\<rparr>) = Some c2 \<and>
    sent 0 (AppendResp [] [] (str ''200 OK'') [] [52, 50]) (co_http ex_consumer) (co_http c2)"
proof -
  have "s_user (co_http ex_consumer) = [ex_http_request]" "hq_conn ex_http_request = Some 0" "quiet 0 (co_http ex_consumer)"
    "ram_workerRespQueue (s_user (co_ram ex_consumer)) = []" "conn_Context 0 (pv_agents ex_provider) = Some (Some new_AgentContext)"
    "is_b (ac_is (new_AgentContext :: (cid, unit) AgentContext)) = []" "quiet 0 (pv_agents ex_provider)" "s_user (pv_agents ex_provider) = []"
    "lda_workerRespQueue (s_user (pv_dubbo ex_provider)) = []"
    by (simp_all add: ex_consumer_def ex_provider_def ex_simps ex_http_request_def quiet_def conn_Context_def
        new_RemoteAgentManager_def new_AgentContext_def new_LocalDubboAgent_def)
  moreover have "agent_sendable (hq_interf ex_http_request) (hq_callMethod ex_http_request) (hq_parameter ex_http_request)"
    by (simp add: ex_http_request_def agent_sendable_def str_def)
  moreover have "length (AppendResp [] [] (str ''200 OK'') [] [52, 50]) < 4294967290"
    by (simp add: AppendResp_def str_def Itoa_def digits.simps [of 2])
  moreover have "length (dubbo_response 2 20 0 [52, 50]) < 2 ^ 31" by simp
  ultimately show ?thesis
    using mesh_answers [OF ex_mesh_ok(1) ex_mesh_ok(1) ex_mesh_ok(1) ex_mesh_ok(1), of ex_consumer ex_http_request "[]" 0 0 ex_provider
        new_AgentContext "\<lambda>t. []" "[52, 50]" 2 20 ex_flags] ex_mesh_ok(2,3)
    by simp
qed

end
